(* ===== verification/Prelude.thy ===== *)
theory Prelude
  imports Main "HOL-Library.Multiset"
begin

text \<open>
  Shared vocabulary of the development: the Go primitives the components use (string
  helpers of package \<open>strings\<close>, hexadecimal encoding, the 32-bit conversion, windows
  of a slice), the type synonyms that name them, and the generic lemmas and named
  collections the component theories share.

  A Go \<open>string\<close> or \<open>[]byte\<close> is a list of bytes; a byte is a \<^typ>\<open>char\<close>. A Go
  \<open>time.Time\<close> is the \<^typ>\<open>int\<close> number of nanoseconds since the zero time, a
  \<open>time.Duration\<close> an \<^typ>\<open>int\<close> number of nanoseconds, and a Unix time in
  milliseconds an \<^typ>\<open>int\<close>.
\<close>

type_synonym byte = char
type_synonym bytes = "char list"
type_synonym time = int
type_synonym duration = int

named_theorems go_defs "definitions of the Go primitives"
named_theorems step_simps "functional equations of the state machines' steps"
named_theorems inv_intros "preservation lemmas of the invariants"

subsection \<open>Package strings\<close>

definition has_prefix :: "string \<Rightarrow> string \<Rightarrow> bool" where
  [go_defs]: "has_prefix p s \<longleftrightarrow> length p \<le> length s \<and> take (length p) s = p"

definition has_suffix :: "string \<Rightarrow> string \<Rightarrow> bool" where
  [go_defs]: "has_suffix p s \<longleftrightarrow>
     length p \<le> length s \<and> drop (length s - length p) s = p"

definition trim_prefix :: "string \<Rightarrow> string \<Rightarrow> string" where
  [go_defs]: "trim_prefix p s = (if has_prefix p s then drop (length p) s else s)"

text \<open>The ASCII white space \<open>strings.TrimSpace\<close> strips.\<close>

definition is_space :: "char \<Rightarrow> bool" where
  [go_defs]: "is_space c \<longleftrightarrow> c = CHR 0x20 \<or> (CHR 0x09 = c) \<or> c = CHR 0x0A \<or>
     c = CHR 0x0B \<or> c = CHR 0x0C \<or> c = CHR 0x0D"

definition trim_space :: "string \<Rightarrow> string" where
  [go_defs]: "trim_space s = rev (dropWhile is_space (rev (dropWhile is_space s)))"

lemma has_prefix_append [simp]: "has_prefix p (p @ s)"
  by (simp add: has_prefix_def)

lemma has_prefix_iff: "has_prefix p s \<longleftrightarrow> (\<exists>t. s = p @ t)"
proof
  assume "has_prefix p s"
  then have "s = p @ drop (length p) s"
    unfolding has_prefix_def by (metis append_take_drop_id)
  then show "\<exists>t. s = p @ t" ..
qed auto

lemma trim_prefix_append [simp]: "trim_prefix p (p @ s) = s"
  by (simp add: trim_prefix_def)

lemma trim_space_id:
  assumes "\<forall>c \<in> set s. \<not> is_space c"
  shows "trim_space s = s"
proof -
  have "dropWhile is_space s = s"
    using assms by (cases s) auto
  moreover have "\<forall>c \<in> set (rev s). \<not> is_space c"
    using assms by simp
  then have "dropWhile is_space (rev s) = rev s"
    by (cases "rev s") auto
  ultimately show ?thesis by (simp add: trim_space_def)
qed

subsection \<open>Hexadecimal encoding\<close>

text \<open>\<open>hex.EncodeToString\<close>: two lower-case digits per byte, the high nibble first.\<close>

definition hex_digits :: string where
  "hex_digits = ''0123456789abcdef''"

definition hex_of_byte :: "byte \<Rightarrow> string" where
  "hex_of_byte b = [hex_digits ! (of_char b div 16), hex_digits ! (of_char b mod 16)]"

definition hex_encode :: "bytes \<Rightarrow> string" where
  "hex_encode bs = concat (map hex_of_byte bs)"

lemma length_hex_encode [simp]: "length (hex_encode bs) = 2 * length bs"
  by (induction bs) (simp_all add: hex_encode_def hex_of_byte_def)

lemma hex_encode_Nil_iff [simp]: "hex_encode bs = [] \<longleftrightarrow> bs = []"
  by (cases bs) (simp_all add: hex_encode_def hex_of_byte_def)

lemma of_char_less_256: "(of_char (c :: char) :: nat) < 256"
  by (cases c) (simp add: of_char_def)

lemma high_nibble: "(of_char (c :: char) :: nat) div 16 < 16"
  using of_char_less_256 [of c] by (intro less_mult_imp_div_less) simp

lemma hex_digits_no_space: "n < 16 \<Longrightarrow> \<not> is_space (hex_digits ! n)"
proof -
  assume "n < 16"
  then have "hex_digits ! n \<in> set hex_digits"
    by (intro nth_mem) (simp add: hex_digits_def)
  then show ?thesis by (auto simp: hex_digits_def is_space_def)
qed

lemma hex_of_byte_no_space: "c \<in> set (hex_of_byte b) \<Longrightarrow> \<not> is_space c"
  using hex_digits_no_space [OF high_nibble [of b]] hex_digits_no_space [of "of_char b mod 16"]
  by (auto simp: hex_of_byte_def)

lemma hex_encode_no_space: "c \<in> set (hex_encode bs) \<Longrightarrow> \<not> is_space c"
  by (auto simp: hex_encode_def dest: hex_of_byte_no_space)

lemma hex_digits_inj: "m < 16 \<Longrightarrow> n < 16 \<Longrightarrow> hex_digits ! m = hex_digits ! n \<Longrightarrow> m = n"
proof -
  assume "m < 16" "n < 16" "hex_digits ! m = hex_digits ! n"
  moreover have "distinct hex_digits" "length hex_digits = 16"
    by (simp_all add: hex_digits_def)
  ultimately show "m = n" by (metis nth_eq_iff_index_eq)
qed

lemma hex_of_byte_inj: "hex_of_byte a = hex_of_byte b \<Longrightarrow> a = b"
proof -
  assume eq: "hex_of_byte a = hex_of_byte b"
  from eq have "(of_char a :: nat) div 16 = of_char b div 16"
    and "(of_char a :: nat) mod 16 = of_char b mod 16"
    by (auto simp: hex_of_byte_def intro!: hex_digits_inj high_nibble)
  then have "(of_char a :: nat) = of_char b"
    by (metis div_mult_mod_eq)
  then show "a = b" by simp
qed

lemma hex_encode_inj: "hex_encode as = hex_encode bs \<Longrightarrow> as = bs"
proof (induction as arbitrary: bs)
  case Nil
  then have "length (hex_encode bs) = 0" by (simp add: hex_encode_def)
  then show ?case by simp
next
  case (Cons a as)
  from Cons.prems obtain b bs' where bs: "bs = b # bs'"
    by (cases bs) (auto simp: hex_encode_def hex_of_byte_def)
  from Cons.prems have "hex_of_byte a @ hex_encode as = hex_of_byte b @ hex_encode bs'"
    by (simp add: bs hex_encode_def)
  then have "hex_of_byte a = hex_of_byte b" and "hex_encode as = hex_encode bs'"
    by (simp_all add: hex_of_byte_def)
  then show ?case using Cons.IH bs hex_of_byte_inj by blast
qed

subsection \<open>Windows of a slice and the 32-bit conversion\<close>

text \<open>\<open>if len(xs) > n { xs = xs[len(xs)-n:] }\<close>: the last \<open>n\<close> elements.\<close>

definition lastn :: "nat \<Rightarrow> 'a list \<Rightarrow> 'a list" where
  [go_defs]: "lastn n xs = (if length xs > n then drop (length xs - n) xs else xs)"

lemma lastn_drop: "lastn n xs = drop (length xs - n) xs"
  by (simp add: lastn_def)

lemma length_lastn [simp]: "length (lastn n xs) = min n (length xs)"
  by (auto simp: lastn_def)

lemma lastn_snoc: "0 < n \<Longrightarrow> lastn n (lastn n xs @ [x]) = lastn n (xs @ [x])"
  by (auto simp: lastn_def Suc_diff_le)

lemma lastn_append_lastn:
  assumes "n \<le> m"
  shows "lastn n (lastn m xs @ ys) = lastn n (xs @ ys)"
proof (cases "m < length xs")
  case True
  then have "length xs - m + (m + length ys - n) = length xs + length ys - n"
    using assms by simp
  then show ?thesis
    using True assms by (simp add: lastn_drop add.commute)
qed (simp add: lastn_def)

lemma set_lastn_subset: "set (lastn n xs) \<subseteq> set xs"
  by (simp add: lastn_drop set_drop_subset)

lemma map_lastn: "map f (lastn n xs) = lastn n (map f xs)"
  by (simp add: lastn_def drop_map)

text \<open>Go's conversion \<open>int32(x)\<close> keeps the low 32 bits, read as two's complement.\<close>

definition int32 :: "int \<Rightarrow> int" where
  [go_defs]: "int32 x = (x + 2 ^ 31) mod 2 ^ 32 - 2 ^ 31"

lemma int32_id: "- (2 ^ 31) \<le> x \<Longrightarrow> x < 2 ^ 31 \<Longrightarrow> int32 x = x"
  by (simp add: int32_def)

lemma int32_range: "- (2 ^ 31) \<le> int32 x \<and> int32 x < 2 ^ 31"
  by (simp add: int32_def)

text \<open>\<open>strings.Join\<close> with a separator.\<close>

fun join_with :: "string \<Rightarrow> string list \<Rightarrow> string" where
  "join_with sep [] = []"
| "join_with sep [x] = x"
| "join_with sep (x # y # ys) = x @ sep @ join_with sep (y # ys)"

end
