(* ===== verification/LineBuffer.thy ===== *)
theory LineBuffer
  imports Prelude
begin

text \<open>
  The line splitter and bounded ring of a job's output stream, \<open>LineBuffer\<close> in
  \<open>internal/shellh/runner.go\<close>. The mutex makes each operation atomic; the sequence
  counter \<open>nextSeq\<close> closes over is a number threaded through. \<open>Write\<close> returns the
  records it completed, which is what the \<open>onLine\<close> callback is then fired with, in
  order, outside the lock.
\<close>

datatype line_rec = LineRec (Seq: int) (Line: string)

record line_buffer =
  lb_max :: int
  recs :: "line_rec list"
  cur :: string
  lb_dropped :: int

definition CR :: char where "CR = CHR 0x0D"
definition LF :: char where "LF = CHR 0x0A"

definition NewLineBuffer :: "int \<Rightarrow> line_buffer" where
  "NewLineBuffer max0 =
     \<lparr>lb_max = (if max0 \<le> 0 then 10000 else max0), recs = [], cur = '''', lb_dropped = 0\<rparr>"

text \<open>Appending a completed record to the ring, dropping the oldest when it is full.\<close>

definition lb_push :: "line_rec \<Rightarrow> line_buffer \<Rightarrow> line_buffer" where
  "lb_push r lb =
     (let rs = recs lb @ [r] in
      if int (length rs) > lb_max lb
      then lb\<lparr>recs := tl rs, lb_dropped := lb_dropped lb + 1\<rparr> else lb\<lparr>recs := rs\<rparr>)"

text \<open>The current line is completed under the next sequence number.\<close>

definition lb_complete :: "line_buffer \<times> int \<Rightarrow> line_rec \<times> (line_buffer \<times> int)" where
  "lb_complete s =
     (let (lb, seq) = s; r = LineRec (seq + 1) (cur lb)
      in (r, (lb_push r (lb\<lparr>cur := ''''\<rparr>), seq + 1)))"

definition lb_byte :: "byte \<Rightarrow> line_buffer \<times> int \<Rightarrow> line_rec list \<times> (line_buffer \<times> int)" where
  "lb_byte b s =
     (if b = CR then ([], s)
      else if b = LF then (let (r, s') = lb_complete s in ([r], s'))
      else ([], ((fst s)\<lparr>cur := cur (fst s) @ [b]\<rparr>, snd s)))"

fun lb_bytes :: "bytes \<Rightarrow> line_buffer \<times> int \<Rightarrow> line_rec list \<times> (line_buffer \<times> int)" where
  "lb_bytes [] s = ([], s)"
| "lb_bytes (b # bs) s =
     (let (rs, s1) = lb_byte b s; (rs', s2) = lb_bytes bs s1 in (rs @ rs', s2))"

definition lb_Write :: "bytes \<Rightarrow> line_buffer \<times> int \<Rightarrow> (int \<times> line_rec list) \<times> (line_buffer \<times> int)" where
  "lb_Write p s = (let (completed, s') = lb_bytes p s in ((int (length p), completed), s'))"

definition lb_Recs :: "line_buffer \<Rightarrow> line_rec list" where
  "lb_Recs lb = recs lb"

definition lb_Dropped :: "line_buffer \<Rightarrow> int" where
  "lb_Dropped lb = lb_dropped lb"

text \<open>The result is the promoted record, if there was a partial line.\<close>

definition lb_FlushLine :: "line_buffer \<times> int \<Rightarrow> line_rec option \<times> (line_buffer \<times> int)" where
  "lb_FlushLine s =
     (if length (cur (fst s)) = 0 then (None, s)
      else let (r, s') = lb_complete s in (Some r, s'))"

definition lb_FlushLine_result :: "line_rec option \<Rightarrow> string" where
  "lb_FlushLine_result r = (case r of None \<Rightarrow> '''' | Some r \<Rightarrow> Line r)"

text \<open>\<open>lines[len(lines)-n:]\<close> with a bound that callers keep non-negative.\<close>

definition lb_Tail :: "nat \<Rightarrow> line_buffer \<Rightarrow> string" where
  "lb_Tail n lb =
     (let lines = map Line (recs lb);
          lines = (if cur lb \<noteq> '''' then lines @ [cur lb] else lines)
      in join_with [LF] (lastn n lines))"

fun lb_writes :: "bytes list \<Rightarrow> line_buffer \<times> int \<Rightarrow> line_rec list \<times> (line_buffer \<times> int)" where
  "lb_writes [] s = ([], s)"
| "lb_writes (p # ps) s =
     (let ((_, rs), s1) = lb_Write p s; (rs', s2) = lb_writes ps s1 in (rs @ rs', s2))"

subsection \<open>The ring as a window on the history\<close>

text \<open>
  \<open>lb_view h lb\<close>: the buffer shows the last \<open>lb_max\<close> records of the history \<open>h\<close> of
  every record it ever completed, and counts the others as dropped.
\<close>

definition lb_view :: "line_rec list \<Rightarrow> line_buffer \<Rightarrow> bool" where
  "lb_view h lb \<longleftrightarrow> 0 < lb_max lb \<and> recs lb = lastn (nat (lb_max lb)) h \<and>
     lb_dropped lb = int (length h) - int (length (recs lb))"

lemma lb_view_new: "lb_view [] (NewLineBuffer m)"
  by (simp add: lb_view_def NewLineBuffer_def lastn_def)

lemma lb_view_cur [simp]: "lb_view h (lb\<lparr>cur := s\<rparr>) = lb_view h lb"
  by (simp add: lb_view_def)

lemma lb_push_frame [simp]: "cur (lb_push r lb) = cur lb" "lb_max (lb_push r lb) = lb_max lb"
  by (simp_all add: lb_push_def Let_def)

lemma lb_view_push:
  assumes "lb_view h lb"
  shows "lb_view (h @ [r]) (lb_push r lb)"
proof -
  let ?n = "nat (lb_max lb)"
  from assms have n: "0 < ?n" and rs: "recs lb = lastn ?n h"
    and d: "lb_dropped lb = int (length h) - int (length (recs lb))"
    by (simp_all add: lb_view_def)
  show ?thesis
  proof (cases "?n \<le> length h")
    case True
    then have "length (recs lb) = ?n" by (simp add: rs)
    moreover from this n have "tl (recs lb @ [r]) = lastn ?n (h @ [r])"
      using True by (simp add: rs lastn_drop Suc_diff_le drop_Suc drop_tl)
    ultimately show ?thesis
      using n d True by (simp add: lb_view_def lb_push_def Let_def)
  next
    case False
    then have "recs lb = h" by (simp add: rs lastn_def)
    with False n d show ?thesis
      by (auto simp: lb_view_def lb_push_def Let_def lastn_def)
  qed
qed

subsection \<open>What a sequence of writes does\<close>

definition strip_cr :: "bytes \<Rightarrow> bytes" where
  "strip_cr p = filter (\<lambda>c. c \<noteq> CR) p"

definition unlines :: "line_rec list \<Rightarrow> bytes" where
  "unlines rs = concat (map (\<lambda>r. Line r @ [LF]) rs)"

lemma unlines_simps [simp]:
  "unlines [] = []" "unlines (r # rs) = Line r @ LF # unlines rs"
  "unlines (rs @ rs') = unlines rs @ unlines rs'"
  by (simp_all add: unlines_def)

lemma strip_cr_simps [simp]:
  "strip_cr [] = []" "strip_cr (p @ q) = strip_cr p @ strip_cr q"
  by (simp_all add: strip_cr_def)

text \<open>
  The invariant of a stream fed with the bytes \<open>p\<close>: the records and the pending line
  spell \<open>p\<close> without its carriage returns, line by line.
\<close>

definition lb_stream :: "bytes \<Rightarrow> line_rec list \<Rightarrow> line_buffer \<Rightarrow> bool" where
  "lb_stream p h lb \<longleftrightarrow> lb_view h lb \<and> unlines h @ cur lb = strip_cr p \<and>
     LF \<notin> set (cur lb) \<and> (\<forall>r \<in> set h. LF \<notin> set (Line r))"

lemma lb_stream_byte:
  assumes "lb_stream p h lb" "lb_byte b (lb, seq) = (rs, (lb', seq'))"
  shows "lb_stream (p @ [b]) (h @ rs) lb'" "lb_max lb' = lb_max lb"
  using assms
  by (auto simp: lb_stream_def lb_byte_def lb_complete_def strip_cr_def CR_def LF_def
      lb_view_push Let_def split: if_splits prod.splits)

lemma lb_bytes_Cons_split:
  assumes "lb_bytes (b # bs) s = (rs, s')"
  obtains rs1 s1 rs2 where "lb_byte b s = (rs1, s1)" "lb_bytes bs s1 = (rs2, s')" "rs = rs1 @ rs2"
  using assms by (auto simp: Let_def split: prod.splits)

lemma upto_append: "(i :: int) - 1 \<le> j \<Longrightarrow> j \<le> k \<Longrightarrow> [i..j] @ [j + 1..k] = [i..k]"
  using upto_split1 [of i "j + 1" k] by (cases "j < k") simp_all

text \<open>Every operation numbers its records consecutively from the counter.\<close>

lemma lb_byte_seq:
  "lb_byte b (lb, seq) = (rs, (lb', seq')) \<Longrightarrow> seq \<le> seq' \<and> map Seq rs = [seq + 1..seq']"
  by (auto simp: lb_byte_def lb_complete_def Let_def split: if_splits prod.splits)

lemma lb_bytes_stream:
  assumes "lb_bytes bs (lb, seq) = (rs, (lb', seq'))" "lb_stream p h lb"
  shows "lb_stream (p @ bs) (h @ rs) lb' \<and> seq \<le> seq' \<and> map Seq rs = [seq + 1..seq'] \<and>
    lb_max lb' = lb_max lb"
  using assms
proof (induction bs arbitrary: lb seq rs p h)
  case (Cons b bs)
  from Cons.prems(1) obtain rs1 lb1 seq1 rs2 where
    one: "lb_byte b (lb, seq) = (rs1, (lb1, seq1))" and
    two: "lb_bytes bs (lb1, seq1) = (rs2, (lb', seq'))" and rs: "rs = rs1 @ rs2"
    by (metis lb_bytes_Cons_split surj_pair)
  note st = lb_stream_byte [OF Cons.prems(2) one]
  from Cons.IH [OF two st(1)] lb_byte_seq [OF one] st(2) show ?case
    by (simp add: rs upto_append)
qed simp

lemma lb_writes_stream:
  assumes "lb_writes ps (lb, seq) = (rs, (lb', seq'))" "lb_stream p h lb"
  shows "lb_stream (p @ concat ps) (h @ rs) lb' \<and> seq \<le> seq' \<and> map Seq rs = [seq + 1..seq'] \<and>
    lb_max lb' = lb_max lb"
  using assms
proof (induction ps arbitrary: lb seq rs p h)
  case (Cons q ps)
  from Cons.prems(1) obtain rs1 lb1 seq1 rs2 where
    one: "lb_bytes q (lb, seq) = (rs1, (lb1, seq1))" and
    two: "lb_writes ps (lb1, seq1) = (rs2, (lb', seq'))" and rs: "rs = rs1 @ rs2"
    by (auto simp: lb_Write_def Let_def split: prod.splits)
  note st = lb_bytes_stream [OF one Cons.prems(2)]
  from Cons.IH [OF two, of "p @ q" "h @ rs1"] st show ?case
    by (simp add: rs upto_append)
qed simp

lemma lb_stream_new: "lb_stream [] [] (NewLineBuffer m)"
  by (simp add: lb_stream_def lb_view_new) (simp add: NewLineBuffer_def)

lemma lb_flush_stream:
  assumes "lb_FlushLine (lb, seq) = (r, (lb', seq'))" "lb_stream p h lb"
  shows "case r of
      None \<Rightarrow> cur lb = '''' \<and> lb' = lb \<and> seq' = seq
    | Some x \<Rightarrow> cur lb \<noteq> '''' \<and> x = LineRec (seq + 1) (cur lb) \<and> cur lb' = '''' \<and> seq' = seq + 1 \<and>
        lb_view (h @ [x]) lb' \<and> unlines (h @ [x]) = strip_cr p @ [LF]"
  using assms
  by (auto simp: lb_FlushLine_def lb_complete_def Let_def lb_stream_def lb_view_push
      split: if_splits)

text \<open>How the bytes are cut into writes makes no difference.\<close>

lemma lb_bytes_append:
  "lb_bytes (p @ q) s =
     (let (rs, s1) = lb_bytes p s; (rs', s2) = lb_bytes q s1 in (rs @ rs', s2))"
  by (induction p arbitrary: s) (auto simp: Let_def split: prod.splits)

lemma lb_writes_concat: "lb_writes ps s = lb_bytes (concat ps) s"
  by (induction ps arbitrary: s) (auto simp: lb_bytes_append lb_Write_def Let_def split: prod.splits)

lemma lb_Tail_view:
  "lb_view h lb \<Longrightarrow> int n \<le> lb_max lb \<Longrightarrow>
   lb_Tail n lb = join_with [LF] (lastn n (map Line h @ (if cur lb = '''' then [] else [cur lb])))"
  by (simp add: lb_Tail_def lb_view_def Let_def map_lastn lastn_append_lastn
      lastn_append_lastn [where ys = "[]", simplified])

subsection \<open>A reference reading of a text\<close>

text \<open>The lines of a text: cut at every line feed, an unterminated last piece included.\<close>

function (sequential) text_lines :: "bytes \<Rightarrow> string list" where
  "text_lines [] = []"
| "text_lines (c # cs) =
     takeWhile (\<lambda>b. b \<noteq> LF) (c # cs) # text_lines (drop 1 (dropWhile (\<lambda>b. b \<noteq> LF) (c # cs)))"
  by pat_completeness auto
termination
proof (relation "measure length")
  fix c cs
  have "length (drop 1 (dropWhile (\<lambda>b. b \<noteq> LF) (c # cs))) < length (c # cs)"
    using length_dropWhile_le [of "\<lambda>b. b \<noteq> LF" "c # cs"] by simp
  then show "(drop 1 (dropWhile (\<lambda>b. b \<noteq> LF) (c # cs)), c # cs) \<in> measure length" by simp
qed simp

lemma text_lines_step: "LF \<notin> set l \<Longrightarrow> text_lines (l @ LF # s) = l # text_lines s"
proof (cases "l @ LF # s")
  case (Cons c cs)
  assume l: "LF \<notin> set l"
  then have "takeWhile (\<lambda>b. b \<noteq> LF) (l @ LF # s) = l" "dropWhile (\<lambda>b. b \<noteq> LF) (l @ LF # s) = LF # s"
    by (induction l) auto
  with text_lines.simps(2) [of c cs, folded Cons] show ?thesis by simp
qed simp

lemma text_lines_last: "LF \<notin> set l \<Longrightarrow> text_lines l = (if l = [] then [] else [l])"
proof (cases l)
  case (Cons c cs)
  assume "LF \<notin> set l"
  then have "takeWhile (\<lambda>b. b \<noteq> LF) l = l" "dropWhile (\<lambda>b. b \<noteq> LF) l = []"
    by (auto simp: takeWhile_eq_all_conv dropWhile_eq_Nil_conv)
  with text_lines.simps(2) [of c cs, folded Cons] show ?thesis by (simp add: Cons)
qed simp

lemma text_lines_unlines:
  "\<forall>r \<in> set h. LF \<notin> set (Line r) \<Longrightarrow> LF \<notin> set l \<Longrightarrow>
   text_lines (unlines h @ l) = map Line h @ (if l = [] then [] else [l])"
  by (induction h) (simp_all add: text_lines_step text_lines_last)

lemma lb_stream_lines:
  "lb_stream p h lb \<Longrightarrow>
   text_lines (strip_cr p) = map Line h @ (if cur lb = '''' then [] else [cur lb])"
  using text_lines_unlines [of h "cur lb"] by (simp add: lb_stream_def)

lemma lb_writes_new:
  assumes "lb_writes ps (NewLineBuffer m, seq) = (rs, (lb, seq'))"
  shows "lb_stream (concat ps) rs lb" "map Seq rs = [seq + 1..seq']" "seq \<le> seq'"
    "lb_max lb = (if m \<le> 0 then 10000 else m)"
  using lb_writes_stream [OF assms lb_stream_new] by (simp_all add: NewLineBuffer_def)

subsection \<open>Properties\<close>

text \<open>
  C13. A stream's records are the lines of its bytes. However the output is cut into writes,
  the completed lines followed by the pending one spell the bytes without their carriage
  returns; no line contains a line feed; the sequence numbers are consecutive; the ring
  holds exactly the last lines up to its bound and the dropped counter counts the others;
  and one write of all the bytes gives the same records and the same buffer.
\<close>

theorem output_spells_the_stream:
  "let (rs, (lb, seq')) = lb_writes ps (NewLineBuffer m, seq) in
     unlines rs @ cur lb = strip_cr (concat ps) \<and> LF \<notin> set (cur lb) \<and>
     list_all (\<lambda>r. LF \<notin> set (Line r)) rs \<and> map Seq rs = [seq + 1..seq'] \<and>
     lb_max lb = (if m \<le> 0 then 10000 else m) \<and>
     lb_Recs lb = lastn (nat (lb_max lb)) rs \<and>
     lb_Dropped lb = int (length rs) - int (length (lb_Recs lb)) \<and>
     lb_Write (concat ps) (NewLineBuffer m, seq) = ((int (length (concat ps)), rs), (lb, seq'))"
proof -
  obtain rs lb seq' where run: "lb_writes ps (NewLineBuffer m, seq) = (rs, (lb, seq'))"
    by (metis surj_pair)
  from run have "lb_bytes (concat ps) (NewLineBuffer m, seq) = (rs, (lb, seq'))"
    by (simp add: lb_writes_concat)
  with run lb_writes_new [OF run] show ?thesis
    by (simp add: lb_stream_def lb_view_def lb_Recs_def lb_Dropped_def lb_Write_def list_all_iff)
qed

text \<open>
  C36. Writing then flushing implements line splitting. The records of a job's stream, the
  one \<open>FlushLine\<close> promotes included, carry exactly the lines of the output text, and
  the flush leaves nothing pending.
\<close>

theorem flushed_output_is_text_lines:
  "let (rs, s) = lb_writes ps (NewLineBuffer m, seq); (r, s') = lb_FlushLine s in
     map Line (rs @ (case r of None \<Rightarrow> [] | Some x \<Rightarrow> [x])) = text_lines (strip_cr (concat ps)) \<and>
     cur (fst s') = '''' \<and> snd s' = snd s + (case r of None \<Rightarrow> 0 | Some x \<Rightarrow> 1)"
proof -
  obtain rs lb seq' where run: "lb_writes ps (NewLineBuffer m, seq) = (rs, (lb, seq'))"
    by (metis surj_pair)
  obtain r lb' seq'' where fl: "lb_FlushLine (lb, seq') = (r, (lb', seq''))" by (metis surj_pair)
  note st = lb_writes_new(1) [OF run]
  from lb_flush_stream [OF fl st] lb_stream_lines [OF st] show ?thesis
    by (auto simp: run fl split: option.splits)
qed

text \<open>
  \<open>Tail\<close> shows the end of the output: its result is the last \<open>n\<close> lines of the text
  written so far, a partial one included, as long as \<open>n\<close> does not exceed the ring.
\<close>

theorem tail_shows_the_last_lines:
  assumes "lb_writes ps (NewLineBuffer m, seq) = (rs, (lb, seq'))" and "int n \<le> lb_max lb"
  shows "lb_Tail n lb = join_with [LF] (lastn n (text_lines (strip_cr (concat ps))))"
  using lb_Tail_view [OF _ assms(2)] lb_writes_new(1) [OF assms(1)]
    lb_stream_lines [OF lb_writes_new(1) [OF assms(1)]]
  by (simp add: lb_stream_def)

theorem tail_shows_the_last_lines_witness:
  "lb_Tail 2 (fst (snd (lb_writes [''a'' @ [LF], ''b'' @ [CR, LF] @ ''c''] (NewLineBuffer 2, 0)))) =
     ''b'' @ [LF] @ ''c''"
proof -
  let ?ps = "[''a'' @ [LF], ''b'' @ [CR, LF] @ ''c'']"
  obtain rs lb seq' where run: "lb_writes ?ps (NewLineBuffer 2, 0) = (rs, (lb, seq'))"
    by (metis surj_pair)
  have "text_lines (strip_cr (concat ?ps)) = [''a'', ''b'', ''c'']"
    by (simp add: strip_cr_def CR_def LF_def)
  with tail_shows_the_last_lines [OF run, of 2] lb_writes_new(4) [OF run] show ?thesis
    unfolding run snd_conv fst_conv by (simp add: lastn_def)
qed

end
