(* ===== verification/Store.thy ===== *)
theory Store
  imports LineBuffer
begin

text \<open>
  The job store, \<open>internal/jobsvc/store.go\<close>. The two sqlite tables are lists of records
  with a primary key, and each SQL statement of the source is one function on them. The
  channel is a list (its head is received next), the single writer goroutine is a step
  function: \<open>select\<close> may take any of its ready cases, so the case taken is an argument,
  and so are the outcomes of the database calls.
\<close>

subsection \<open>Tables and SQL statements\<close>

datatype job_state = StateRunning | StateDone | StateKilled | StateFailed

fun state_text :: "job_state \<Rightarrow> string" where
  "state_text StateRunning = ''running''"
| "state_text StateDone = ''done''"
| "state_text StateKilled = ''killed''"
| "state_text StateFailed = ''failed''"

definition StreamStdout :: int where "StreamStdout = 0"
definition StreamStderr :: int where "StreamStderr = 1"
definition writeBatchLen :: nat where "writeBatchLen = 500"
definition channelCap :: nat where "channelCap = 65536"

record job_row =
  row_ID :: string
  row_Command :: string
  row_State :: job_state
  row_ExitCode :: int
  row_StartedAt :: int
  row_FinishedAt :: int

record store_line =
  sl_jobID :: string
  sl_seq :: int
  sl_stream :: int
  sl_line :: string

datatype store_rec =
    RecLine store_line
  | RecFinish string job_state int int

record database =
  db_jobs :: "job_row list"
  db_lines :: "store_line list"

definition empty_db :: database where
  "empty_db = \<lparr>db_jobs = [], db_lines = []\<rparr>"

definition line_key :: "store_line \<Rightarrow> string \<times> int" where
  "line_key l = (sl_jobID l, sl_seq l)"

text \<open>\<open>INSERT OR REPLACE INTO job_lines\<close>: the primary key is \<open>(job_id, seq)\<close>.\<close>

definition sql_insert_line :: "store_line \<Rightarrow> database \<Rightarrow> database" where
  "sql_insert_line l d =
     d\<lparr>db_lines := filter (\<lambda>l'. line_key l' \<noteq> line_key l) (db_lines d) @ [l]\<rparr>"

text \<open>\<open>INSERT OR REPLACE INTO jobs (\<dots>) VALUES (?,?,?,?,?,0)\<close>.\<close>

definition sql_insert_job :: "string \<Rightarrow> string \<Rightarrow> int \<Rightarrow> database \<Rightarrow> database" where
  "sql_insert_job i command startedAt d =
     d\<lparr>db_jobs := filter (\<lambda>r. row_ID r \<noteq> i) (db_jobs d) @
        [\<lparr>row_ID = i, row_Command = command, row_State = StateRunning, row_ExitCode = 0,
          row_StartedAt = startedAt, row_FinishedAt = 0\<rparr>]\<rparr>"

text \<open>\<open>UPDATE jobs SET state=?, exit_code=?, finished_at=? WHERE id=?\<close>.\<close>

definition sql_finish_job :: "string \<Rightarrow> job_state \<Rightarrow> int \<Rightarrow> int \<Rightarrow> database \<Rightarrow> database" where
  "sql_finish_job i s x t d =
     d\<lparr>db_jobs := map (\<lambda>r. if row_ID r = i
        then r\<lparr>row_State := s, row_ExitCode := x, row_FinishedAt := t\<rparr> else r) (db_jobs d)\<rparr>"

text \<open>\<open>UPDATE jobs SET state='failed', exit_code=137, finished_at=? WHERE state='running'\<close>.\<close>

definition sql_recover :: "int \<Rightarrow> database \<Rightarrow> database" where
  "sql_recover now d =
     d\<lparr>db_jobs := map (\<lambda>r. if row_State r = StateRunning
        then r\<lparr>row_State := StateFailed, row_ExitCode := 137, row_FinishedAt := now\<rparr> else r)
        (db_jobs d)\<rparr>"

definition sql_limit :: "int \<Rightarrow> 'a list \<Rightarrow> 'a list" where
  "sql_limit n xs = (if n < 0 then xs else take (nat n) xs)"

text \<open>
  \<open>ORDER BY started_at DESC\<close> leaves the order of equal keys open, so the ordering is a
  parameter; what SQL promises of it is \<open>newest_first\<close>.
\<close>

definition newest_first :: "(job_row list \<Rightarrow> job_row list) \<Rightarrow> bool" where
  "newest_first ord \<longleftrightarrow> (\<forall>xs. mset (ord xs) = mset xs \<and>
     sorted_wrt (\<lambda>a b. row_StartedAt a \<ge> row_StartedAt b) (ord xs))"

definition stream_matches :: "int \<Rightarrow> store_line \<Rightarrow> bool" where
  "stream_matches st l \<longleftrightarrow> (if st \<ge> 0 then sl_stream l = st else True)"

definition rec_of_line :: "store_line \<Rightarrow> line_rec" where
  "rec_of_line l = LineRec (sl_seq l) (sl_line l)"

text \<open>\<open>SELECT seq, line FROM job_lines WHERE job_id=? [AND stream=?] ORDER BY seq\<close>.\<close>

definition sql_query_lines :: "string \<Rightarrow> int \<Rightarrow> database \<Rightarrow> line_rec list" where
  "sql_query_lines i st d =
     map rec_of_line (sort_key sl_seq
       (filter (\<lambda>l. sl_jobID l = i \<and> stream_matches st l) (db_lines d)))"

subsection \<open>The store\<close>

record store =
  db :: database
  ch :: "store_rec list"
  batch :: "store_line list"
  dropped :: int
  done_closed :: bool
  stopped :: bool

definition new_store :: "database \<Rightarrow> store" where
  "new_store d = \<lparr>db = d, ch = [], batch = [], dropped = 0, done_closed = False, stopped = False\<rparr>"

datatype open_error = ErrMkdir | ErrOpen | ErrMigrate | ErrRecover

record open_env =
  oe_mkdir :: bool
  oe_open :: bool
  oe_migrate :: bool
  oe_recover :: bool

text \<open>\<open>CREATE TABLE IF NOT EXISTS\<close>: a new file (\<open>None\<close>) gets empty tables.\<close>

definition migrate :: "database option \<Rightarrow> database" where
  "migrate f = (case f of None \<Rightarrow> empty_db | Some d \<Rightarrow> d)"

definition recover :: "int \<Rightarrow> database \<Rightarrow> database" where
  "recover now d = sql_recover now d"

definition OpenStore :: "open_env \<Rightarrow> database option \<Rightarrow> int \<Rightarrow> open_error + store" where
  "OpenStore env f now =
     (if \<not> oe_mkdir env then Inl ErrMkdir
      else if \<not> oe_open env then Inl ErrOpen
      else if \<not> oe_migrate env then Inl ErrMigrate
      else if \<not> oe_recover env then Inl ErrRecover
      else Inr (new_store (recover now (migrate f))))"

text \<open>
  The outcomes of the calls of one \<open>flush\<close>: \<open>insert_stop\<close> is the index of the first
  failing insert, if any.
\<close>

record flush_env =
  begin_ok :: bool
  prepare_ok :: bool
  insert_stop :: "nat option"
  commit_ok :: bool

definition flush :: "flush_env \<Rightarrow> store \<Rightarrow> store" where
  "flush env s =
     (if length (batch s) = 0 then s
      else if \<not> begin_ok env then s\<lparr>batch := []\<rparr>
      else if \<not> prepare_ok env then s\<lparr>batch := []\<rparr>
      else let rows = (case insert_stop env of None \<Rightarrow> batch s | Some k \<Rightarrow> take k (batch s));
               d = fold sql_insert_line rows (db s)
           in s\<lparr>db := (if commit_ok env then d else db s), batch := []\<rparr>)"

datatype writer_case =
    CaseRecv flush_env bool
  | CaseTick flush_env
  | CaseDone flush_env

text \<open>One iteration of the writer's loop; \<open>None\<close> when that case is not ready.\<close>

fun writer_step :: "writer_case \<Rightarrow> store \<Rightarrow> store option" where
  "writer_step (CaseRecv env exec_ok) s =
     (if stopped s then None
      else case ch s of
        [] \<Rightarrow> None
      | RecLine v # rest \<Rightarrow>
          let s1 = s\<lparr>ch := rest, batch := batch s @ [v]\<rparr>
          in Some (if length (batch s1) \<ge> writeBatchLen then flush env s1 else s1)
      | RecFinish i st x t # rest \<Rightarrow>
          let s1 = flush env (s\<lparr>ch := rest\<rparr>)
          in Some (if exec_ok then s1\<lparr>db := sql_finish_job i st x t (db s1)\<rparr> else s1))"
| "writer_step (CaseTick env) s = (if stopped s then None else Some (flush env s))"
| "writer_step (CaseDone env) s =
     (if stopped s \<or> \<not> done_closed s then None else Some ((flush env s)\<lparr>stopped := True\<rparr>))"

definition EnqueueJob :: "bool \<Rightarrow> string \<Rightarrow> string \<Rightarrow> int \<Rightarrow> store \<Rightarrow> bool \<times> store" where
  "EnqueueJob exec_ok i command startedAt s =
     (if exec_ok then (True, s\<lparr>db := sql_insert_job i command startedAt (db s)\<rparr>) else (False, s))"

definition TryEnqueueLine :: "string \<Rightarrow> int \<Rightarrow> int \<Rightarrow> string \<Rightarrow> store \<Rightarrow> store" where
  "TryEnqueueLine i sq st ln s =
     (if length (ch s) < channelCap
      then s\<lparr>ch := ch s @ [RecLine \<lparr>sl_jobID = i, sl_seq = sq, sl_stream = st, sl_line = ln\<rparr>]\<rparr>
      else s\<lparr>dropped := dropped s + 1\<rparr>)"

definition FinishJob :: "string \<Rightarrow> job_state \<Rightarrow> int \<Rightarrow> int \<Rightarrow> store \<Rightarrow> store" where
  "FinishJob i st x t s =
     (if length (ch s) < channelCap then s\<lparr>ch := ch s @ [RecFinish i st x t]\<rparr> else s)"

definition QueryJob :: "bool \<Rightarrow> string \<Rightarrow> store \<Rightarrow> unit + job_row option" where
  "QueryJob ok i s =
     (if ok then Inr (find (\<lambda>r. row_ID r = i) (db_jobs (db s))) else Inl ())"

definition QueryJobs ::
  "(job_row list \<Rightarrow> job_row list) \<Rightarrow> bool \<Rightarrow> int \<Rightarrow> store \<Rightarrow> unit + job_row list" where
  "QueryJobs ord ok limit s =
     (if ok then Inr (sql_limit limit (ord (db_jobs (db s)))) else Inl ())"

definition QueryLines :: "bool \<Rightarrow> string \<Rightarrow> int \<Rightarrow> store \<Rightarrow> unit + (line_rec list \<times> int)" where
  "QueryLines ok i st s =
     (if ok then (let out = sql_query_lines i st (db s) in Inr (out, int (length out))) else Inl ())"

text \<open>\<open>SELECT COALESCE(MAX(seq),0)\<close>.\<close>

definition MaxSeq :: "bool \<Rightarrow> string \<Rightarrow> int \<Rightarrow> store \<Rightarrow> unit + int" where
  "MaxSeq ok i st s =
     (if ok then
        (let ks = map sl_seq (filter (\<lambda>l. sl_jobID l = i \<and> stream_matches st l) (db_lines (db s)))
         in Inr (case ks of [] \<Rightarrow> 0 | k # ks' \<Rightarrow> fold max ks' k))
      else Inl ())"

text \<open>
  \<open>Retention\<close> deletes the finished rows past the cutoff, then the lines of jobs that have
  no row. An error of either statement, or of the commit, leaves the tables unchanged; the
  count was taken before the commit.
\<close>

definition expired :: "int \<Rightarrow> job_row \<Rightarrow> bool" where
  "expired cutoff r \<longleftrightarrow>
     row_State r \<noteq> StateRunning \<and> row_FinishedAt r > 0 \<and> row_FinishedAt r < cutoff"

definition sql_retention :: "int \<Rightarrow> database \<Rightarrow> database" where
  "sql_retention cutoff d =
     (let js = filter (\<lambda>r. \<not> expired cutoff r) (db_jobs d)
      in \<lparr>db_jobs = js, db_lines = filter (\<lambda>l. sl_jobID l \<in> set (map row_ID js)) (db_lines d)\<rparr>)"

record retention_env =
  re_begin :: bool
  re_jobs :: bool
  re_lines :: bool
  re_commit :: bool

definition Retention :: "retention_env \<Rightarrow> int \<Rightarrow> int \<Rightarrow> store \<Rightarrow> int \<times> store" where
  "Retention env hours now s =
     (let cutoff = now - hours * 3600000 in
      if \<not> re_begin env then (0, s)
      else if \<not> re_jobs env then (0, s)
      else if \<not> re_lines env then (0, s)
      else (int (length (filter (expired cutoff) (db_jobs (db s)))),
            if re_commit env then s\<lparr>db := sql_retention cutoff (db s)\<rparr> else s))"

text \<open>\<open>Close\<close> closes \<open>done\<close>, which makes the writer's last case ready.\<close>

definition CloseStore :: "store \<Rightarrow> store" where
  "CloseStore s = s\<lparr>done_closed := True\<rparr>"

subsection \<open>The tables keep their keys\<close>

definition db_inv :: "database \<Rightarrow> bool" where
  "db_inv d \<longleftrightarrow> distinct (map row_ID (db_jobs d)) \<and> distinct (map line_key (db_lines d))"

lemma db_inv_empty [inv_intros]: "db_inv empty_db"
  by (simp add: db_inv_def empty_db_def)

lemma map_filter_neq: "distinct (map f (filter P xs) @ [k]) \<longleftrightarrow>
    distinct (map f (filter P xs)) \<and> (\<forall>x \<in> set xs. P x \<longrightarrow> f x \<noteq> k)"
  by auto

lemma db_inv_insert_line [inv_intros]: "db_inv d \<Longrightarrow> db_inv (sql_insert_line l d)"
  by (auto simp: db_inv_def sql_insert_line_def distinct_map_filter)

lemma db_inv_insert_job [inv_intros]: "db_inv d \<Longrightarrow> db_inv (sql_insert_job i c t d)"
  by (auto simp: db_inv_def sql_insert_job_def distinct_map_filter)

lemma row_ID_update:
  "map row_ID (map (\<lambda>r. if P r then r\<lparr>row_State := s, row_ExitCode := x, row_FinishedAt := t\<rparr> else r) js)
     = map row_ID js"
  by (induction js) auto

lemma db_inv_finish [inv_intros]: "db_inv d \<Longrightarrow> db_inv (sql_finish_job i s x t d)"
  by (simp add: db_inv_def sql_finish_job_def row_ID_update del: map_map)

lemma db_inv_recover [inv_intros]: "db_inv d \<Longrightarrow> db_inv (sql_recover now d)"
  by (simp add: db_inv_def sql_recover_def row_ID_update del: map_map)

lemma db_inv_retention [inv_intros]: "db_inv d \<Longrightarrow> db_inv (sql_retention c d)"
  by (simp add: db_inv_def sql_retention_def Let_def distinct_map_filter)

lemma db_inv_fold [inv_intros]: "db_inv d \<Longrightarrow> db_inv (fold sql_insert_line ls d)"
  by (induction ls arbitrary: d) (auto intro: db_inv_insert_line)

subsection \<open>Asynchronous commits in order\<close>

text \<open>The effect of one record, and the records a store still owes the database.\<close>

fun apply_rec :: "store_rec \<Rightarrow> database \<Rightarrow> database" where
  "apply_rec (RecLine l) d = sql_insert_line l d"
| "apply_rec (RecFinish i s x t) d = sql_finish_job i s x t d"

definition owed :: "store \<Rightarrow> store_rec list" where
  "owed s = map RecLine (batch s) @ ch s"

text \<open>
  A writer that accepts records and commits them later: it may refuse a record, and each
  of its steps commits some of the records at the front of what it owes.
\<close>

datatype ('r, 'e) queue_op = QAccept 'r | QStep 'e

fun queue_run ::
  "('r \<Rightarrow> 's \<Rightarrow> 's option) \<Rightarrow> ('e \<Rightarrow> 's \<Rightarrow> 's option) \<Rightarrow> ('r, 'e) queue_op list \<Rightarrow> 's
     \<Rightarrow> 'r list \<times> 's" where
  "queue_run acc stp [] s = ([], s)"
| "queue_run acc stp (QAccept r # xs) s =
     (case acc r s of
        None \<Rightarrow> queue_run acc stp xs s
      | Some s1 \<Rightarrow> (let (rs, s2) = queue_run acc stp xs s1 in (r # rs, s2)))"
| "queue_run acc stp (QStep e # xs) s =
     (case stp e s of
        None \<Rightarrow> queue_run acc stp xs s
      | Some s1 \<Rightarrow> queue_run acc stp xs s1)"

locale queued_writer =
  fixes eff :: "'r \<Rightarrow> 'd \<Rightarrow> 'd"
    and committed :: "'s \<Rightarrow> 'd"
    and pending :: "'s \<Rightarrow> 'r list"
    and acc :: "'r \<Rightarrow> 's \<Rightarrow> 's option"
    and stp :: "'e \<Rightarrow> 's \<Rightarrow> 's option"
    and good :: "'e \<Rightarrow> bool"
  assumes accept_law:
      "acc r s = Some s' \<Longrightarrow> committed s' = committed s \<and> pending s' = pending s @ [r]"
    and step_law:
      "good e \<Longrightarrow> stp e s = Some s' \<Longrightarrow>
       \<exists>k. committed s' = fold eff (take k (pending s)) (committed s) \<and>
           pending s' = drop k (pending s)"
begin

fun good_op :: "('r, 'e) queue_op \<Rightarrow> bool" where
  "good_op (QAccept r) = True"
| "good_op (QStep e) = good e"

text \<open>Committing some of the records owed, then some of those left, commits a longer prefix.\<close>

lemma commit_then:
  assumes "committed s1 = fold eff (take k ps) (committed s)" "pending s1 = drop k ps"
    and "committed s' = fold eff (take m (pending s1 @ rs)) (committed s1)"
    and "pending s' = drop m (pending s1 @ rs)"
  shows "\<exists>j. committed s' = fold eff (take j (ps @ rs)) (committed s) \<and> pending s' = drop j (ps @ rs)"
proof -
  define n where "n = min k (length ps)"
  have n: "take k ps = take n (ps @ rs)" "drop k ps @ rs = drop n (ps @ rs)"
    by (simp_all add: n_def min_def)
  have "take (n + m) (ps @ rs) = take n (ps @ rs) @ take m (drop n (ps @ rs))" by (rule take_add)
  moreover have "drop (n + m) (ps @ rs) = drop m (drop n (ps @ rs))"
    by (simp only: drop_drop add.commute)
  ultimately show ?thesis
    using assms by (intro exI [of _ "n + m"]) (simp only: n fold_append comp_apply)
qed

text \<open>
  At any moment the database is the result of a prefix of everything owed at the start and
  accepted since, and the rest is still owed, in order.
\<close>

lemma prefix_commit:
  assumes "queue_run acc stp xs s = (rs, s')" "list_all good_op xs"
  shows "\<exists>k. committed s' = fold eff (take k (pending s @ rs)) (committed s) \<and>
    pending s' = drop k (pending s @ rs)"
  using assms
proof (induction xs arbitrary: s rs)
  case Nil
  then show ?case by (intro exI [of _ 0]) simp
next
  case (Cons x xs)
  consider (accepted) r s1 rs1 where "acc r s = Some s1" "queue_run acc stp xs s1 = (rs1, s')"
      "rs = r # rs1"
    | (idle) "queue_run acc stp xs s = (rs, s')"
    | (stepped) e s1 where "good e" "stp e s = Some s1" "queue_run acc stp xs s1 = (rs, s')"
    using Cons.prems by (cases x) (auto split: option.splits prod.splits simp: Let_def)
  then show ?case
  proof cases
    case accepted
    with Cons.IH [OF accepted(2)] Cons.prems(2) accept_law [OF accepted(1)] show ?thesis by simp
  next
    case idle
    with Cons show ?thesis by simp
  next
    case stepped
    from step_law [OF stepped(1,2)] obtain k where
      k: "committed s1 = fold eff (take k (pending s)) (committed s)" "pending s1 = drop k (pending s)"
      by blast
    from Cons.IH [OF stepped(3)] Cons.prems(2) obtain m where
      "committed s' = fold eff (take m (pending s1 @ rs)) (committed s1)"
      "pending s' = drop m (pending s1 @ rs)" by auto
    with k show ?thesis by (rule commit_then)
  qed
qed

text \<open>Nothing owed at the end: everything accepted is committed, in order.\<close>

lemma drained_commit:
  assumes "queue_run acc stp xs s = (rs, s')" "list_all good_op xs" "pending s' = []"
  shows "committed s' = fold eff (pending s @ rs) (committed s)"
  using prefix_commit [OF assms(1,2)] assms(3) by auto

text \<open>
  The synchronous reading of an asynchronous writer: committing what is owed gives the
  same database before and after every good step, and one record more after an accept.
\<close>

definition settled :: "'s \<Rightarrow> 'd" where
  "settled s = fold eff (pending s) (committed s)"

lemma settled_accept: "acc r s = Some s' \<Longrightarrow> settled s' = eff r (settled s)"
  using accept_law by (simp add: settled_def)

lemma settled_step: "good e \<Longrightarrow> stp e s = Some s' \<Longrightarrow> settled s' = settled s"
proof -
  assume "good e" "stp e s = Some s'"
  then obtain k where "committed s' = fold eff (take k (pending s)) (committed s)"
    "pending s' = drop k (pending s)" using step_law by blast
  then have "settled s' = fold eff (take k (pending s) @ drop k (pending s)) (committed s)"
    by (simp add: settled_def del: append_take_drop_id)
  then show ?thesis by (simp add: settled_def)
qed

end

subsection \<open>The writer goroutine is a queued writer\<close>

definition flush_good :: "flush_env \<Rightarrow> bool" where
  "flush_good env \<longleftrightarrow> begin_ok env \<and> prepare_ok env \<and> insert_stop env = None \<and> commit_ok env"

fun case_good :: "writer_case \<Rightarrow> bool" where
  "case_good (CaseRecv env ok) = (flush_good env \<and> ok)"
| "case_good (CaseTick env) = flush_good env"
| "case_good (CaseDone env) = flush_good env"

text \<open>Offering a record to the channel: \<open>None\<close> is the \<open>default\<close> case, a drop.\<close>

definition offer :: "store_rec \<Rightarrow> store \<Rightarrow> store option" where
  "offer r s = (if length (ch s) < channelCap then Some (s\<lparr>ch := ch s @ [r]\<rparr>) else None)"

lemma TryEnqueueLine_offer:
  "TryEnqueueLine i sq st ln s =
     (case offer (RecLine \<lparr>sl_jobID = i, sl_seq = sq, sl_stream = st, sl_line = ln\<rparr>) s of
        None \<Rightarrow> s\<lparr>dropped := dropped s + 1\<rparr> | Some s' \<Rightarrow> s')"
  by (simp add: TryEnqueueLine_def offer_def)

lemma FinishJob_offer:
  "FinishJob i st x t s = (case offer (RecFinish i st x t) s of None \<Rightarrow> s | Some s' \<Rightarrow> s')"
  by (simp add: FinishJob_def offer_def)

lemma fold_RecLine: "fold apply_rec (map RecLine ls) d = fold sql_insert_line ls d"
  by (induction ls arbitrary: d) simp_all

lemma flush_good_commit:
  "flush_good env \<Longrightarrow> db (flush env s) = fold apply_rec (map RecLine (batch s)) (db s) \<and>
     batch (flush env s) = [] \<and> ch (flush env s) = ch s"
  by (simp add: flush_def flush_good_def fold_RecLine Let_def)

lemma writer_step_commit:
  assumes "case_good e" "writer_step e s = Some s'"
  shows "\<exists>k. db s' = fold apply_rec (take k (owed s)) (db s) \<and> owed s' = drop k (owed s)"
proof (cases e)
  case (CaseRecv env ok)
  with assms obtain r rest where c: "ch s = r # rest" "ok" "flush_good env"
    by (auto split: if_splits list.splits)
  show ?thesis
  proof (cases r)
    case (RecLine v)
    let ?s1 = "s\<lparr>ch := rest, batch := batch s @ [v]\<rparr>"
    from assms CaseRecv c RecLine have
      "s' = (if length (batch ?s1) \<ge> writeBatchLen then flush env ?s1 else ?s1)"
      by (auto simp: Let_def split: if_splits)
    moreover have "owed ?s1 = owed s" by (simp add: owed_def c RecLine)
    ultimately show ?thesis
      using flush_good_commit [OF c(3), of ?s1]
      by (cases "length (batch ?s1) \<ge> writeBatchLen")
        (auto simp: owed_def c RecLine intro: exI [of _ "Suc (length (batch s))"] exI [of _ 0])
  next
    case (RecFinish i st x t)
    with assms CaseRecv c flush_good_commit [OF c(3), of "s\<lparr>ch := rest\<rparr>"]
    show ?thesis
      by (auto simp: owed_def Let_def intro!: exI [of _ "Suc (length (batch s))"]
          split: if_splits)
  qed
next
  case (CaseTick env)
  with assms flush_good_commit [of env s] show ?thesis
    by (auto simp: owed_def intro!: exI [of _ "length (batch s)"] split: if_splits)
next
  case (CaseDone env)
  with assms flush_good_commit [of env s] show ?thesis
    by (auto simp: owed_def intro!: exI [of _ "length (batch s)"] split: if_splits)
qed

interpretation wq: queued_writer apply_rec db owed offer writer_step case_good
proof unfold_locales
  show "offer r s = Some s' \<Longrightarrow> db s' = db s \<and> owed s' = owed s @ [r]" for r s s'
    by (auto simp: offer_def owed_def split: if_splits)
qed (rule writer_step_commit)

subsection \<open>What the queries return\<close>

lemma distinct_seqs:
  "db_inv d \<Longrightarrow> distinct (map sl_seq (filter (\<lambda>l. sl_jobID l = i \<and> P l) (db_lines d)))"
  by (auto simp: db_inv_def distinct_map line_key_def inj_on_def)

lemma sorted_query_lines:
  assumes "db_inv d"
  shows "sorted_wrt (<) (map Seq (sql_query_lines i st d))"
proof -
  let ?ls = "filter (\<lambda>l. sl_jobID l = i \<and> stream_matches st l) (db_lines d)"
  have "map Seq (sql_query_lines i st d) = map sl_seq (sort_key sl_seq ?ls)"
    by (simp add: sql_query_lines_def rec_of_line_def)
  moreover have "sorted (map sl_seq (sort_key sl_seq ?ls))" by simp
  moreover have "mset (map sl_seq (sort_key sl_seq ?ls)) = mset (map sl_seq ?ls)" by simp
  then have "distinct (map sl_seq (sort_key sl_seq ?ls))"
    by (rule mset_eq_imp_distinct_iff [THEN iffD2]) (rule distinct_seqs [OF assms])
  ultimately show ?thesis by (simp add: strict_sorted_iff)
qed

lemma set_query_lines:
  "set (sql_query_lines i st d) =
     rec_of_line ` {l \<in> set (db_lines d). sl_jobID l = i \<and> stream_matches st l}"
  by (simp add: sql_query_lines_def)

lemma newest_first_sort: "newest_first (sort_key (\<lambda>r. - row_StartedAt r))"
proof -
  have "sorted_wrt (\<lambda>a b. row_StartedAt a \<ge> row_StartedAt b) (sort_key (\<lambda>r. - row_StartedAt r) xs)"
    for xs :: "job_row list"
    using sorted_sort_key [of "\<lambda>r. - row_StartedAt r" xs] by (simp add: sorted_map)
  then show ?thesis by (simp add: newest_first_def)
qed

subsection \<open>Bounds of the queue and the batch\<close>

definition store_bounds :: "store \<Rightarrow> bool" where
  "store_bounds s \<longleftrightarrow> length (ch s) \<le> channelCap \<and> length (batch s) < writeBatchLen"

lemma flush_batch [simp]: "batch (flush env s) = []" "ch (flush env s) = ch s"
  "dropped (flush env s) = dropped s" "done_closed (flush env s) = done_closed s"
  "stopped (flush env s) = stopped s"
  by (auto simp: flush_def Let_def)

lemma writer_step_bounds [inv_intros]:
  assumes "writer_step e s = Some s'" "store_bounds s"
  shows "store_bounds s'"
proof -
  have "length ([] :: store_line list) < writeBatchLen" by (simp add: writeBatchLen_def)
  then show ?thesis
    using assms
    by (cases e) (auto simp: store_bounds_def Let_def split: if_splits list.splits store_rec.splits)
qed

lemma enqueue_bounds [inv_intros]:
  "store_bounds s \<Longrightarrow> store_bounds (TryEnqueueLine i sq st ln s)"
  "store_bounds s \<Longrightarrow> store_bounds (FinishJob i fs x t s)"
  by (simp_all add: store_bounds_def TryEnqueueLine_def FinishJob_def)

end
