(* ===== verification/StoreLife.thy ===== *)
theory StoreLife
  imports Store
begin

text \<open>
  What the job store keeps over its life: the lines and the finish record of one job among
  all others, retention, closing, a queue that is full, and the restart of the worker
  (\<open>internal/jobsvc/store.go\<close>, with the operations of theory Store).
\<close>

subsection \<open>A committed finish implies committed lines\<close>

fun finishes :: "string \<Rightarrow> store_rec \<Rightarrow> bool" where
  "finishes i (RecFinish j _ _ _) = (i = j)"
| "finishes i (RecLine _) = False"

fun lines_of :: "store_rec list \<Rightarrow> store_line list" where
  "lines_of [] = []"
| "lines_of (RecLine l # rs) = l # lines_of rs"
| "lines_of (RecFinish _ _ _ _ # rs) = lines_of rs"

lemma lines_of_append [simp]: "lines_of (xs @ ys) = lines_of xs @ lines_of ys"
  by (induction xs rule: lines_of.induct) simp_all

definition job_row_of :: "string \<Rightarrow> database \<Rightarrow> job_row option" where
  "job_row_of i d = find (\<lambda>r. row_ID r = i) (db_jobs d)"

lemma find_map_same:
  "(\<And>x. P (f x) = P x) \<Longrightarrow> find P (map f xs) = map_option f (find P xs)"
  by (induction xs) simp_all

lemma job_row_insert_line [simp]: "job_row_of i (sql_insert_line l d) = job_row_of i d"
  by (simp add: job_row_of_def sql_insert_line_def)

lemma job_row_finish:
  "job_row_of i (sql_finish_job j s x t d) =
     (if i = j then map_option (\<lambda>r. r\<lparr>row_State := s, row_ExitCode := x, row_FinishedAt := t\<rparr>)
        (job_row_of i d) else job_row_of i d)"
proof -
  let ?f = "\<lambda>r. if row_ID r = j then r\<lparr>row_State := s, row_ExitCode := x, row_FinishedAt := t\<rparr> else r"
  have "job_row_of i (sql_finish_job j s x t d) = map_option ?f (job_row_of i d)"
    unfolding job_row_of_def sql_finish_job_def by (simp add: find_map_same)
  moreover have "row_ID r = i" if "job_row_of i d = Some r" for r
    using that by (auto simp: job_row_of_def find_Some_iff)
  ultimately show ?thesis by (cases "job_row_of i d") auto
qed

lemma job_row_apply_others:
  "\<not> finishes i r \<Longrightarrow> job_row_of i (apply_rec r d) = job_row_of i d"
  by (cases r) (auto simp: job_row_finish)

lemma job_row_fold_others:
  "\<forall>r \<in> set rs. \<not> finishes i r \<Longrightarrow> job_row_of i (fold apply_rec rs d) = job_row_of i d"
  by (induction rs arbitrary: d) (simp_all add: job_row_apply_others)

lemma db_lines_finish [simp]: "db_lines (sql_finish_job i s x t d) = db_lines d"
  by (simp add: sql_finish_job_def)

lemma db_lines_fold:
  "distinct (map line_key (lines_of rs)) \<Longrightarrow>
   \<forall>l \<in> set (db_lines d). line_key l \<notin> line_key ` set (lines_of rs) \<Longrightarrow>
   db_lines (fold apply_rec rs d) = db_lines d @ lines_of rs"
proof (induction rs arbitrary: d rule: lines_of.induct)
  case (2 l rs)
  have "filter (\<lambda>l'. line_key l' \<noteq> line_key l) (db_lines d) = db_lines d"
    using "2.prems"(2) by (auto simp: filter_id_conv)
  then have ins: "db_lines (sql_insert_line l d) = db_lines d @ [l]"
    by (simp add: sql_insert_line_def)
  with "2.prems" have "db_lines (fold apply_rec rs (sql_insert_line l d)) =
      db_lines (sql_insert_line l d) @ lines_of rs"
    by (intro "2.IH") auto
  then show ?case by (simp add: ins)
qed simp_all

subsection \<open>The writer as one job sees it\<close>

text \<open>
  Besides the writer's own steps, \<open>EnqueueJob\<close> writes to the database directly, from the
  goroutine of any request. Seen from one job, that of another job is a step that commits
  nothing.
\<close>

datatype job_ev = EvWriter writer_case | EvJob bool string string int

fun job_step :: "job_ev \<Rightarrow> store \<Rightarrow> store option" where
  "job_step (EvWriter c) s = writer_step c s"
| "job_step (EvJob ok i c t) s = Some (snd (EnqueueJob ok i c t s))"

fun ev_good :: "string \<Rightarrow> job_ev \<Rightarrow> bool" where
  "ev_good i (EvWriter c) = case_good c"
| "ev_good i (EvJob ok j c t) = (i \<noteq> j)"

fun rec_job :: "store_rec \<Rightarrow> string" where
  "rec_job (RecLine l) = sl_jobID l"
| "rec_job (RecFinish i _ _ _) = i"

definition job_view :: "string \<Rightarrow> database \<Rightarrow> database" where
  "job_view i d = \<lparr>db_jobs = filter (\<lambda>r. row_ID r = i) (db_jobs d),
                   db_lines = filter (\<lambda>l. sl_jobID l = i) (db_lines d)\<rparr>"

definition job_eff :: "string \<Rightarrow> store_rec \<Rightarrow> database \<Rightarrow> database" where
  "job_eff i r d = (if rec_job r = i then apply_rec r d else d)"

lemma filter_neq_other:
  "(\<And>x. x \<in> set xs \<Longrightarrow> P x \<Longrightarrow> Q x) \<Longrightarrow> filter P (filter Q xs) = filter P xs"
  by (induction xs) auto

lemma filter_ID_update:
  "filter (\<lambda>r. row_ID r = i) (map (\<lambda>r. if row_ID r = j
      then r\<lparr>row_State := s, row_ExitCode := x, row_FinishedAt := t\<rparr> else r) js) =
   map (\<lambda>r. if row_ID r = j
      then r\<lparr>row_State := s, row_ExitCode := x, row_FinishedAt := t\<rparr> else r)
     (filter (\<lambda>r. row_ID r = i) js)"
  by (induction js) auto

lemma job_view_apply: "job_view i (apply_rec r d) = job_eff i r (job_view i d)"
proof (cases r)
  case (RecLine l)
  then show ?thesis
    by (auto simp: job_view_def job_eff_def sql_insert_line_def line_key_def conj_commute
        intro!: filter_cong)
next
  case (RecFinish j s x t)
  have "map (\<lambda>r. if row_ID r = j then r\<lparr>row_State := s, row_ExitCode := x, row_FinishedAt := t\<rparr> else r)
      (filter (\<lambda>r. row_ID r = i) (db_jobs d)) = filter (\<lambda>r. row_ID r = i) (db_jobs d)" if "j \<noteq> i"
    using that by (intro map_idI) auto
  with RecFinish show ?thesis
    by (auto simp: job_view_def job_eff_def sql_finish_job_def filter_ID_update)
qed

lemma job_view_fold: "job_view i (fold apply_rec rs d) = fold (job_eff i) rs (job_view i d)"
  by (induction rs arbitrary: d) (simp_all add: job_view_apply)

lemma job_view_insert_job: "i \<noteq> j \<Longrightarrow> job_view i (sql_insert_job j c t d) = job_view i d"
  by (auto simp: job_view_def sql_insert_job_def intro!: filter_cong)

interpretation jq: queued_writer "job_eff i" "\<lambda>s. job_view i (db s)" owed offer job_step "ev_good i"
  for i
proof unfold_locales
  show "offer r s = Some s' \<Longrightarrow> job_view i (db s') = job_view i (db s) \<and> owed s' = owed s @ [r]"
    for r s s' using wq.accept_law [of r s s'] by simp
next
  fix e s s'
  assume good: "ev_good i e" and step: "job_step e s = Some s'"
  show "\<exists>k. job_view i (db s') = fold (job_eff i) (take k (owed s)) (job_view i (db s)) \<and>
      owed s' = drop k (owed s)"
  proof (cases e)
    case (EvWriter c)
    with good step have "case_good c" "writer_step c s = Some s'" by simp_all
    from writer_step_commit [OF this] show ?thesis by (auto simp: job_view_fold)
  next
    case (EvJob ok j c t)
    with good step have "job_view i (db s') = job_view i (db s)" "owed s' = owed s"
      by (auto simp: EnqueueJob_def owed_def job_view_insert_job)
    then show ?thesis by (intro exI [of _ 0]) simp
  qed
qed

text \<open>A run of the store in which the database calls concerning job \<open>i\<close> succeed.\<close>

definition run_good :: "string \<Rightarrow> (store_rec, job_ev) queue_op list \<Rightarrow> bool" where
  "run_good i xs = list_all (queued_writer.good_op (ev_good i)) xs"

definition lines_for :: "string \<Rightarrow> store_rec list \<Rightarrow> store_line list" where
  "lines_for i rs = filter (\<lambda>l. sl_jobID l = i) (lines_of rs)"

lemma lines_for_append [simp]: "lines_for i (xs @ ys) = lines_for i xs @ lines_for i ys"
  by (simp add: lines_for_def)

lemma job_view_row: "job_row_of i (job_view i d) = job_row_of i d"
proof -
  have "find P (filter P xs) = find P xs" for P :: "job_row \<Rightarrow> bool" and xs
    by (induction xs) simp_all
  then show ?thesis by (simp add: job_row_of_def job_view_def)
qed

lemma job_eff_filter: "fold (job_eff i) rs d = fold apply_rec (filter (\<lambda>r. rec_job r = i) rs) d"
  by (induction rs arbitrary: d) (simp_all add: job_eff_def)

lemma lines_of_filter_job: "lines_of (filter (\<lambda>r. rec_job r = i) rs) = lines_for i rs"
  by (induction rs rule: lines_of.induct) (simp_all add: lines_for_def)

lemma view_lines_fold:
  assumes "distinct (map line_key (lines_for i rs))"
    and "\<forall>l \<in> set (db_lines d). line_key l \<notin> line_key ` set (lines_for i rs)"
  shows "db_lines (fold (job_eff i) (take k rs) (job_view i d)) =
    filter (\<lambda>l. sl_jobID l = i) (db_lines d) @ lines_for i (take k rs)"
proof -
  let ?ks = "filter (\<lambda>r. rec_job r = i) (take k rs)"
  have "lines_for i rs = lines_for i (take k rs) @ lines_for i (drop k rs)"
    by (metis append_take_drop_id lines_for_append)
  with assms have "distinct (map line_key (lines_of ?ks))"
    "\<forall>l \<in> set (db_lines (job_view i d)). line_key l \<notin> line_key ` set (lines_of ?ks)"
    by (auto simp: lines_of_filter_job job_view_def)
  from db_lines_fold [OF this] show ?thesis
    by (simp add: job_eff_filter lines_of_filter_job) (simp add: job_view_def)
qed

subsection \<open>Properties\<close>

text \<open>
  C10. A finished job has its output on disk. Along any run of the store in which the
  database calls succeed, once the row of a job that was running at the start shows a
  terminal state, every line of the job accepted before its finish record is in the
  database, whatever batching, ticks and other jobs came between.
\<close>

theorem finished_row_implies_lines:
  assumes "queue_run offer job_step xs s = (rs, s')" and "run_good i xs"
    and "rs = as @ RecFinish i st x t # bs"
    and "list_all (\<lambda>r. \<not> finishes i r) (owed s @ as)"
    and "distinct (map line_key (lines_for i (owed s @ rs)))"
    and "\<forall>l \<in> set (db_lines (db s)). line_key l \<notin> line_key ` set (lines_for i (owed s @ rs))"
    and "map_option row_State (job_row_of i (db s)) = Some StateRunning"
    and "map_option row_State (job_row_of i (db s')) \<noteq> Some StateRunning"
  shows "set (lines_for i (owed s @ as)) \<subseteq> set (db_lines (db s'))"
proof -
  let ?X = "owed s @ rs" and ?n = "length (owed s @ as)"
  from jq.prefix_commit [OF assms(1)] assms(2) obtain k where
    k: "job_view i (db s') = fold (job_eff i) (take k ?X) (job_view i (db s))"
    unfolding run_good_def by blast
  have "k > ?n"
  proof (rule ccontr)
    assume "\<not> k > ?n"
    then have "set (take k ?X) \<subseteq> set (owed s @ as)"
      using set_take_subset [of k "owed s @ as"] by (auto simp: assms(3))
    with assms(4) have "\<forall>r \<in> set (filter (\<lambda>r. rec_job r = i) (take k ?X)). \<not> finishes i r"
      by (auto simp: list_all_iff)
    from job_row_fold_others [OF this, of "job_view i (db s)"]
    have "job_row_of i (job_view i (db s')) = job_row_of i (job_view i (db s))"
      unfolding k job_eff_filter .
    then have "job_row_of i (db s') = job_row_of i (db s)" by (simp only: job_view_row)
    with assms(7,8) show False by simp
  qed
  then have "take k ?X = (owed s @ as) @ take (k - ?n) (RecFinish i st x t # bs)"
    by (simp add: assms(3))
  then have "set (lines_for i (owed s @ as)) \<subseteq> set (lines_for i (take k ?X))"
    by (metis lines_for_append set_append sup_ge1)
  also have "\<dots> \<subseteq> set (db_lines (job_view i (db s')))"
    using view_lines_fold [OF assms(5,6), of k] by (simp add: k)
  finally show ?thesis by (auto simp: job_view_def)
qed

definition calm_flush :: flush_env where
  "calm_flush = \<lparr>begin_ok = True, prepare_ok = True, insert_stop = None, commit_ok = True\<rparr>"

definition sample_store :: store where
  "sample_store = snd (EnqueueJob True ''j'' ''ls'' 5 (new_store empty_db))"

definition sample_line :: store_line where
  "sample_line = \<lparr>sl_jobID = ''j'', sl_seq = 1, sl_stream = 0, sl_line = ''out''\<rparr>"

lemma sample_store_row: "db sample_store = \<lparr>db_jobs = [\<lparr>row_ID = ''j'', row_Command = ''ls'',
    row_State = StateRunning, row_ExitCode = 0, row_StartedAt = 5, row_FinishedAt = 0\<rparr>], db_lines = []\<rparr>"
    "owed sample_store = []" "ch sample_store = []" "batch sample_store = []" "\<not> stopped sample_store"
  by (simp_all add: sample_store_def EnqueueJob_def new_store_def sql_insert_job_def empty_db_def
      owed_def)

lemma sample_row: "map_option row_State (job_row_of ''j'' (db sample_store)) = Some StateRunning"
  by (simp add: sample_store_row job_row_of_def)

theorem finished_row_implies_lines_witness:
  "\<exists>s'. snd (queue_run offer job_step [QAccept (RecLine sample_line),
        QAccept (RecFinish ''j'' StateDone 0 9), QStep (EvWriter (CaseRecv calm_flush True)),
        QStep (EvWriter (CaseRecv calm_flush True))] sample_store) = s' \<and>
      sample_line \<in> set (db_lines (db s'))"
proof -
  let ?xs = "[QAccept (RecLine sample_line), QAccept (RecFinish ''j'' StateDone 0 9),
    QStep (EvWriter (CaseRecv calm_flush True)), QStep (EvWriter (CaseRecv calm_flush True))]"
  have good: "run_good ''j'' ?xs"
    by (simp add: run_good_def jq.good_op.simps flush_good_def calm_flush_def)
  obtain s' where run: "queue_run offer job_step ?xs sample_store =
      ([RecLine sample_line, RecFinish ''j'' StateDone 0 9], s')" and
    row: "map_option row_State (job_row_of ''j'' (db s')) = Some StateDone"
    by (auto simp: offer_def channelCap_def sample_store_row Let_def flush_def calm_flush_def
        writeBatchLen_def job_row_finish) (simp add: job_row_of_def sample_store_row)
  have "set (lines_for ''j'' (owed sample_store @ [RecLine sample_line])) \<subseteq> set (db_lines (db s'))"
    by (rule finished_row_implies_lines [OF run good])
      (use row sample_row in \<open>simp_all only: job_state.distinct option.inject not_False_eq_True\<close>,
       simp_all add: sample_store_row lines_for_def sample_line_def line_key_def)
  then have "sample_line \<in> set (db_lines (db s'))"
    by (simp add: lines_for_def sample_line_def)
  then show ?thesis by (simp only: run snd_conv) blast
qed

text \<open>
  Nothing accepted is lost or reordered. When the writer has caught up, the history
  query of a job returns every line of it that was ever accepted, in sequence order, and no
  other.
\<close>

theorem caught_up_history_is_complete:
  assumes "queue_run offer job_step xs s = (rs, s')" and "run_good i xs" and "owed s' = []"
    and "distinct (map line_key (lines_for i (owed s @ rs)))"
    and "\<forall>l \<in> set (db_lines (db s)). sl_jobID l \<noteq> i"
  shows "QueryLines True i (- 1) s' =
    Inr (map rec_of_line (sort_key sl_seq (lines_for i (owed s @ rs))),
         int (length (lines_for i (owed s @ rs))))"
proof -
  let ?X = "owed s @ rs"
  from jq.drained_commit [OF assms(1) _ assms(3)] assms(2)
  have view: "job_view i (db s') = fold (job_eff i) (take (length ?X) ?X) (job_view i (db s))"
    by (simp add: run_good_def)
  have "\<forall>l \<in> set (db_lines (db s)). line_key l \<notin> line_key ` set (lines_for i ?X)"
    using assms(5) by (fastforce simp: line_key_def lines_for_def)
  from view_lines_fold [OF assms(4) this, of "length ?X"] view
  have "db_lines (job_view i (db s')) = filter (\<lambda>l. sl_jobID l = i) (db_lines (db s)) @ lines_for i ?X"
    by simp
  moreover have "filter (\<lambda>l. sl_jobID l = i) (db_lines (db s)) = []"
    using assms(5) by (simp add: filter_empty_conv)
  ultimately have "filter (\<lambda>l. sl_jobID l = i) (db_lines (db s')) = lines_for i ?X"
    by (simp add: job_view_def)
  then show ?thesis
    by (simp add: QueryLines_def sql_query_lines_def stream_matches_def Let_def)
qed

theorem caught_up_history_is_complete_witness:
  "QueryLines True ''j'' (- 1) (snd (queue_run offer job_step [QAccept (RecLine sample_line),
        QStep (EvWriter (CaseRecv calm_flush True)), QStep (EvWriter (CaseTick calm_flush))] sample_store)) =
     Inr ([LineRec 1 ''out''], 1)"
proof -
  let ?xs = "[QAccept (RecLine sample_line), QStep (EvWriter (CaseRecv calm_flush True)),
    QStep (EvWriter (CaseTick calm_flush))]"
  have good: "run_good ''j'' ?xs"
    by (simp add: run_good_def jq.good_op.simps flush_good_def calm_flush_def)
  obtain s' where run: "queue_run offer job_step ?xs sample_store = ([RecLine sample_line], s')"
    and "owed s' = []"
    by (auto simp: offer_def channelCap_def sample_store_row Let_def flush_def calm_flush_def
        writeBatchLen_def owed_def)
  from caught_up_history_is_complete [OF run good this(2)] show ?thesis
    unfolding run snd_conv
    by (simp add: sample_store_row lines_for_def sample_line_def rec_of_line_def)
qed

text \<open>
  A restart leaves no job running. A store that opens answers for every job of the
  previous process what that process had recorded, except that a job recorded as running is
  reported failed with exit code 137 at the time of the restart; the lines are untouched.
\<close>

theorem restart_leaves_no_running_job:
  assumes "OpenStore env f now = Inr s"
  shows "QueryJob True i s = Inr (map_option (\<lambda>r. if row_State r = StateRunning
      then r\<lparr>row_State := StateFailed, row_ExitCode := 137, row_FinishedAt := now\<rparr> else r)
      (job_row_of i (migrate f))) \<and>
    list_all (\<lambda>r. row_State r \<noteq> StateRunning) (db_jobs (db s)) \<and>
    map row_ID (db_jobs (db s)) = map row_ID (db_jobs (migrate f)) \<and>
    db_lines (db s) = db_lines (migrate f) \<and> owed s = []"
proof -
  from assms have s: "s = new_store (sql_recover now (migrate f))"
    by (auto simp: OpenStore_def recover_def split: if_splits)
  show ?thesis
    by (auto simp: s new_store_def sql_recover_def QueryJob_def job_row_of_def find_map_same
        list_all_iff owed_def)
qed

theorem restart_leaves_no_running_job_witness:
  "\<exists>s. OpenStore \<lparr>oe_mkdir = True, oe_open = True, oe_migrate = True, oe_recover = True\<rparr>
      (Some (db sample_store)) 77 = Inr s \<and>
    QueryJob True ''j'' s = Inr (Some \<lparr>row_ID = ''j'', row_Command = ''ls'', row_State = StateFailed,
      row_ExitCode = 137, row_StartedAt = 5, row_FinishedAt = 77\<rparr>)"
proof -
  let ?env = "\<lparr>oe_mkdir = True, oe_open = True, oe_migrate = True, oe_recover = True\<rparr>"
  obtain s where s: "OpenStore ?env (Some (db sample_store)) 77 = Inr s"
    by (simp add: OpenStore_def)
  from restart_leaves_no_running_job [OF s, of "''j''"] s show ?thesis
    by (simp add: migrate_def job_row_of_def sample_store_row)
qed

text \<open>
  Retention is exact. When its statements succeed, a job's row survives precisely when
  it is still running, never finished or finished after the cutoff; the history of a
  surviving job is untouched, that of a removed or unknown one is gone; the result counts
  the removed rows.
\<close>

theorem retention_is_exact:
  assumes "db_inv (db s)" and "re_begin env" "re_jobs env" "re_lines env" "re_commit env"
    and "Retention env hours now s = (n, s')"
  shows "let keep = (\<lambda>r. row_State r = StateRunning \<or> row_FinishedAt r \<le> 0 \<or>
                 now - hours * 3600000 \<le> row_FinishedAt r);
             row = Option.bind (job_row_of i (db s)) (\<lambda>r. if keep r then Some r else None)
         in job_row_of i (db s') = row \<and>
            sql_query_lines i st (db s') = (if row = None then [] else sql_query_lines i st (db s)) \<and>
            n = int (length (db_jobs (db s))) - int (length (db_jobs (db s'))) \<and> db_inv (db s')"
proof -
  let ?c = "now - hours * 3600000"
  from assms have s': "s' = s\<lparr>db := sql_retention ?c (db s)\<rparr>"
    and n: "n = int (length (filter (expired ?c) (db_jobs (db s))))"
    by (simp_all add: Retention_def Let_def)
  have row: "find (\<lambda>r. row_ID r = i) (filter P js) =
      Option.bind (find (\<lambda>r. row_ID r = i) js) (\<lambda>r. if P r then Some r else None)"
    if "distinct (map row_ID js)" for P :: "job_row \<Rightarrow> bool" and js
    using that
  proof (induction js)
    case (Cons r js)
    have "find (\<lambda>r. row_ID r = i) (filter P js) = None" if "row_ID r = i"
      using Cons.prems that by (auto simp: find_None_iff) (metis imageI)
    with Cons show ?case by auto
  qed simp
  have some: "find (\<lambda>r. row_ID r = i) js \<noteq> None \<longleftrightarrow> i \<in> row_ID ` set js" for js :: "job_row list"
    by (induction js) auto
  have keep: "\<not> expired ?c r \<longleftrightarrow> row_State r = StateRunning \<or> row_FinishedAt r \<le> 0 \<or>
      ?c \<le> row_FinishedAt r" for r
    by (auto simp: expired_def)
  let ?row = "find (\<lambda>r. row_ID r = i) (filter (\<lambda>r. \<not> expired ?c r) (db_jobs (db s)))"
  have lines: "sql_query_lines i st (db s') = (if ?row = None then [] else sql_query_lines i st (db s))"
  proof -
    have "filter (\<lambda>l. sl_jobID l = i \<and> stream_matches st l) (db_lines (db s')) =
      (if ?row = None then [] else filter (\<lambda>l. sl_jobID l = i \<and> stream_matches st l) (db_lines (db s)))"
      using some [of "filter (\<lambda>r. \<not> expired ?c r) (db_jobs (db s))"]
      by (auto simp: s' sql_retention_def Let_def filter_empty_conv intro!: filter_cong)
    then show ?thesis by (simp add: sql_query_lines_def)
  qed
  have count: "length js = length (filter P js) + length (filter (\<lambda>r. \<not> P r) js)"
    for P :: "job_row \<Rightarrow> bool" and js
    by (rule sum_length_filter_compl [symmetric])
  from row [of "db_jobs (db s)" "\<lambda>r. \<not> expired ?c r"] lines n
    count [of "db_jobs (db s)" "expired ?c"] db_inv_retention [OF assms(1), of ?c] assms(1)
  show ?thesis
    by (simp add: s' sql_retention_def Let_def job_row_of_def keep db_inv_def)
qed

theorem retention_is_exact_witness:
  "\<exists>n s'. Retention \<lparr>re_begin = True, re_jobs = True, re_lines = True, re_commit = True\<rparr> 24 100000000
      (new_store \<lparr>db_jobs = [\<lparr>row_ID = ''j'', row_Command = ''ls'', row_State = StateDone,
         row_ExitCode = 0, row_StartedAt = 5, row_FinishedAt = 9\<rparr>], db_lines = [sample_line]\<rparr>) = (n, s') \<and>
    job_row_of ''j'' (db s') = None \<and> sql_query_lines ''j'' (- 1) (db s') = [] \<and> n = 1"
proof -
  let ?env = "\<lparr>re_begin = True, re_jobs = True, re_lines = True, re_commit = True\<rparr>"
  let ?s = "new_store \<lparr>db_jobs = [\<lparr>row_ID = ''j'', row_Command = ''ls'', row_State = StateDone,
         row_ExitCode = 0, row_StartedAt = 5, row_FinishedAt = 9\<rparr>], db_lines = [sample_line]\<rparr>"
  obtain n s' where r: "Retention ?env 24 100000000 ?s = (n, s')" by (meson surj_pair)
  have "db_jobs (db s') = []"
    using r by (auto simp: Retention_def sql_retention_def new_store_def expired_def Let_def)
  moreover have "db_inv (db ?s)" by (simp add: db_inv_def new_store_def)
  ultimately show ?thesis
    using retention_is_exact [OF _ _ _ _ _ r, of "''j''" "- 1"] r
    by (simp add: job_row_of_def new_store_def Let_def)
qed

text \<open>
  Closing the store abandons its queue. The writer's last step commits the open batch
  only: whatever the channel still holds is never committed, because no step of the writer
  is possible afterwards. (The comment on \<open>Close\<close> says it drains the writer.)
\<close>

theorem close_abandons_the_queue:
  assumes "writer_step (CaseDone env) (CloseStore s) = Some s'" and "flush_good env"
  shows "db s' = fold sql_insert_line (batch s) (db s) \<and> owed s' = ch s \<and>
    (\<forall>c. writer_step c s' = None) \<and> db (snd (queue_run offer writer_step ys s')) = db s'"
proof -
  from assms have s': "s' = (flush env (s\<lparr>done_closed := True\<rparr>))\<lparr>stopped := True\<rparr>"
    by (auto simp: CloseStore_def split: if_splits)
  with flush_good_commit [OF assms(2), of "s\<lparr>done_closed := True\<rparr>"]
  have "db s' = fold sql_insert_line (batch s) (db s)" "owed s' = ch s" "stopped s'"
    by (simp_all add: fold_RecLine owed_def)
  moreover have none: "writer_step c u = None" if "stopped u" for c u
    using that by (cases c) simp_all
  moreover have acc: "stopped u1 \<and> db u1 = db u" if "offer x u = Some u1" "stopped u" for x u u1
    using that by (auto simp: offer_def split: if_splits)
  have "db (snd (queue_run offer writer_step ys u)) = db u" if "stopped u" for u
    using that
  proof (induction ys arbitrary: u)
    case (Cons y ys)
    then show ?case
      by (cases y) (auto simp: none case_prod_beta Let_def dest!: acc split: option.splits)
  qed simp
  ultimately show ?thesis by blast
qed

theorem close_abandons_the_queue_witness:
  "\<exists>s'. writer_step (CaseDone calm_flush) (CloseStore (TryEnqueueLine ''j'' 1 0 ''out'' sample_store)) = Some s' \<and>
     db_lines (db s') = [] \<and> owed s' = [RecLine sample_line]"
proof -
  let ?s = "TryEnqueueLine ''j'' 1 0 ''out'' sample_store"
  obtain s' where s': "writer_step (CaseDone calm_flush) (CloseStore ?s) = Some s'"
    by (auto simp: CloseStore_def TryEnqueueLine_def sample_store_row channelCap_def)
  have "flush_good calm_flush" by (simp add: flush_good_def calm_flush_def)
  from close_abandons_the_queue [OF s' this] s' show ?thesis
    by (simp add: TryEnqueueLine_def sample_store_row channelCap_def sample_line_def)
qed

text \<open>
  A full queue drops the finish record of a job (\<open>FinishJob\<close> logs it and goes on). From then
  on no step of the writer, whatever its outcome, changes the job's row.
\<close>

lemma job_row_lines [simp]: "job_row_of i (fold sql_insert_line ls d) = job_row_of i d"
  by (induction ls arbitrary: d) simp_all

lemma job_row_flush [simp]: "job_row_of i (db (flush env s)) = job_row_of i (db s)"
  by (simp add: flush_def Let_def)

lemma writer_step_row:
  assumes "writer_step c s = Some s'" "list_all (\<lambda>r. \<not> finishes i r) (ch s)"
  shows "job_row_of i (db s') = job_row_of i (db s) \<and> list_all (\<lambda>r. \<not> finishes i r) (ch s')"
  using assms
  by (cases c) (auto simp: Let_def job_row_finish split: if_splits list.splits store_rec.splits)

fun leaves_job :: "string \<Rightarrow> (store_rec, job_ev) queue_op \<Rightarrow> bool" where
  "leaves_job i (QAccept r) = (\<not> finishes i r)"
| "leaves_job i (QStep (EvWriter c)) = True"
| "leaves_job i (QStep (EvJob ok j c t)) = (i \<noteq> j)"

lemma job_row_insert_other: "i \<noteq> j \<Longrightarrow> job_row_of i (sql_insert_job j c t d) = job_row_of i d"
  by (metis job_view_row job_view_insert_job)

lemma row_survives:
  assumes "queue_run offer job_step xs s = (rs, s')" "list_all (leaves_job i) xs"
    and "list_all (\<lambda>r. \<not> finishes i r) (ch s)"
  shows "job_row_of i (db s') = job_row_of i (db s)"
  using assms
proof (induction xs arbitrary: s rs)
  case (Cons x xs)
  consider (accepted) r s1 rs1 where "x = QAccept r" "offer r s = Some s1"
      "queue_run offer job_step xs s1 = (rs1, s')"
    | (idle) "queue_run offer job_step xs s = (rs, s')"
    | (stepped) e s1 where "x = QStep e" "job_step e s = Some s1"
      "queue_run offer job_step xs s1 = (rs, s')"
    using Cons.prems(1)
    by (cases x) (auto split: option.splits prod.splits simp: Let_def)
  then show ?case
  proof cases
    case accepted
    then have "s1 = s\<lparr>ch := ch s @ [r]\<rparr>" by (auto simp: offer_def split: if_splits)
    with Cons.IH [OF accepted(3)] Cons.prems(2,3) accepted(1) show ?thesis by simp
  next
    case idle
    from Cons.IH [OF this] Cons.prems(2,3) show ?thesis by simp
  next
    case stepped
    have "job_row_of i (db s1) = job_row_of i (db s) \<and> list_all (\<lambda>r. \<not> finishes i r) (ch s1)"
      using stepped(1,2) Cons.prems(2,3) writer_step_row
      by (cases e) (auto simp: EnqueueJob_def job_row_insert_other)
    with Cons.IH [OF stepped(3)] Cons.prems(2) show ?thesis by simp
  qed
qed simp

text \<open>
  C35. A finish record that meets a full queue is lost for good. The row of the job stays
  as it was, running, however long the writer goes on and whatever other jobs do, so a
  job that ended well is reported running until the worker is restarted, and failed with
  exit code 137 from then on.
\<close>

theorem lost_finish_is_never_recorded:
  assumes "channelCap \<le> length (ch s)" "list_all (\<lambda>r. \<not> finishes i r) (ch s)"
    and "job_row_of i (db s) = Some r" "row_State r = StateRunning"
    and "queue_run offer job_step xs (FinishJob i st x t s) = (rs, s')" "list_all (leaves_job i) xs"
    and "OpenStore env (Some (db s')) now = Inr s''"
  shows "QueryJob True i s' = Inr (Some r) \<and>
    QueryJob True i s'' =
      Inr (Some (r\<lparr>row_State := StateFailed, row_ExitCode := 137, row_FinishedAt := now\<rparr>))"
proof -
  have "FinishJob i st x t s = s" using assms(1) by (simp add: FinishJob_def)
  with row_survives [OF _ assms(6,2)] assms(5) have row: "job_row_of i (db s') = Some r"
    by (simp add: assms(3))
  from assms(7) have "s'' = new_store (sql_recover now (db s'))"
    by (auto simp: OpenStore_def recover_def migrate_def split: if_splits)
  with row assms(4) show ?thesis
    by (simp add: QueryJob_def job_row_of_def new_store_def sql_recover_def find_map_same)
qed

definition full_store :: store where
  "full_store = sample_store\<lparr>ch := replicate channelCap (RecLine sample_line)\<rparr>"

theorem lost_finish_is_never_recorded_witness:
  "\<exists>s' s''. queue_run offer job_step [QStep (EvWriter (CaseTick calm_flush))]
        (FinishJob ''j'' StateDone 0 9 full_store) = ([], s') \<and>
     OpenStore \<lparr>oe_mkdir = True, oe_open = True, oe_migrate = True, oe_recover = True\<rparr>
       (Some (db s')) 77 = Inr s'' \<and>
     map_option row_State (job_row_of ''j'' (db s')) = Some StateRunning \<and>
     map_option row_ExitCode (job_row_of ''j'' (db s'')) = Some 137"
proof -
  let ?xs = "[QStep (EvWriter (CaseTick calm_flush))]" and ?i = "''j''"
  let ?env = "\<lparr>oe_mkdir = True, oe_open = True, oe_migrate = True, oe_recover = True\<rparr>"
  have full: "channelCap \<le> length (ch full_store)" "list_all (\<lambda>r. \<not> finishes ?i r) (ch full_store)"
    by (simp_all add: full_store_def list_all_iff)
  have row: "job_row_of ?i (db full_store) = Some \<lparr>row_ID = ?i, row_Command = ''ls'',
      row_State = StateRunning, row_ExitCode = 0, row_StartedAt = 5, row_FinishedAt = 0\<rparr>" (is "_ = Some ?r")
    by (simp add: full_store_def sample_store_row job_row_of_def)
  obtain s' where run: "queue_run offer job_step ?xs (FinishJob ?i StateDone 0 9 full_store) = ([], s')"
    by (simp add: FinishJob_def full_store_def sample_store_row)
  obtain s'' where reopened: "OpenStore ?env (Some (db s')) 77 = Inr s''" by (simp add: OpenStore_def)
  have "list_all (leaves_job ?i) ?xs" by simp
  from lost_finish_is_never_recorded [OF full row _ run this reopened] run reopened show ?thesis
    by (simp add: QueryJob_def job_row_of_def)
qed

end
