(* ===== verification/Jobs.thy ===== *)
theory Jobs
  imports StoreLife "HOL-Library.AList"
begin

text \<open>
  The job registry, \<open>internal/jobsvc/manager.go\<close>: the struct \<open>Job\<close> with its two line
  buffers, its subscriber channels and its stdin pipe, and the struct \<open>Manager\<close> with the
  map of live jobs and the store. Every method is one function; a method that holds a mutex
  for its whole body is atomic. The Go map is an association list with distinct keys; the
  clock, the random job id and the outcomes of database calls are arguments. A Go panic is
  a value, so that its absence can be proved. \<open>readMerged\<close> and \<open>OutputLines\<close> take no lock
  around their parts; here the parts read one state, in theory JobReads each its own.
  \<open>Subscribe\<close> holds \<open>subMu\<close>, which stops publications but not the writers, and copies each
  ring under the ring's own lock: it takes the job at three moments.
\<close>

subsection \<open>Channels and the stdin pipe\<close>

text \<open>
  A subscriber's channel is buffered; the job and the subscriber share it, so channels live
  in a heap (the list \<open>j_chans\<close>) and \<open>j_subs\<close> holds their addresses.
\<close>

record chan =
  chan_buf :: "string list"
  chan_closed :: bool

definition subscriberCap :: nat where "subscriberCap = 256"

definition new_chan :: chan where
  "new_chan = \<lparr>chan_buf = [], chan_closed = False\<rparr>"

text \<open>\<open>select { case ch <- line: default: }\<close>; a send on a closed channel panics.\<close>

definition try_send :: "string \<Rightarrow> chan \<Rightarrow> chan option" where
  "try_send line c =
     (if chan_closed c then None
      else if length (chan_buf c) < subscriberCap
      then Some (c\<lparr>chan_buf := chan_buf c @ [line]\<rparr>) else Some c)"

text \<open>\<open>close(ch)\<close>: closing a closed channel panics.\<close>

definition close_chan :: "chan \<Rightarrow> chan option" where
  "close_chan c = (if chan_closed c then None else Some (c\<lparr>chan_closed := True\<rparr>))"

fun update_chans :: "(chan \<Rightarrow> chan option) \<Rightarrow> nat list \<Rightarrow> chan list \<Rightarrow> chan list option" where
  "update_chans f [] cs = Some cs"
| "update_chans f (n # ns) cs =
     (case f (cs ! n) of None \<Rightarrow> None | Some c \<Rightarrow> update_chans f ns (cs[n := c]))"

subsection \<open>Jobs\<close>

record job =
  j_ID :: string
  j_Command :: string
  j_State :: job_state
  j_ExitCode :: int
  j_StartedAt :: int
  j_FinishedAt :: int
  j_Stdout :: line_buffer
  j_Stderr :: line_buffer
  j_subs :: "nat list"
  j_chans :: "chan list"
  j_done :: bool
  j_seq :: int
  j_stdin :: bytes
  j_stdin_closed :: bool
  j_cancelled :: bool

definition new_job :: "int \<Rightarrow> string \<Rightarrow> string \<Rightarrow> int \<Rightarrow> job" where
  "new_job memLines i command now =
     \<lparr>j_ID = i, j_Command = command, j_State = StateRunning, j_ExitCode = 0, j_StartedAt = now,
      j_FinishedAt = 0, j_Stdout = NewLineBuffer memLines, j_Stderr = NewLineBuffer memLines,
      j_subs = [], j_chans = [], j_done = False, j_seq = 0, j_stdin = [], j_stdin_closed = False,
      j_cancelled = False\<rparr>"

definition lines_text :: "line_rec list \<Rightarrow> string list" where
  "lines_text rs = map Line rs"

definition sort_recs :: "line_rec list \<Rightarrow> line_rec list" where
  "sort_recs rs = sort_key Seq rs"

text \<open>
  \<open>Subscribe\<close> holds \<open>subMu\<close>, but the rings have locks of their own, which it takes one after
  the other, and the command's writes need only those: \<open>jo\<close> and \<open>je\<close> are the job when its
  ring of standard output and that of standard error are copied, \<open>j\<close> the job when the
  channel is registered, the only change of state. The channel is \<open>None\<close> for nil.
\<close>

definition registerSub :: "job \<Rightarrow> nat option \<times> job" where
  "registerSub j =
     (if j_done j then (None, j)
      else let c = length (j_chans j) in
        (Some c, j\<lparr>j_chans := j_chans j @ [new_chan], j_subs := j_subs j @ [c]\<rparr>))"

definition Subscribe :: "job \<Rightarrow> job \<Rightarrow> job \<Rightarrow> (string list \<times> nat option) \<times> job" where
  "Subscribe jo je j =
     (let rs = sort_recs (lb_Recs (j_Stdout jo) @ lb_Recs (j_Stderr je));
          (c, j') = registerSub j
      in ((lines_text rs, c), j'))"

lemma Subscribe_parts [simp]:
  "snd (Subscribe jo je j) = snd (registerSub j)" "snd (fst (Subscribe jo je j)) = fst (registerSub j)"
  "fst (fst (Subscribe jo je j)) = lines_text (sort_recs (lb_Recs (j_Stdout jo) @ lb_Recs (j_Stderr je)))"
  by (simp_all add: Subscribe_def Let_def split: prod.split)

definition publishLine :: "string \<Rightarrow> job \<Rightarrow> job option" where
  "publishLine line j =
     (if line = '''' then Some j
      else map_option (\<lambda>cs. j\<lparr>j_chans := cs\<rparr>) (update_chans (try_send line) (j_subs j) (j_chans j)))"

definition finishSubs :: "job \<Rightarrow> job option" where
  "finishSubs j =
     map_option (\<lambda>cs. j\<lparr>j_chans := cs, j_subs := []\<rparr>) (update_chans close_chan (j_subs j) (j_chans j))"

text \<open>
  A write to the stdin pipe returns when the reader has taken everything, or with
  \<open>io.ErrClosedPipe\<close> when the write end is closed before; \<open>taken\<close> is what the command
  reads of it by then.
\<close>

datatype pipe_error = ErrClosedPipe

definition Stdin :: "bytes \<Rightarrow> bool \<Rightarrow> nat \<Rightarrow> job \<Rightarrow> pipe_error option \<times> job" where
  "Stdin data closeAfter taken j =
     (let (err, j1) =
        (if length data > 0 then
           if j_stdin_closed j then (Some ErrClosedPipe, j)
           else (if taken < length data then Some ErrClosedPipe else None,
                 j\<lparr>j_stdin := j_stdin j @ take taken data\<rparr>)
         else (None, j))
      in if err \<noteq> None then (err, j1)
         else if closeAfter then (None, j1\<lparr>j_stdin_closed := True\<rparr>) else (None, j1))"

definition Kill :: "job \<Rightarrow> job" where
  "Kill j = j\<lparr>j_cancelled := True\<rparr>"

record result =
  res_ExitCode :: int
  res_Stdout :: string
  res_Stderr :: string

definition Result :: "job \<Rightarrow> result" where
  "Result j = \<lparr>res_ExitCode = j_ExitCode j, res_Stdout = lb_Tail 50 (j_Stdout j),
               res_Stderr = lb_Tail 50 (j_Stderr j)\<rparr>"

definition row_of_job :: "job \<Rightarrow> job_row" where
  "row_of_job j =
     \<lparr>row_ID = j_ID j, row_Command = j_Command j, row_State = j_State j,
      row_ExitCode = j_ExitCode j, row_StartedAt = j_StartedAt j, row_FinishedAt = j_FinishedAt j\<rparr>"

text \<open>The outcome \<open>switch\<close> at the end of the job's goroutine.\<close>

definition job_outcome :: "string option \<Rightarrow> bool \<Rightarrow> int \<Rightarrow> job_state \<times> int" where
  "job_outcome err ctx_done exit =
     (if err \<noteq> None then (StateFailed, int32 exit)
      else if ctx_done then (StateKilled, int32 exit)
      else if exit = 0 then (StateDone, 0)
      else (StateFailed, int32 exit))"

definition shell_error_text :: "string \<Rightarrow> bytes" where
  "shell_error_text err = ''builtin shell error: '' @ err @ [LF]"

subsection \<open>The manager\<close>

record manager =
  m_store :: store
  m_memLines :: int
  m_replay :: int
  m_jobs :: "(string \<times> job) list"

definition retentionHours :: int where "retentionHours = 24"
definition hour_ms :: int where "hour_ms = 3600000"

definition NewManager :: "store \<Rightarrow> int \<Rightarrow> int \<Rightarrow> manager" where
  "NewManager s memLines rep =
     \<lparr>m_store = s, m_memLines = (if memLines \<le> 0 then 10000 else memLines),
      m_replay = (if rep \<le> 0 then 1000 else rep), m_jobs = []\<rparr>"

definition newID :: "(nat \<Rightarrow> byte) \<Rightarrow> string" where
  "newID b = hex_encode (map b [0..<8])"

text \<open>The synchronous part of \<open>Execute\<close>; the goroutine it starts is in theory JobRun.\<close>

definition Execute :: "(nat \<Rightarrow> byte) \<Rightarrow> int \<Rightarrow> bool \<Rightarrow> string \<Rightarrow> manager \<Rightarrow> string \<times> manager" where
  "Execute b now enqueue_ok command m =
     (let i = newID b;
          j = new_job (m_memLines m) i command now;
          m1 = m\<lparr>m_jobs := AList.update i j (m_jobs m)\<rparr>
      in (i, m1\<lparr>m_store := snd (EnqueueJob enqueue_ok i command (j_StartedAt j) (m_store m1))\<rparr>))"

definition Get :: "string \<Rightarrow> manager \<Rightarrow> job option" where
  "Get i m = map_of (m_jobs m) i"

text \<open>
  \<open>List\<close> orders the merged rows with an unstable sort; like the SQL ordering, it is a
  parameter. \<open>byID\<close> is first filled from the store, then with the jobs it has no row of.
\<close>

definition merge_rows :: "job_row list \<Rightarrow> job list \<Rightarrow> job_row list" where
  "merge_rows rows js =
     rows @ map row_of_job (filter (\<lambda>j. j_ID j \<notin> set (map row_ID rows)) js)"

definition ListJobs ::
  "(job_row list \<Rightarrow> job_row list) \<Rightarrow> (job_row list \<Rightarrow> job_row list) \<Rightarrow> bool \<Rightarrow> int \<Rightarrow> manager \<Rightarrow> job_row list"
where
  "ListJobs sql_ord go_ord ok limit0 m =
     (let limit = (if limit0 \<le> 0 then 500 else limit0);
          rows = (case QueryJobs sql_ord ok limit (m_store m) of Inl _ \<Rightarrow> [] | Inr rs \<Rightarrow> rs);
          out = go_ord (merge_rows rows (map snd (m_jobs m)))
      in if int (length out) > limit then take (nat limit) out else out)"

definition prunable :: "int \<Rightarrow> job \<Rightarrow> bool" where
  "prunable cutoff j \<longleftrightarrow> j_State j \<noteq> StateRunning \<and> j_FinishedAt j < cutoff"

definition Prune :: "int \<Rightarrow> int \<Rightarrow> manager \<Rightarrow> manager" where
  "Prune maxAge now m =
     (let cutoff = now - maxAge in
      m\<lparr>m_jobs := filter (\<lambda>(i, j). \<not> prunable cutoff j) (m_jobs m)\<rparr>)"

text \<open>One tick of \<open>retentionLoop\<close>.\<close>

definition retention_tick :: "retention_env \<Rightarrow> int \<Rightarrow> int \<Rightarrow> manager \<Rightarrow> manager" where
  "retention_tick env now now' m =
     Prune hour_ms now' (m\<lparr>m_store := snd (Retention env retentionHours now (m_store m))\<rparr>)"

definition max_seq :: "line_rec list \<Rightarrow> int" where
  "max_seq rs = fold (\<lambda>r m. if Seq r > m then Seq r else m) rs 0"

definition readMerged :: "bool \<Rightarrow> string \<Rightarrow> int \<Rightarrow> manager \<Rightarrow> unit + line_rec list" where
  "readMerged ok i st m =
     (case QueryLines ok i st (m_store m) of
        Inl e \<Rightarrow> Inl e
      | Inr (persisted, _) \<Rightarrow>
          (let maxSeq = max_seq persisted in
           case Get i m of
             None \<Rightarrow> Inr persisted
           | Some j \<Rightarrow>
               (let keep = filter (\<lambda>r. Seq r > maxSeq);
                    out = (if st = StreamStdout \<or> st < 0 then keep (lb_Recs (j_Stdout j)) else []);
                    err = (if st = StreamStderr \<or> st < 0 then keep (lb_Recs (j_Stderr j)) else [])
                in Inr (persisted @ sort_recs (out @ err)))))"

definition MergedRecs :: "bool \<Rightarrow> string \<Rightarrow> int \<Rightarrow> manager \<Rightarrow> unit + line_rec list" where
  "MergedRecs ok i st m = readMerged ok i st m"

definition jobState :: "bool \<Rightarrow> string \<Rightarrow> manager \<Rightarrow> unit + job_row option" where
  "jobState ok i m =
     (case Get i m of Some j \<Rightarrow> Inr (Some (row_of_job j)) | None \<Rightarrow> QueryJob ok i (m_store m))"

text \<open>The slice \<open>xs[s:e]\<close>; \<open>None\<close> is the run-time panic.\<close>

definition slice :: "int \<Rightarrow> int \<Rightarrow> 'a list \<Rightarrow> 'a list option" where
  "slice s e xs =
     (if 0 \<le> s \<and> s \<le> e \<and> e \<le> int (length xs)
      then Some (take (nat (e - s)) (drop (nat s) xs)) else None)"

record output_page =
  op_lines :: "string list"
  op_total :: int
  op_start :: int
  op_end :: int
  op_done :: bool

datatype output_error = QueryFailed | SlicePanic

definition page_bounds :: "int \<Rightarrow> int \<Rightarrow> int \<Rightarrow> int \<times> int" where
  "page_bounds n start end0 =
     (let s = start;
          s = (if s < 0 then (let s' = int32 (n + s) in if s' < 0 then 0 else s') else s);
          e = end0;
          e = (if e \<le> 0 \<or> e > n then n else e);
          s = (if s > n then n else s);
          e = (if e < s then s else e)
      in (s, e))"

definition OutputLines ::
  "bool \<Rightarrow> bool \<Rightarrow> string \<Rightarrow> int \<Rightarrow> int \<Rightarrow> int \<Rightarrow> manager \<Rightarrow> output_error + output_page" where
  "OutputLines lines_ok job_ok i st start end0 m =
     (case readMerged lines_ok i st m of
        Inl _ \<Rightarrow> Inl QueryFailed
      | Inr rs \<Rightarrow>
          (let n = int32 (int (length rs));
               (s, e) = page_bounds n start end0
           in case slice s e rs of
                None \<Rightarrow> Inl SlicePanic
              | Some page \<Rightarrow>
                  (let fin = (case Get i m of
                         Some j \<Rightarrow> j_State j \<noteq> StateRunning
                       | None \<Rightarrow> (case jobState job_ok i m of
                            Inr (Some row) \<Rightarrow> row_State row \<noteq> StateRunning
                          | _ \<Rightarrow> False))
                   in Inr \<lparr>op_lines = lines_text page, op_total = n, op_start = s, op_end = e,
                           op_done = fin\<rparr>)))"

definition ReplayTail :: "bool \<Rightarrow> string \<Rightarrow> nat \<Rightarrow> manager \<Rightarrow> string list" where
  "ReplayTail ok i n m =
     (case readMerged ok i (- 1) m of Inl _ \<Rightarrow> [] | Inr rs \<Rightarrow> lines_text (lastn n rs))"

subsection \<open>The registry keeps its keys\<close>

definition registry_inv :: "manager \<Rightarrow> bool" where
  "registry_inv m \<longleftrightarrow> distinct (map fst (m_jobs m)) \<and> (\<forall>(i, j) \<in> set (m_jobs m). j_ID j = i)"

lemma registry_inv_new [inv_intros]: "registry_inv (NewManager s ml rp)"
  by (simp add: registry_inv_def NewManager_def)

lemma set_update_subset: "set (AList.update i j al) \<subseteq> insert (i, j) (set al)"
  by (induction al) auto

lemma registry_inv_Execute [inv_intros]:
  "registry_inv m \<Longrightarrow> Execute b now ok command m = (i, m') \<Longrightarrow> registry_inv m'"
  using set_update_subset [of i "new_job (m_memLines m) i command now" "m_jobs m"]
  by (auto simp: registry_inv_def Execute_def Let_def new_job_def distinct_update)

lemma registry_inv_Prune [inv_intros]: "registry_inv m \<Longrightarrow> registry_inv (Prune a now m)"
  by (auto simp: registry_inv_def Prune_def Let_def distinct_map_filter)

end
