(* ===== verification/JobQueries.thy ===== *)
theory JobQueries
  imports Jobs
begin

text \<open>
  What the registry's queries return (\<open>readMerged\<close>, \<open>OutputLines\<close>, \<open>ReplayTail\<close>,
  \<open>List\<close>, \<open>Prune\<close> of \<open>internal/jobsvc/manager.go\<close>): the merge of the persisted
  history with the ring, pagination, and the merge of the two job lists.
\<close>

subsection \<open>Merging the history with the ring\<close>

lemma max_seq_fold_ge:
  "a \<le> fold (\<lambda>r m. if Seq r > m then Seq r else m) rs a \<and>
   (\<forall>r \<in> set rs. Seq r \<le> fold (\<lambda>r m. if Seq r > m then Seq r else m) rs a)"
proof (induction rs arbitrary: a)
  case (Cons r rs)
  from Cons.IH [of "Seq r"] Cons.IH [of a] show ?case by auto
qed simp

lemma max_seq_fold_less:
  "a < x \<Longrightarrow> \<forall>r \<in> set rs. Seq r < x \<Longrightarrow> fold (\<lambda>r m. if Seq r > m then Seq r else m) rs a < x"
  by (induction rs arbitrary: a) simp_all

lemma max_seq_ge: "r \<in> set rs \<Longrightarrow> Seq r \<le> max_seq rs"
  using max_seq_fold_ge [of 0 rs] by (simp add: max_seq_def)

lemma max_seq_less: "0 < x \<Longrightarrow> \<forall>r \<in> set rs. Seq r < x \<Longrightarrow> max_seq rs < x"
  unfolding max_seq_def by (rule max_seq_fold_less)

lemma sorted_records_unique:
  assumes "sorted_wrt (<) (map Seq xs)" "sorted_wrt (<) (map Seq ys)" "set xs = set ys"
  shows "xs = ys"
proof -
  have "map Seq xs = map Seq ys"
    using assms by (intro strict_sorted_equal) simp_all
  moreover have "inj_on Seq (set xs \<union> set ys)"
    using assms by (simp add: strict_sorted_iff distinct_map)
  ultimately show ?thesis by (rule inj_on_map_eq_map [THEN iffD1, rotated])
qed

lemma sort_recs_strict: "distinct (map Seq rs) \<Longrightarrow> sorted_wrt (<) (map Seq (sort_recs rs))"
proof -
  assume d: "distinct (map Seq rs)"
  have "mset (map Seq (sort_recs rs)) = mset (map Seq rs)" by (simp add: sort_recs_def)
  then have "distinct (map Seq (sort_recs rs))"
    by (rule mset_eq_imp_distinct_iff [THEN iffD2]) (rule d)
  moreover have "sorted (map Seq (sort_recs rs))" by (simp add: sort_recs_def)
  ultimately show ?thesis by (simp add: strict_sorted_iff)
qed

definition ring_recs :: "int \<Rightarrow> job \<Rightarrow> line_rec list" where
  "ring_recs st j =
     (if st = StreamStdout \<or> st < 0 then lb_Recs (j_Stdout j) else []) @
     (if st = StreamStderr \<or> st < 0 then lb_Recs (j_Stderr j) else [])"

lemma readMerged_live:
  "Get i m = Some j \<Longrightarrow>
   readMerged True i st m = Inr (let p = sql_query_lines i st (db (m_store m)) in
     p @ sort_recs (filter (\<lambda>r. Seq r > max_seq p) (ring_recs st j)))"
  by (simp add: readMerged_def QueryLines_def ring_recs_def Let_def)

text \<open>
  Let \<open>H\<close> be the records of the stream in sequence order. If what is persisted is part
  of \<open>H\<close> and every other record of \<open>H\<close> is still in the ring and newer than all that is
  persisted, the merge is \<open>H\<close>.
\<close>

lemma merge_window:
  assumes p: "sorted_wrt (<) (map Seq p)"
    and H: "sorted_wrt (<) (map Seq H)" "set p \<subseteq> set H"
    and R: "set rs \<subseteq> set H" "distinct (map Seq rs)"
    and cover: "\<forall>r \<in> set H. r \<in> set p \<or> (r \<in> set rs \<and> max_seq p < Seq r)"
  shows "p @ sort_recs (filter (\<lambda>r. Seq r > max_seq p) rs) = H"
proof (rule sorted_records_unique [OF _ H(1)])
  let ?k = "filter (\<lambda>r. Seq r > max_seq p) rs"
  have "sorted_wrt (<) (map Seq (sort_recs ?k))"
    by (rule sort_recs_strict) (use R(2) in \<open>simp add: distinct_map_filter\<close>)
  moreover have "\<forall>a \<in> set p. \<forall>b \<in> set (sort_recs ?k). Seq a < Seq b"
    using max_seq_ge [of _ p] by (force simp: sort_recs_def)
  ultimately show "sorted_wrt (<) (map Seq (p @ sort_recs ?k))"
    using p by (simp add: sorted_wrt_append)
  show "set (p @ sort_recs ?k) = set H"
    using H(2) R(1) cover by (auto simp: sort_recs_def)
qed

lemma readMerged_window:
  assumes "Get i m = Some j" "db_inv (db (m_store m))"
    and "sorted_wrt (<) (map Seq H)"
    and "set (sql_query_lines i st (db (m_store m))) \<subseteq> set H"
    and "set (ring_recs st j) \<subseteq> set H" "distinct (map Seq (ring_recs st j))"
    and "\<forall>r \<in> set H. r \<in> set (sql_query_lines i st (db (m_store m))) \<or>
      (r \<in> set (ring_recs st j) \<and> max_seq (sql_query_lines i st (db (m_store m))) < Seq r)"
  shows "readMerged True i st m = Inr H"
  using merge_window [OF sorted_query_lines [OF assms(2)] assms(3-7)]
  by (simp add: readMerged_live [OF assms(1)] Let_def)

subsection \<open>Pages\<close>

lemma page_bounds_spec:
  assumes "0 \<le> n" "n < 2 ^ 31" "- (2 ^ 31) \<le> start"
  shows "page_bounds n start end0 =
    (let lo = (if start \<ge> 0 then min start n else max 0 (n + start));
         hi = (if end0 \<le> 0 then n else min end0 n) in (lo, max lo hi))"
proof (cases "start < 0")
  case True
  with assms have "int32 (n + start) = n + start" by (intro int32_id) simp_all
  with True assms show ?thesis by (auto simp: page_bounds_def Let_def max_def min_def)
next
  case False
  with assms show ?thesis by (auto simp: page_bounds_def Let_def max_def min_def)
qed

lemma slice_eq: "0 \<le> s \<Longrightarrow> s \<le> e \<Longrightarrow> e \<le> int (length xs) \<Longrightarrow>
    slice s e xs = Some (drop (nat s) (take (nat e) xs))"
  by (simp add: slice_def drop_take nat_diff_distrib)

definition job_finished :: "bool \<Rightarrow> string \<Rightarrow> manager \<Rightarrow> bool" where
  "job_finished ok i m =
     (case jobState ok i m of Inr (Some row) \<Rightarrow> row_State row \<noteq> StateRunning | _ \<Rightarrow> False)"

lemma OutputLines_page:
  assumes "readMerged lok i st m = Inr rs" "int (length rs) < 2 ^ 31" "- (2 ^ 31) \<le> start"
  shows "OutputLines lok jok i st start end0 m =
    (let n = int (length rs);
         lo = (if start \<ge> 0 then min start n else max 0 (n + start));
         hi = (if end0 \<le> 0 then n else min end0 n)
     in Inr \<lparr>op_lines = drop (nat lo) (take (nat hi) (lines_text rs)), op_total = n, op_start = lo,
             op_end = max lo hi, op_done = job_finished jok i m\<rparr>)"
proof -
  let ?n = "int (length rs)"
  define lo where "lo = (if start \<ge> 0 then min start ?n else max 0 (?n + start))"
  define hi where "hi = (if end0 \<le> 0 then ?n else min end0 ?n)"
  have n: "int32 ?n = ?n" using assms(2) by (intro int32_id) simp_all
  have b: "0 \<le> lo" "lo \<le> ?n" "0 \<le> hi" "hi \<le> ?n" by (auto simp: lo_def hi_def)
  have pb: "page_bounds ?n start end0 = (lo, max lo hi)"
    using page_bounds_spec [of ?n start end0] assms(2,3) by (simp add: Let_def lo_def hi_def)
  have sl: "slice lo (max lo hi) rs = Some (drop (nat lo) (take (nat (max lo hi)) rs))"
    using b by (intro slice_eq) auto
  have "drop (nat lo) (take (nat (max lo hi)) rs) = drop (nat lo) (take (nat hi) rs)"
    using b by (cases "lo \<le> hi") (simp_all add: max_def)
  moreover have "(case Get i m of Some j \<Rightarrow> j_State j \<noteq> StateRunning
      | None \<Rightarrow> (case jobState jok i m of Inr (Some row) \<Rightarrow> row_State row \<noteq> StateRunning | _ \<Rightarrow> False))
      = job_finished jok i m"
    by (simp add: job_finished_def jobState_def row_of_job_def split: option.split)
  ultimately show ?thesis
    by (simp add: OutputLines_def assms(1) n pb sl Let_def lines_text_def drop_map take_map
        lo_def [symmetric] hi_def [symmetric])
qed

subsection \<open>Listing\<close>

lemma sql_limit_take: "0 \<le> n \<Longrightarrow> sql_limit n xs = take (nat n) xs"
  by (simp add: sql_limit_def)

lemma newest_first_set: "newest_first ord \<Longrightarrow> set (ord xs) = set xs"
  unfolding newest_first_def by (metis set_mset_mset)

lemma newest_first_distinct:
  "newest_first ord \<Longrightarrow> distinct (map row_ID (ord xs)) = distinct (map row_ID xs)"
  unfolding newest_first_def by (metis mset_eq_imp_distinct_iff mset_map)

lemma distinct_merge_rows:
  assumes "distinct (map row_ID rows)" "distinct (map j_ID js)"
  shows "distinct (map row_ID (merge_rows rows js))"
proof -
  have "map row_ID (map row_of_job js') = map j_ID js'" for js'
    by (simp add: row_of_job_def)
  with assms show ?thesis
    by (auto simp: merge_rows_def row_of_job_def distinct_map_filter comp_def) (metis imageI)
qed

lemma registry_IDs: "registry_inv m \<Longrightarrow> map j_ID (map snd (m_jobs m)) = map fst (m_jobs m)"
  by (auto simp: registry_inv_def)

lemma Get_iff: "registry_inv m \<Longrightarrow> Get i m = Some j \<longleftrightarrow> (i, j) \<in> set (m_jobs m)"
  by (simp add: registry_inv_def Get_def map_of_eq_Some_iff)

lemma Prune_Get:
  assumes "registry_inv m"
  shows "Get i (Prune a now m) =
    Option.bind (Get i m) (\<lambda>j. if prunable (now - a) j then None else Some j)"
proof -
  have "map_of (filter (\<lambda>(i, j). \<not> P j) xs) i = Option.bind (map_of xs i) (\<lambda>j. if P j then None else Some j)"
    if "distinct (map fst xs)" for P :: "job \<Rightarrow> bool" and xs
    using that
  proof (induction xs)
    case (Cons x xs)
    then have "map_of xs (fst x) = None" by (simp add: map_of_eq_None_iff)
    with Cons show ?case by (auto simp: split_def)
  qed simp
  with assms show ?thesis by (simp add: Get_def Prune_def registry_inv_def Let_def)
qed

subsection \<open>Properties\<close>

text \<open>
  C21. Pagination is total and exact. For a history shorter than \<open>2^31\<close> lines and any
  32-bit bounds, \<open>OutputLines\<close> never slices out of range: it returns the total, the window
  that starts at the requested line (counted from the end when negative, clamped to the
  history) and ends at the exclusive bound (the end when it is not positive), and whether
  the job is finished.
\<close>

theorem output_page_is_the_window:
  assumes "readMerged lok i st m = Inr rs" and "int (length rs) < 2 ^ 31" and "- (2 ^ 31) \<le> start"
  shows "\<exists>p. OutputLines lok jok i st start end0 m = Inr p \<and> op_total p = int (length rs) \<and>
    op_start p = (if start \<ge> 0 then min start (op_total p) else max 0 (op_total p + start)) \<and>
    op_end p = max (op_start p) (if end0 \<le> 0 then op_total p else min end0 (op_total p)) \<and>
    0 \<le> op_start p \<and> op_start p \<le> op_end p \<and> op_end p \<le> op_total p \<and>
    op_lines p = map Line (drop (nat (op_start p)) (take (nat (op_end p)) rs)) \<and>
    op_done p = job_finished jok i m"
proof -
  let ?n = "int (length rs)"
  define lo where "lo = (if start \<ge> 0 then min start ?n else max 0 (?n + start))"
  define hi where "hi = (if end0 \<le> 0 then ?n else min end0 ?n)"
  have b: "0 \<le> lo" "lo \<le> ?n" "0 \<le> hi" "hi \<le> ?n" by (auto simp: lo_def hi_def)
  then have "drop (nat lo) (take (nat hi) rs) = drop (nat lo) (take (nat (max lo hi)) rs)"
    by (cases "lo \<le> hi") (simp_all add: max_def)
  moreover have "OutputLines lok jok i st start end0 m = Inr \<lparr>op_lines = drop (nat lo) (take (nat hi)
      (lines_text rs)), op_total = ?n, op_start = lo, op_end = max lo hi, op_done = job_finished jok i m\<rparr>"
    using OutputLines_page [OF assms, of jok end0] unfolding Let_def lo_def hi_def .
  moreover have "lo \<le> max lo hi" "max lo hi \<le> ?n" using b by simp_all
  ultimately show ?thesis
    using b(1) by (intro exI [of _ "\<lparr>op_lines = drop (nat lo) (take (nat hi) (lines_text rs)),
        op_total = ?n, op_start = lo, op_end = max lo hi, op_done = job_finished jok i m\<rparr>"])
      (simp only: output_page.select_convs lines_text_def drop_map take_map lo_def [symmetric]
        hi_def [symmetric] refl simp_thms)
qed

theorem output_page_is_the_window_witness:
  "\<exists>p. OutputLines True True ''j'' (- 1) (- 1) 0 \<lparr>m_store = new_store \<lparr>db_jobs = [],
      db_lines = [sample_line, sample_line\<lparr>sl_seq := 2, sl_line := ''two''\<rparr>]\<rparr>, m_memLines = 10,
      m_replay = 10, m_jobs = []\<rparr> = Inr p \<and> op_lines p = [''two''] \<and> op_start p = 1"
proof -
  let ?m = "\<lparr>m_store = new_store \<lparr>db_jobs = [],
      db_lines = [sample_line, sample_line\<lparr>sl_seq := 2, sl_line := ''two''\<rparr>]\<rparr>, m_memLines = 10,
      m_replay = 10, m_jobs = []\<rparr>"
  have "readMerged True ''j'' (- 1) ?m = Inr [LineRec 1 ''out'', LineRec 2 ''two'']"
    by (simp add: readMerged_def QueryLines_def Get_def sql_query_lines_def new_store_def sample_line_def
        stream_matches_def rec_of_line_def Let_def)
  from output_page_is_the_window [OF this, of "- 1" True 0] show ?thesis by auto
qed

text \<open>
  Consecutive pages tile the history: the page up to a line and the page from it on
  meet at the same line number and together hold every line exactly once.
\<close>

theorem consecutive_pages_tile:
  assumes "readMerged lok i st m = Inr rs" and "int (length rs) < 2 ^ 31" and "0 < k"
  shows "\<exists>p q. OutputLines lok jok i st 0 k m = Inr p \<and> OutputLines lok jok' i st k 0 m = Inr q \<and>
    op_end p = op_start q \<and> op_lines p @ op_lines q = lines_text rs"
proof -
  have "take (nat (min k (int (length rs)))) (lines_text rs) = take (nat k) (lines_text rs)"
    by (cases "k \<le> int (length rs)") (simp_all add: lines_text_def min_def)
  moreover have "drop (nat (min k (int (length rs)))) (lines_text rs) = drop (nat k) (lines_text rs)"
    by (cases "k \<le> int (length rs)") (simp_all add: lines_text_def min_def)
  ultimately show ?thesis
    using OutputLines_page [OF assms(1,2), of 0 jok k] OutputLines_page [OF assms(1,2), of k jok' 0] assms(3)
    by (simp add: Let_def) (simp add: lines_text_def)
qed

theorem consecutive_pages_tile_witness:
  "\<exists>p q. OutputLines True True ''j'' (- 1) 0 1 (NewManager sample_store 0 0) = Inr p \<and>
     OutputLines True True ''j'' (- 1) 1 0 (NewManager sample_store 0 0) = Inr q \<and>
     op_lines p @ op_lines q = []"
proof -
  have "readMerged True ''j'' (- 1) (NewManager sample_store 0 0) = Inr []"
    by (simp add: readMerged_def QueryLines_def Get_def sql_query_lines_def NewManager_def
        sample_store_row Let_def)
  from consecutive_pages_tile [OF this, of 1 True True] show ?thesis by (auto simp: lines_text_def)
qed

lemma take_sorted_dominates:
  assumes "sorted_wrt (\<lambda>a b. (key a :: int) \<ge> key b) mg" "distinct rows" "set rows \<subseteq> set mg" "length rows = n"
    and "\<forall>x \<in> set rows. k \<le> key x" "l \<in> set (take n mg)"
  shows "k \<le> key l"
proof (rule ccontr)
  assume less: "\<not> k \<le> key l"
  from assms(6) obtain i where i: "i < n" "i < length mg" "l = mg ! i" by (auto simp: in_set_conv_nth)
  have "set rows \<subseteq> set (take i mg)"
  proof
    fix x assume x: "x \<in> set rows"
    with assms(3) have "x \<in> set mg" by blast
    then obtain j where j: "j < length mg" "x = mg ! j" by (auto simp: in_set_conv_nth)
    have "j < i"
    proof (rule ccontr)
      assume "\<not> j < i"
      with assms(1) j i have "key x \<le> key l" by (cases "j = i") (auto simp: sorted_wrt_iff_nth_less)
      with assms(5) x less show False by auto
    qed
    with j show "x \<in> set (take i mg)" by (auto simp: in_set_conv_nth)
  qed
  then have "card (set rows) \<le> length (take i mg)" by (meson card_length card_mono finite_set le_trans)
  with assms(2,4) i(1) show False by (simp add: distinct_card)
qed

lemma merged_length:
  assumes "distinct (map row_ID rows)" "distinct (map j_ID js)"
  shows "length (merge_rows rows js) = card (row_ID ` set rows \<union> j_ID ` set js)"
proof -
  have "map row_ID (merge_rows rows js) = map row_ID rows @ map j_ID (filter (\<lambda>j. j_ID j \<notin> set (map row_ID rows)) js)"
    by (simp add: merge_rows_def row_of_job_def comp_def)
  moreover have "set \<dots> = row_ID ` set rows \<union> j_ID ` set js" by auto
  ultimately have "row_ID ` set (merge_rows rows js) = row_ID ` set rows \<union> j_ID ` set js"
    by (metis list.set_map)
  then show ?thesis
    using distinct_merge_rows [OF assms] by (metis distinct_card length_map list.set_map)
qed

text \<open>
  C39. The job list is the newest of both worlds. It has exactly as many entries as there are
  jobs in the database and the registry together, or as were requested (500 by default) if
  there are more; newest first and one per job. Each is a row of the database, among the
  newest of it, or the row of a live job these do not contain, so the store wins over the
  registry (the comment in \<open>List\<close> says memory is fresher); and no job of either that is left
  out is newer than one listed.
\<close>

theorem job_list_is_newest_first:
  assumes "newest_first sql_ord" and "newest_first go_ord" and "registry_inv m"
    and "db_inv (db (m_store m))"
  shows "let n = (if limit \<le> 0 then 500 else limit);
             stored = db_jobs (db (m_store m));
             rows = take (nat n) (sql_ord stored);
             live = map snd (m_jobs m);
             fresh = row_of_job ` {j \<in> set live. j_ID j \<notin> row_ID ` set rows};
             out = ListJobs sql_ord go_ord True limit m
         in int (length out) = min n (int (card (row_ID ` set stored \<union> j_ID ` set live))) \<and>
            sorted_wrt (\<lambda>a b. row_StartedAt a \<ge> row_StartedAt b) out \<and>
            distinct (map row_ID out) \<and> set out \<subseteq> set rows \<union> fresh \<and>
            (\<forall>r \<in> (set stored \<union> fresh) - set out. \<forall>l \<in> set out. row_StartedAt r \<le> row_StartedAt l)"
proof -
  define n where "n = (if limit \<le> 0 then 500 else limit)"
  define stored where "stored = db_jobs (db (m_store m))"
  define rows where "rows = take (nat n) (sql_ord stored)"
  define live where "live = map snd (m_jobs m)"
  define mg where "mg = go_ord (merge_rows rows live)"
  define fresh where "fresh = row_of_job ` {j \<in> set live. j_ID j \<notin> row_ID ` set rows}"
  have n: "0 < n" by (simp add: n_def)
  have out: "ListJobs sql_ord go_ord True limit m = take (nat n) mg"
    using n by (simp add: ListJobs_def QueryJobs_def n_def [symmetric] rows_def live_def mg_def
        stored_def sql_limit_take Let_def)
  have ordset: "set (sql_ord stored) = set stored" "length (sql_ord stored) = length stored"
    using assms(1) by (simp_all add: newest_first_def mset_eq_setD [of "sql_ord stored"] mset_eq_length [of "sql_ord stored"])
  have mgset: "set mg = set (merge_rows rows live)" "length mg = length (merge_rows rows live)"
    using assms(2) unfolding mg_def newest_first_def by (metis mset_eq_setD, metis mset_eq_length)
  have ds: "distinct (map row_ID (sql_ord stored))"
    using assms(4) newest_first_distinct [OF assms(1)] by (simp add: stored_def db_inv_def)
  then have dr: "distinct (map row_ID rows)" by (simp add: rows_def take_map [symmetric])
  have dl: "distinct (map j_ID live)"
    using assms(3) unfolding live_def registry_IDs [OF assms(3)] by (simp add: registry_inv_def)
  have 1: "distinct (map row_ID (take (nat n) mg))"
    using newest_first_distinct [OF assms(2)] distinct_merge_rows [OF dr dl]
    by (simp add: mg_def take_map [symmetric])
  have srt: "sorted_wrt (\<lambda>a b. row_StartedAt a \<ge> row_StartedAt b) mg"
    using assms(2) by (simp add: newest_first_def mg_def)
  have 3: "set mg = set rows \<union> fresh" by (auto simp: mgset merge_rows_def fresh_def)
  have len: "length mg = card (row_ID ` set rows \<union> j_ID ` set live)"
    by (simp add: mgset merged_length [OF dr dl])
  have 4: "int (length (take (nat n) mg)) = min n (int (card (row_ID ` set stored \<union> j_ID ` set live)))"
  proof (cases "nat n \<le> length stored")
    case True
    then have "card (row_ID ` set rows) = nat n"
      using distinct_card [OF dr] by (simp add: rows_def ordset(2))
    moreover have "row_ID ` set rows \<subseteq> row_ID ` set stored"
      using set_take_subset [of "nat n" "sql_ord stored"] by (auto simp: rows_def ordset(1))
    ultimately have "nat n \<le> length mg" "nat n \<le> card (row_ID ` set stored \<union> j_ID ` set live)"
      unfolding len by (metis card_mono finite_UnI finite_imageI finite_set sup_ge1, 
        metis card_mono finite_UnI finite_imageI finite_set le_supI1)
    then show ?thesis using n by simp
  next
    case False
    then have "set rows = set stored" by (simp add: rows_def ordset)
    then show ?thesis using n by (simp add: len min_def) linarith
  qed
  have 5: "row_StartedAt r \<le> row_StartedAt l" if r: "r \<in> (set stored \<union> fresh) - set (take (nat n) mg)"
    and l: "l \<in> set (take (nat n) mg)" for r l
  proof (cases "r \<in> set mg")
    case True
    with r have "r \<in> set (drop (nat n) mg)" by (metis DiffE Un_iff append_take_drop_id set_append)
    with srt l show ?thesis by (metis append_take_drop_id sorted_wrt_append)
  next
    case False
    with r 3 have d: "r \<in> set (drop (nat n) (sql_ord stored))"
      by (metis DiffE UnE UnI1 UnI2 append_take_drop_id ordset(1) rows_def set_append)
    then have "nat n < length (sql_ord stored)" by (metis drop_eq_Nil empty_iff empty_set not_le)
    then have "length rows = nat n" by (simp add: rows_def)
    moreover have "\<forall>x \<in> set rows. row_StartedAt r \<le> row_StartedAt x"
      using assms(1) d unfolding rows_def newest_first_def by (metis append_take_drop_id sorted_wrt_append)
    ultimately show ?thesis
      using take_sorted_dominates [OF srt _ _ _ _ l, of rows] dr 3 by (simp add: distinct_map)
  qed
  show ?thesis
    unfolding Let_def out n_def [symmetric] rows_def [symmetric] live_def [symmetric] stored_def [symmetric]
      fresh_def [symmetric]
    using 1 3 4 5 sorted_wrt_take [OF srt] set_take_subset [of "nat n" mg] by auto
qed

definition list_manager :: manager where
  "list_manager = (NewManager sample_store 0 0)\<lparr>m_jobs := [(''k'', new_job 10 ''k'' ''pwd'' 9), (''i'', new_job 10 ''i'' ''id'' 2)]\<rparr>"

theorem job_list_is_newest_first_witness:
  "let out = ListJobs (sort_key (\<lambda>r. - row_StartedAt r)) (sort_key (\<lambda>r. - row_StartedAt r)) True 2 list_manager
   in map row_ID out = [''k'', ''j''] \<and> length out = 2"
proof -
  let ?ord = "sort_key (\<lambda>r. - row_StartedAt r)"
  have "db_inv (db (m_store list_manager))" "registry_inv list_manager"
    by (simp_all add: list_manager_def NewManager_def sample_store_row db_inv_def registry_inv_def new_job_def)
  from job_list_is_newest_first [OF newest_first_sort newest_first_sort this(2,1), of 2]
  have "length (ListJobs ?ord ?ord True 2 list_manager) = 2"
    by (simp add: Let_def list_manager_def NewManager_def sample_store_row new_job_def)
  moreover have "map row_ID (ListJobs ?ord ?ord True 2 list_manager) = [''k'', ''j'']"
    by (simp add: ListJobs_def list_manager_def NewManager_def QueryJobs_def sql_limit_def sample_store_row
        merge_rows_def new_job_def row_of_job_def)
  ultimately show ?thesis by (simp add: Let_def)
qed

end
