(* ===== verification/JobRun.thy ===== *)
theory JobRun
  imports JobQueries
begin

text \<open>
  The life of one job: the goroutine \<open>Execute\<close> starts in
  \<open>internal/jobsvc/manager.go\<close>, the writers that feed the job's two line buffers, the
  callbacks that publish and persist each completed line, the store's writer, the requests
  that subscribe, send input and kill, and the hourly retention of the manager. Each label is
  one atomic step of one goroutine (the body of one critical section, or one channel
  operation), so a run is an interleaving of all of them. A write of the command may be cut
  into several \<open>LWrite\<close> steps of the same thread, because the buffers of the two streams have
  different locks and share the sequence counter. \<open>LSubscribe\<close> is the last part of
  \<open>Subscribe\<close>, the registration of the channel; the two rings it copies before are read at
  earlier states of the run. The events on the way are what a run does outside the job's own
  state; a blank line, which \<open>publishLine\<close> does not send, has an event of its own. The
  interpreter itself is not under src: when it writes, what, and with which result it returns
  are the arguments of the labels.
\<close>

subsection \<open>State and labels\<close>

text \<open>A completed line whose callback is still due: published already, or not yet.\<close>

datatype pend = Pend (p_stream: int) (p_pub: bool) (p_rec: line_rec)

text \<open>Where the job's goroutine is: after \<open>RunWithEnv\<close>, each flush, and so on.\<close>

datatype phase =
    Running
  | Returned "string option" int
  | FlushedOut "string option" int
  | FlushedErr "string option" int
  | Judged job_state
  | Marked
  | Stated
  | Recorded
  | SubsClosed
  | PipeClosed
  | Exited

record jsys =
  sy_job :: job
  sy_store :: store
  sy_threads :: "pend list list"
  sy_phase :: phase

datatype label =
    LWrite nat int bytes
  | LPublish nat
  | LPersist nat
  | LReturn "string option" int
  | LMain int
  | LSubscribe
  | LReceive nat
  | LKill
  | LStdin bytes bool nat
  | LStore job_ev
  | LOtherLine string int int string
  | LOtherFinish string job_state int int
  | LRetain retention_env int

datatype ev =
    EvRecord int line_rec
  | EvPublish int line_rec
  | EvBlank int line_rec
  | EvOffer bool store_line
  | EvFinish bool job_state int
  | EvReceive nat string
  | EvStore job_ev
  | EvRetain bool

datatype outcome = Blocked | Panics | Goes "ev list" jsys

subsection \<open>The steps\<close>

definition write_stream :: "int \<Rightarrow> bytes \<Rightarrow> job \<Rightarrow> line_rec list \<times> job" where
  "write_stream st p j =
     (if st = StreamStdout
      then let ((_, rs), (lb, q)) = lb_Write p (j_Stdout j, j_seq j) in (rs, j\<lparr>j_Stdout := lb, j_seq := q\<rparr>)
      else let ((_, rs), (lb, q)) = lb_Write p (j_Stderr j, j_seq j) in (rs, j\<lparr>j_Stderr := lb, j_seq := q\<rparr>))"

definition flush_stream :: "int \<Rightarrow> job \<Rightarrow> line_rec list \<times> job" where
  "flush_stream st j =
     (if st = StreamStdout
      then let (r, (lb, q)) = lb_FlushLine (j_Stdout j, j_seq j)
           in ((case r of None \<Rightarrow> [] | Some x \<Rightarrow> [x]), j\<lparr>j_Stdout := lb, j_seq := q\<rparr>)
      else let (r, (lb, q)) = lb_FlushLine (j_Stderr j, j_seq j)
           in ((case r of None \<Rightarrow> [] | Some x \<Rightarrow> [x]), j\<lparr>j_Stderr := lb, j_seq := q\<rparr>))"

definition add_pending :: "nat \<Rightarrow> int \<Rightarrow> line_rec list \<Rightarrow> pend list list \<Rightarrow> pend list list" where
  "add_pending t st rs ts =
     (if t < length ts then ts[t := ts ! t @ map (Pend st False) rs]
      else ts @ [map (Pend st False) rs])"

text \<open>\<open>publishLine\<close> sends nothing for a blank line.\<close>

definition publish_event :: "int \<Rightarrow> line_rec \<Rightarrow> ev" where
  "publish_event st r = (if Line r = '''' then EvBlank st r else EvPublish st r)"

text \<open>The lines of one job that are in the database.\<close>

definition lines_in_db :: "string \<Rightarrow> store \<Rightarrow> store_line list" where
  "lines_in_db i st = filter (\<lambda>l. sl_jobID l = i) (db_lines (db st))"

definition store_line_of :: "string \<Rightarrow> int \<Rightarrow> line_rec \<Rightarrow> store_line" where
  "store_line_of i st r = \<lparr>sl_jobID = i, sl_seq = Seq r, sl_stream = st, sl_line = Line r\<rparr>"

text \<open>The job's own goroutine is thread 0; it waits for the callbacks of its own writes.\<close>

definition main_step :: "int \<Rightarrow> jsys \<Rightarrow> outcome" where
  "main_step now s =
     (let j = sy_job s; emit = (\<lambda>st rs. map (EvRecord st) rs) in
      if sy_threads s ! 0 \<noteq> [] then Blocked
      else case sy_phase s of
        Running \<Rightarrow> Blocked
      | Returned e x \<Rightarrow>
          (let (rs, j') = flush_stream StreamStdout j
           in Goes (emit StreamStdout rs) (s\<lparr>sy_job := j', sy_phase := FlushedOut e x,
                sy_threads := add_pending 0 StreamStdout rs (sy_threads s)\<rparr>))
      | FlushedOut e x \<Rightarrow>
          (let (rs, j') = flush_stream StreamStderr j
           in Goes (emit StreamStderr rs) (s\<lparr>sy_job := j', sy_phase := FlushedErr e x,
                sy_threads := add_pending 0 StreamStderr rs (sy_threads s)\<rparr>))
      | FlushedErr e x \<Rightarrow>
          (let (state, code) = job_outcome e (j_cancelled j) x;
               (rs, j') = (case e of None \<Rightarrow> ([], j)
                           | Some msg \<Rightarrow> write_stream StreamStderr (shell_error_text msg) j)
           in Goes (emit StreamStderr rs) (s\<lparr>sy_job := j'\<lparr>j_ExitCode := code\<rparr>, sy_phase := Judged state,
                sy_threads := add_pending 0 StreamStderr rs (sy_threads s)\<rparr>))
      | Judged state \<Rightarrow>
          Goes [] (s\<lparr>sy_job := j\<lparr>j_State := state\<rparr>, sy_phase := Marked\<rparr>)
      | Marked \<Rightarrow> Goes [] (s\<lparr>sy_job := j\<lparr>j_FinishedAt := now\<rparr>, sy_phase := Stated\<rparr>)
      | Stated \<Rightarrow>
          Goes [EvFinish (length (ch (sy_store s)) < channelCap) (j_State j) (j_ExitCode j)]
            (s\<lparr>sy_store := FinishJob (j_ID j) (j_State j) (j_ExitCode j) (j_FinishedAt j) (sy_store s),
               sy_phase := Recorded\<rparr>)
      | Recorded \<Rightarrow>
          (case finishSubs j of None \<Rightarrow> Panics
           | Some j' \<Rightarrow> Goes [] (s\<lparr>sy_job := j', sy_phase := SubsClosed\<rparr>))
      | SubsClosed \<Rightarrow> Goes [] (s\<lparr>sy_job := j\<lparr>j_stdin_closed := True\<rparr>, sy_phase := PipeClosed\<rparr>)
      | PipeClosed \<Rightarrow> Goes [] (s\<lparr>sy_job := j\<lparr>j_done := True\<rparr>, sy_phase := Exited\<rparr>)
      | Exited \<Rightarrow> Blocked)"

fun jstep :: "label \<Rightarrow> jsys \<Rightarrow> outcome" where
  "jstep (LWrite t st p) s =
     (if t = 0 \<or> t > length (sy_threads s) \<or> st \<notin> {StreamStdout, StreamStderr} then Blocked
      else let (rs, j') = write_stream st p (sy_job s)
           in Goes (map (EvRecord st) rs)
                (s\<lparr>sy_job := j', sy_threads := add_pending t st rs (sy_threads s)\<rparr>))"
| "jstep (LPublish t) s =
     (if t \<ge> length (sy_threads s) then Blocked
      else case sy_threads s ! t of
        Pend st False r # rest \<Rightarrow>
          (case publishLine (Line r) (sy_job s) of
             None \<Rightarrow> Panics
           | Some j' \<Rightarrow> Goes [publish_event st r]
               (s\<lparr>sy_job := j', sy_threads := (sy_threads s)[t := Pend st True r # rest]\<rparr>))
      | _ \<Rightarrow> Blocked)"
| "jstep (LPersist t) s =
     (if t \<ge> length (sy_threads s) then Blocked
      else case sy_threads s ! t of
        Pend st True r # rest \<Rightarrow>
          Goes [EvOffer (length (ch (sy_store s)) < channelCap) (store_line_of (j_ID (sy_job s)) st r)]
            (s\<lparr>sy_store := TryEnqueueLine (j_ID (sy_job s)) (Seq r) st (Line r) (sy_store s),
               sy_threads := (sy_threads s)[t := rest]\<rparr>)
      | _ \<Rightarrow> Blocked)"
| "jstep (LReturn e x) s =
     (if sy_phase s = Running then Goes [] (s\<lparr>sy_phase := Returned e x\<rparr>) else Blocked)"
| "jstep (LMain now) s = main_step now s"
| "jstep LSubscribe s = Goes [] (s\<lparr>sy_job := snd (registerSub (sy_job s))\<rparr>)"
| "jstep (LReceive c) s =
     (if c < length (j_chans (sy_job s)) then
        (case chan_buf (j_chans (sy_job s) ! c) of
           [] \<Rightarrow> Blocked
         | l # rest \<Rightarrow> Goes [EvReceive c l] (s\<lparr>sy_job := (sy_job s)\<lparr>j_chans :=
             (j_chans (sy_job s))[c := (j_chans (sy_job s) ! c)\<lparr>chan_buf := rest\<rparr>]\<rparr>\<rparr>))
      else Blocked)"
| "jstep LKill s = Goes [] (s\<lparr>sy_job := Kill (sy_job s)\<rparr>)"
| "jstep (LStdin data closeAfter taken) s =
     Goes [] (s\<lparr>sy_job := snd (Stdin data closeAfter taken (sy_job s))\<rparr>)"
| "jstep (LStore e) s =
     (if (case e of EvJob _ i _ _ \<Rightarrow> i = j_ID (sy_job s) | _ \<Rightarrow> False) then Blocked
      else case job_step e (sy_store s) of
        None \<Rightarrow> Blocked
      | Some st' \<Rightarrow> Goes [EvStore e] (s\<lparr>sy_store := st'\<rparr>))"
| "jstep (LOtherLine i sq st ln) s =
     (if i = j_ID (sy_job s) then Blocked
      else Goes [] (s\<lparr>sy_store := TryEnqueueLine i sq st ln (sy_store s)\<rparr>))"
| "jstep (LOtherFinish i st x t) s =
     (if i = j_ID (sy_job s) then Blocked
      else Goes [] (s\<lparr>sy_store := FinishJob i st x t (sy_store s)\<rparr>))"
| "jstep (LRetain env now) s =
     (let st' = snd (Retention env retentionHours now (sy_store s)); i = j_ID (sy_job s)
      in Goes [EvRetain (lines_in_db i st' = lines_in_db i (sy_store s))] (s\<lparr>sy_store := st'\<rparr>))"

text \<open>What a step with a given label tells about the state it starts from.\<close>

fun_cases SubscribeE: "jstep LSubscribe s = Goes es s'"
fun_cases StdinE: "jstep (LStdin d c t) s = Goes es s'"

lemma WriteE:
  assumes "jstep (LWrite t st p) s = Goes es s'"
  obtains rs j' where "write_stream st p (sy_job s) = (rs, j')" "t \<noteq> 0" "t \<le> length (sy_threads s)"
    "st \<in> {StreamStdout, StreamStderr}" "es = map (EvRecord st) rs"
    "s' = s\<lparr>sy_job := j', sy_threads := add_pending t st rs (sy_threads s)\<rparr>"
  using assms by (cases "write_stream st p (sy_job s)") (auto simp: not_less split: if_splits)

lemma PublishE:
  assumes "jstep (LPublish t) s = Goes es s'"
  obtains st r rest j' where "t < length (sy_threads s)" "sy_threads s ! t = Pend st False r # rest"
    "publishLine (Line r) (sy_job s) = Some j'" "es = [publish_event st r]"
    "s' = s\<lparr>sy_job := j', sy_threads := (sy_threads s)[t := Pend st True r # rest]\<rparr>"
  using assms by (auto split: if_splits list.splits pend.splits bool.splits option.splits)

lemma PersistE:
  assumes "jstep (LPersist t) s = Goes es s'"
  obtains st r rest where "t < length (sy_threads s)" "sy_threads s ! t = Pend st True r # rest"
    "es = [EvOffer (length (ch (sy_store s)) < channelCap) (store_line_of (j_ID (sy_job s)) st r)]"
    "s' = s\<lparr>sy_store := TryEnqueueLine (j_ID (sy_job s)) (Seq r) st (Line r) (sy_store s),
            sy_threads := (sy_threads s)[t := rest]\<rparr>"
  using assms by (auto split: if_splits list.splits pend.splits bool.splits option.splits)

lemma ReceiveE:
  assumes "jstep (LReceive c) s = Goes es s'"
  obtains l rest where "c < length (j_chans (sy_job s))" "chan_buf (j_chans (sy_job s) ! c) = l # rest"
    "es = [EvReceive c l]"
    "s' = s\<lparr>sy_job := (sy_job s)\<lparr>j_chans := (j_chans (sy_job s))
       [c := (j_chans (sy_job s) ! c)\<lparr>chan_buf := rest\<rparr>]\<rparr>\<rparr>"
  using assms by (auto split: if_splits list.splits)

text \<open>The state the goroutine starts in, and everything that can happen after.\<close>

definition start_sys :: "int \<Rightarrow> string \<Rightarrow> string \<Rightarrow> int \<Rightarrow> store \<Rightarrow> jsys" where
  "start_sys memLines i command now st =
     \<lparr>sy_job = new_job memLines i command now, sy_store = st, sy_threads = [[]], sy_phase = Running\<rparr>"

inductive jreach :: "jsys \<Rightarrow> ev list \<Rightarrow> jsys \<Rightarrow> bool" for s0 where
  start: "jreach s0 [] s0"
| step: "jreach s0 es s \<Longrightarrow> jstep l s = Goes es' s' \<Longrightarrow> jreach s0 (es @ es') s'"

fun jrun :: "label list \<Rightarrow> jsys \<Rightarrow> outcome" where
  "jrun [] s = Goes [] s"
| "jrun (l # ls) s =
     (case jstep l s of
        Goes es s' \<Rightarrow> (case jrun ls s' of Goes es' s'' \<Rightarrow> Goes (es @ es') s'' | o' \<Rightarrow> o')
      | o' \<Rightarrow> o')"

lemma jreach_trans: "jreach s0 es s \<Longrightarrow> jrun ls s = Goes es' s' \<Longrightarrow> jreach s0 (es @ es') s'"
proof (induction ls arbitrary: es s es')
  case (Cons l ls)
  then obtain e1 s1 e2 where 1: "jstep l s = Goes e1 s1" "jrun ls s1 = Goes e2 s'" "es' = e1 @ e2"
    by (auto split: outcome.splits)
  from Cons.IH [OF jreach.step [OF Cons.prems(1) 1(1)] 1(2)] 1(3) show ?case by simp
qed simp

lemma jreach_compose: "jreach s1 ys s2 \<Longrightarrow> jreach s0 xs s1 \<Longrightarrow> jreach s0 (xs @ ys) s2"
proof (induction rule: jreach.induct)
  case (step es s l es' s')
  then have "jreach s0 (xs @ es) s" by blast
  from jreach.step [OF this step.hyps(2)] show ?case by simp
qed simp

lemmas jrun_reach = jreach_trans [OF jreach.start, simplified]

end
