(* ===== verification/JobInv.thy ===== *)
theory JobInv
  imports JobRun
begin

text \<open>
  Invariants of a job's run: the history of completed lines, what is pending and what was
  handed to the store, what the store holds of it, and the state of the subscriber
  channels. Each is preserved by every label and so holds in every reachable state.
\<close>

subsection \<open>What a run's events say\<close>

fun history :: "ev list \<Rightarrow> (int \<times> line_rec) list" where
  "history [] = []"
| "history (EvRecord st r # es) = (st, r) # history es"
| "history (_ # es) = history es"

fun offers :: "ev list \<Rightarrow> (bool \<times> store_line) list" where
  "offers [] = []"
| "offers (EvOffer ok l # es) = (ok, l) # offers es"
| "offers (_ # es) = offers es"

fun published :: "ev list \<Rightarrow> (int \<times> line_rec) list" where
  "published [] = []"
| "published (EvPublish st r # es) = (st, r) # published es"
| "published (_ # es) = published es"

fun blanks :: "ev list \<Rightarrow> (int \<times> line_rec) list" where
  "blanks [] = []"
| "blanks (EvBlank st r # es) = (st, r) # blanks es"
| "blanks (_ # es) = blanks es"

text \<open>The completed lines whose publishing is over: sent, or blank.\<close>

definition handled :: "ev list \<Rightarrow> (int \<times> line_rec) multiset" where
  "handled es = mset (published es) + mset (blanks es)"

definition accepted :: "ev list \<Rightarrow> store_line list" where
  "accepted es = map snd (filter fst (offers es))"

text \<open>
  Nothing went wrong for the job in the database: the statements of the writer succeeded, and
  no retention tick removed lines of it.
\<close>

fun ev_ok :: "string \<Rightarrow> ev \<Rightarrow> bool" where
  "ev_ok i (EvStore e) = ev_good i e"
| "ev_ok i (EvRetain kept) = kept"
| "ev_ok i _ = True"

lemma history_append [simp]: "history (xs @ ys) = history xs @ history ys"
  by (induction xs rule: history.induct) simp_all

lemma offers_append [simp]: "offers (xs @ ys) = offers xs @ offers ys"
  by (induction xs rule: offers.induct) simp_all

lemma published_append [simp]: "published (xs @ ys) = published xs @ published ys"
  by (induction xs rule: published.induct) simp_all

lemma blanks_append [simp]: "blanks (xs @ ys) = blanks xs @ blanks ys"
  by (induction xs rule: blanks.induct) simp_all

lemma handled_Nil [simp]: "handled [] = {#}"
  by (simp add: handled_def)

lemma handled_append [simp]: "handled (xs @ ys) = handled xs + handled ys"
  by (simp add: handled_def)

lemma accepted_append [simp]: "accepted (xs @ ys) = accepted xs @ accepted ys"
  by (simp add: accepted_def)

lemma events_of_records [simp]:
  "history (map (EvRecord st) rs) = map (Pair st) rs" "offers (map (EvRecord st) rs) = []"
  "published (map (EvRecord st) rs) = []" "blanks (map (EvRecord st) rs) = []"
  "handled (map (EvRecord st) rs) = {#}"
  by (induction rs) (simp_all add: handled_def)

lemma events_of_publish [simp]:
  "history (publish_event st r # es) = history es" "offers (publish_event st r # es) = offers es"
  "published (publish_event st r # es) = (if Line r = '''' then published es else (st, r) # published es)"
  "handled (publish_event st r # es) = add_mset (st, r) (handled es)" "ev_ok i (publish_event st r)"
  by (simp_all add: publish_event_def handled_def)

lemma accepted_records [simp]: "accepted (map (EvRecord st) rs) = []"
  by (simp add: accepted_def)

definition on_stream :: "int \<Rightarrow> (int \<times> line_rec) list \<Rightarrow> line_rec list" where
  "on_stream st h = map snd (filter (\<lambda>x. st < 0 \<or> fst x = st) h)"

lemma on_stream_append [simp]: "on_stream st (h @ h') = on_stream st h @ on_stream st h'"
  by (simp add: on_stream_def)

lemma on_stream_same: "on_stream st (map (Pair st) rs) = rs"
  by (induction rs) (simp_all add: on_stream_def)

lemma on_stream_other: "0 \<le> st \<Longrightarrow> st \<noteq> st' \<Longrightarrow> on_stream st (map (Pair st') rs) = []"
  by (induction rs) (simp_all add: on_stream_def)

subsection \<open>The history and the rings\<close>

definition hist_inv :: "(int \<times> line_rec) list \<Rightarrow> job \<Rightarrow> bool" where
  "hist_inv h j \<longleftrightarrow> map (\<lambda>x. Seq (snd x)) h = [1..j_seq j] \<and> 0 \<le> j_seq j \<and>
     fst ` set h \<subseteq> {StreamStdout, StreamStderr} \<and>
     lb_view (on_stream StreamStdout h) (j_Stdout j) \<and> lb_view (on_stream StreamStderr h) (j_Stderr j)"

lemma lb_bytes_view:
  "lb_bytes bs (lb, q) = (rs, (lb', q')) \<Longrightarrow> lb_view h lb \<Longrightarrow>
   lb_view (h @ rs) lb' \<and> q \<le> q' \<and> map Seq rs = [q + 1..q']"
proof (induction bs arbitrary: lb q rs h)
  case (Cons b bs)
  from Cons.prems(1) obtain rs1 lb1 q1 rs2 where
    one: "lb_byte b (lb, q) = (rs1, (lb1, q1))" and
    two: "lb_bytes bs (lb1, q1) = (rs2, (lb', q'))" and rs: "rs = rs1 @ rs2"
    by (metis lb_bytes_Cons_split surj_pair)
  have "lb_view (h @ rs1) lb1"
    using one Cons.prems(2)
    by (auto simp: lb_byte_def lb_complete_def Let_def lb_view_push split: if_splits prod.splits)
  from Cons.IH [OF two this] lb_byte_seq [OF one] show ?case
    by (simp add: rs upto_append)
qed simp

lemma lb_FlushLine_view:
  "lb_FlushLine (lb, q) = (r, (lb', q')) \<Longrightarrow> lb_view h lb \<Longrightarrow>
   (let rs = (case r of None \<Rightarrow> [] | Some x \<Rightarrow> [x]) in
    lb_view (h @ rs) lb' \<and> q \<le> q' \<and> map Seq rs = [q + 1..q'])"
  by (auto simp: lb_FlushLine_def lb_complete_def Let_def lb_view_push split: if_splits)

lemma hist_inv_extend:
  assumes "hist_inv h j" "st \<in> {StreamStdout, StreamStderr}"
    and "j_seq j \<le> j_seq j'" "map Seq rs = [j_seq j + 1..j_seq j']"
    and "st = StreamStdout \<Longrightarrow> lb_view (on_stream StreamStdout h @ rs) (j_Stdout j') \<and> j_Stderr j' = j_Stderr j"
    and "st = StreamStderr \<Longrightarrow> lb_view (on_stream StreamStderr h @ rs) (j_Stderr j') \<and> j_Stdout j' = j_Stdout j"
  shows "hist_inv (h @ map (Pair st) rs) j'"
proof -
  have "map (\<lambda>x. Seq (snd x)) (map (Pair st) rs) = map Seq rs" by simp
  moreover have "[1..j_seq j] @ [j_seq j + 1..j_seq j'] = [1..j_seq j']"
    using assms(1,3) by (intro upto_append) (simp_all add: hist_inv_def)
  ultimately show ?thesis
    using assms
    by (auto simp: hist_inv_def on_stream_same on_stream_other StreamStdout_def StreamStderr_def)
qed

lemma write_stream_hist:
  assumes "write_stream st p j = (rs, j')" "st \<in> {StreamStdout, StreamStderr}" "hist_inv h j"
  shows "hist_inv (h @ map (Pair st) rs) j'"
proof (rule hist_inv_extend [OF assms(3,2)])
  have st: "StreamStdout \<noteq> StreamStderr" by (simp add: StreamStdout_def StreamStderr_def)
  have v: "lb_view (on_stream StreamStdout h) (j_Stdout j)"
    "lb_view (on_stream StreamStderr h) (j_Stderr j)"
    using assms(3) by (simp_all add: hist_inv_def)
  note eqs = assms(1,2) [unfolded write_stream_def lb_Write_def Let_def]
  show "j_seq j \<le> j_seq j'" "map Seq rs = [j_seq j + 1..j_seq j']"
    using eqs v by (auto split: if_splits prod.splits dest: lb_bytes_view)
  show "lb_view (on_stream StreamStdout h @ rs) (j_Stdout j') \<and> j_Stderr j' = j_Stderr j"
    if "st = StreamStdout"
    using eqs v(1) that by (auto split: prod.splits dest: lb_bytes_view)
  show "lb_view (on_stream StreamStderr h @ rs) (j_Stderr j') \<and> j_Stdout j' = j_Stdout j"
    if "st = StreamStderr"
    using eqs v(2) that st by (auto split: prod.splits dest: lb_bytes_view)
qed

lemma flush_stream_hist:
  assumes "flush_stream st j = (rs, j')" "st \<in> {StreamStdout, StreamStderr}" "hist_inv h j"
  shows "hist_inv (h @ map (Pair st) rs) j'"
proof (rule hist_inv_extend [OF assms(3,2)])
  have st: "StreamStdout \<noteq> StreamStderr" by (simp add: StreamStdout_def StreamStderr_def)
  have v: "lb_view (on_stream StreamStdout h) (j_Stdout j)"
    "lb_view (on_stream StreamStderr h) (j_Stderr j)"
    using assms(3) by (simp_all add: hist_inv_def)
  note eqs = assms(1,2) [unfolded flush_stream_def Let_def]
  show "j_seq j \<le> j_seq j'" "map Seq rs = [j_seq j + 1..j_seq j']"
    using eqs v by (auto simp: Let_def split: if_splits prod.splits dest!: lb_FlushLine_view)
  show "lb_view (on_stream StreamStdout h @ rs) (j_Stdout j') \<and> j_Stderr j' = j_Stderr j"
    if "st = StreamStdout"
    using eqs v(1) that by (auto simp: Let_def split: prod.splits dest!: lb_FlushLine_view)
  show "lb_view (on_stream StreamStderr h @ rs) (j_Stderr j') \<and> j_Stdout j' = j_Stdout j"
    if "st = StreamStderr"
    using eqs v(2) that st by (auto simp: Let_def split: prod.splits dest!: lb_FlushLine_view)
qed

lemma hist_inv_cong:
  "j_seq j' = j_seq j \<Longrightarrow> j_Stdout j' = j_Stdout j \<Longrightarrow> j_Stderr j' = j_Stderr j \<Longrightarrow>
   hist_inv h j' = hist_inv h j"
  by (simp add: hist_inv_def)

text \<open>Operations that leave the identity, the buffers and the counter alone.\<close>

definition buf_same :: "job \<Rightarrow> job \<Rightarrow> bool" where
  "buf_same j j' \<longleftrightarrow> j_ID j' = j_ID j \<and> j_seq j' = j_seq j \<and> j_Stdout j' = j_Stdout j \<and>
     j_Stderr j' = j_Stderr j"

lemma publishLine_buf: "publishLine l j = Some j' \<Longrightarrow> buf_same j j'"
  by (auto simp: publishLine_def buf_same_def split: if_splits)

lemma finishSubs_buf: "finishSubs j = Some j' \<Longrightarrow> buf_same j j'"
  by (auto simp: finishSubs_def buf_same_def)

lemma registerSub_buf: "buf_same j (snd (registerSub j))"
  by (simp add: registerSub_def buf_same_def Let_def)

lemma Stdin_buf: "buf_same j (snd (Stdin d c t j))"
  by (simp add: Stdin_def buf_same_def Let_def)

definition same_frame :: "job \<Rightarrow> job \<Rightarrow> bool" where
  "same_frame j j' \<longleftrightarrow> j_ID j' = j_ID j \<and> j_subs j' = j_subs j \<and> j_chans j' = j_chans j \<and>
     j_done j' = j_done j \<and> j_State j' = j_State j \<and> j_ExitCode j' = j_ExitCode j \<and>
     j_cancelled j' = j_cancelled j \<and> j_stdin_closed j' = j_stdin_closed j"

lemma write_stream_same: "write_stream st p j = (rs, j') \<Longrightarrow> same_frame j j'"
  by (auto simp: same_frame_def write_stream_def Let_def split: if_splits prod.splits)

lemma flush_stream_same: "flush_stream st j = (rs, j') \<Longrightarrow> same_frame j j'"
  by (auto simp: same_frame_def flush_stream_def Let_def split: if_splits prod.splits)

text \<open>What a step does to a job's buffers, as one of three kinds of step.\<close>

definition buffer_step :: "jsys \<Rightarrow> ev list \<Rightarrow> jsys \<Rightarrow> bool" where
  "buffer_step s es s' \<longleftrightarrow> (\<exists>t st rs j'. es = map (EvRecord st) rs \<and> t \<le> length (sy_threads s) \<and>
     st \<in> {StreamStdout, StreamStderr} \<and>
     ((\<exists>p. write_stream st p (sy_job s) = (rs, j')) \<or> flush_stream st (sy_job s) = (rs, j')) \<and>
     sy_threads s' = add_pending t st rs (sy_threads s) \<and> sy_store s' = sy_store s \<and>
     (\<exists>x. sy_job s' = j'\<lparr>j_ExitCode := x\<rparr>))"

definition quiet_step :: "jsys \<Rightarrow> ev list \<Rightarrow> jsys \<Rightarrow> bool" where
  "quiet_step s es s' \<longleftrightarrow> history es = [] \<and> buf_same (sy_job s) (sy_job s') \<and>
     length (sy_threads s') = length (sy_threads s)"

lemma write_nothing: "write_stream st [] j = ([], j)"
  by (cases j) (simp add: write_stream_def lb_Write_def)

lemma buffer_stepI:
  assumes "es = map (EvRecord st) rs" "t \<le> length (sy_threads s)"
    and "st \<in> {StreamStdout, StreamStderr}"
    and "(\<exists>p. write_stream st p (sy_job s) = (rs, j')) \<or> flush_stream st (sy_job s) = (rs, j')"
    and "sy_threads s' = add_pending t st rs (sy_threads s)" "sy_store s' = sy_store s"
    and "sy_job s' = j'\<lparr>j_ExitCode := x\<rparr>"
  shows "buffer_step s es s'"
  using assms unfolding buffer_step_def by blast

lemma add_pending_nothing: "ts \<noteq> [] \<Longrightarrow> add_pending 0 st [] ts = ts"
  by (simp add: add_pending_def)

text \<open>The goroutine's own writes: thread 0, into one of the buffers.\<close>

lemma own_buffer_step:
  assumes "(\<exists>p. write_stream st p (sy_job s) = (rs, j')) \<or> flush_stream st (sy_job s) = (rs, j')"
    and "st \<in> {StreamStdout, StreamStderr}"
    and "Goes (map (EvRecord st) rs) (s\<lparr>sy_job := j'\<lparr>j_ExitCode := x\<rparr>, sy_phase := ph,
      sy_threads := add_pending 0 st rs (sy_threads s)\<rparr>) = Goes es s'"
  shows "buffer_step s es s'"
  using assms by (intro buffer_stepI [of _ st rs 0 _ j' _ x]) auto

lemma main_step_kind:
  assumes "main_step now s = Goes es s'" "sy_threads s \<noteq> []"
  shows "buffer_step s es s' \<or> (quiet_step s es s' \<and> sy_threads s' = sy_threads s \<and> offers es = [] \<and>
    handled es = {#} \<and> list_all (ev_ok i) es \<and>
    (sy_store s' = sy_store s \<or> (\<exists>st x t. sy_store s' = FinishJob (j_ID (sy_job s)) st x t (sy_store s))))"
proof (cases "sy_phase s")
  case (Returned e x)
  obtain rs j' where f: "flush_stream StreamStdout (sy_job s) = (rs, j')" by (metis surj_pair)
  with assms(1) Returned show ?thesis
    by (intro disjI1 own_buffer_step [OF disjI2 [OF f], where x = "j_ExitCode j'" and ph = "FlushedOut e x"])
      (auto simp: main_step_def Let_def split: if_splits)
next
  case (FlushedOut e x)
  obtain rs j' where f: "flush_stream StreamStderr (sy_job s) = (rs, j')" by (metis surj_pair)
  with assms(1) FlushedOut show ?thesis
    by (intro disjI1 own_buffer_step [OF disjI2 [OF f], where x = "j_ExitCode j'" and ph = "FlushedErr e x"])
      (auto simp: main_step_def Let_def split: if_splits)
next
  case (FlushedErr e x)
  obtain state code where v: "job_outcome e (j_cancelled (sy_job s)) x = (state, code)" by (metis surj_pair)
  obtain p rs j' where f: "write_stream StreamStderr p (sy_job s) = (rs, j')"
    "(case e of None \<Rightarrow> ([], sy_job s)
      | Some msg \<Rightarrow> write_stream StreamStderr (shell_error_text msg) (sy_job s)) = (rs, j')"
    using write_nothing [of StreamStderr "sy_job s"]
    by (cases e) (auto, metis surj_pair)
  from f(1) have w: "\<exists>p. write_stream StreamStderr p (sy_job s) = (rs, j')" ..
  with f(2) assms(1) FlushedErr v show ?thesis
    by (intro disjI1 own_buffer_step [OF disjI1 [OF w], where x = code and ph = "Judged state"])
      (auto simp: main_step_def Let_def split: if_splits)
next
  case Recorded
  with assms(1) obtain j' where "finishSubs (sy_job s) = Some j'" "es = []"
    "s' = s\<lparr>sy_job := j', sy_phase := SubsClosed\<rparr>"
    by (auto simp: main_step_def Let_def split: if_splits option.splits)
  with finishSubs_buf show ?thesis by (auto simp: quiet_step_def handled_def)
next
  case Stated
  let ?j = "sy_job s"
  from Stated assms(1) have "es = [EvFinish (length (ch (sy_store s)) < channelCap) (j_State ?j) (j_ExitCode ?j)]"
    "s' = s\<lparr>sy_store := FinishJob (j_ID ?j) (j_State ?j) (j_ExitCode ?j) (j_FinishedAt ?j) (sy_store s),
       sy_phase := Recorded\<rparr>"
    by (auto simp: main_step_def Let_def split: if_splits)
  then show ?thesis by (intro disjI2) (simp add: quiet_step_def buf_same_def handled_def, blast)
qed (use assms in \<open>auto simp: main_step_def Let_def quiet_step_def buf_same_def handled_def split: if_splits\<close>)

lemma jstep_kind:
  assumes "jstep l s = Goes es s'" "sy_threads s \<noteq> []"
  shows "buffer_step s es s' \<or> quiet_step s es s'"
proof (cases l)
  case (LWrite t st p)
  from assms(1) [unfolded LWrite] show ?thesis
  proof (rule WriteE)
    fix rs j'
    assume "write_stream st p (sy_job s) = (rs, j')" "t \<le> length (sy_threads s)"
      "st \<in> {StreamStdout, StreamStderr}" "es = map (EvRecord st) rs"
      "s' = s\<lparr>sy_job := j', sy_threads := add_pending t st rs (sy_threads s)\<rparr>"
    then show ?thesis by (intro disjI1 buffer_stepI [of _ st rs t _ j' _ "j_ExitCode j'"]) auto
  qed
next
  case (LMain now)
  with main_step_kind assms show ?thesis by fastforce
next
  case (LPublish t)
  from assms(1) [unfolded LPublish] publishLine_buf show ?thesis
    by (elim PublishE) (auto simp: quiet_step_def)
next
  case LSubscribe
  with assms registerSub_buf show ?thesis by (auto simp: quiet_step_def elim!: SubscribeE)
next
  case (LStdin d c t)
  with assms Stdin_buf show ?thesis by (auto simp: quiet_step_def elim!: StdinE)
qed (use assms in \<open>auto simp: quiet_step_def buf_same_def Kill_def Let_def
      split: if_splits list.splits pend.splits bool.splits option.splits\<close>)

lemma jstep_threads: "jstep l s = Goes es s' \<Longrightarrow> sy_threads s \<noteq> [] \<Longrightarrow> sy_threads s' \<noteq> []"
  using jstep_kind [of l s es s']
  by (auto simp: buffer_step_def quiet_step_def add_pending_def split: if_splits)

lemma jstep_hist:
  assumes "jstep l s = Goes es s'" "sy_threads s \<noteq> []" "hist_inv h (sy_job s)"
  shows "hist_inv (h @ history es) (sy_job s') \<and> j_ID (sy_job s') = j_ID (sy_job s) \<and>
    sy_threads s' \<noteq> []"
  using jstep_kind [OF assms(1,2)]
proof
  assume "buffer_step s es s'"
  then obtain t st rs j' x where b: "es = map (EvRecord st) rs" "st \<in> {StreamStdout, StreamStderr}"
    "(\<exists>p. write_stream st p (sy_job s) = (rs, j')) \<or> flush_stream st (sy_job s) = (rs, j')"
    "sy_threads s' = add_pending t st rs (sy_threads s)" "sy_job s' = j'\<lparr>j_ExitCode := x\<rparr>"
    unfolding buffer_step_def by blast
  from b(3) have "hist_inv (h @ map (Pair st) rs) j'"
    using write_stream_hist flush_stream_hist b(2) assms(3) by blast
  moreover have "j_ID j' = j_ID (sy_job s)"
    using b(3) write_stream_same flush_stream_same unfolding same_frame_def by blast
  ultimately show ?thesis
    using b(1,4,5) assms(2) by (auto simp: add_pending_def hist_inv_def)
next
  assume "quiet_step s es s'"
  with assms(2,3) show ?thesis by (auto simp: quiet_step_def buf_same_def hist_inv_def)
qed

subsection \<open>Pending callbacks and the store\<close>

definition pendings :: "jsys \<Rightarrow> pend multiset" where
  "pendings s = mset (concat (sy_threads s))"

lemma mset_concat_update:
  "t < length ts \<Longrightarrow> mset (concat (ts[t := xs])) + mset (ts ! t) = mset (concat ts) + mset xs"
proof (induction ts arbitrary: t)
  case (Cons y ts)
  show ?case
  proof (cases t)
    case (Suc u)
    with Cons.prems Cons.IH [of u] show ?thesis by (simp add: union_ac)
  qed (simp add: union_ac)
qed simp

lemma mset_concat_add_pending:
  assumes "t \<le> length ts"
  shows "mset (concat (add_pending t st rs ts)) = mset (concat ts) + mset (map (Pend st False) rs)"
proof (cases "t < length ts")
  case True
  from mset_concat_update [OF True, of "ts ! t @ map (Pend st False) rs"] True
  show ?thesis by (simp add: add_pending_def union_ac)
qed (simp add: add_pending_def)

lemma mset_concat_head:
  assumes "t < length ts" "ts ! t = x # rest"
  shows "add_mset x (mset (concat (ts[t := rest]))) = mset (concat ts)"
    and "add_mset x (mset (concat (ts[t := y # rest]))) = add_mset y (mset (concat ts))"
  using mset_concat_update [OF assms(1), of rest] mset_concat_update [OF assms(1), of "y # rest"]
    assms(2) by simp_all

text \<open>What one step does to the pending callbacks and the store.\<close>

lemma buffer_step_pendings:
  assumes "buffer_step s es s'"
  obtains st rs where "es = map (EvRecord st) rs" "sy_store s' = sy_store s"
    "pendings s' = pendings s + mset (map (Pend st False) rs)"
proof -
  from assms obtain t st rs where b: "es = map (EvRecord st) rs" "t \<le> length (sy_threads s)"
    "sy_threads s' = add_pending t st rs (sy_threads s)" "sy_store s' = sy_store s"
    unfolding buffer_step_def by blast
  with mset_concat_add_pending [OF b(2), of st rs] show thesis
    by (intro that [of st rs]) (simp_all add: pendings_def)
qed

text \<open>Every other label leaves the buffers and what is pending alone.\<close>

fun touches_lines :: "label \<Rightarrow> bool" where
  "touches_lines (LWrite t st p) = True"
| "touches_lines (LPublish t) = True"
| "touches_lines (LPersist t) = True"
| "touches_lines (LMain now) = True"
| "touches_lines _ = False"

definition others_store :: "string \<Rightarrow> jsys \<Rightarrow> ev list \<Rightarrow> jsys \<Rightarrow> bool" where
  "others_store i s es s' \<longleftrightarrow>
     sy_store s' = sy_store s \<and> list_all (ev_ok i) es \<or>
     (\<exists>j st x t. sy_store s' = FinishJob j st x t (sy_store s) \<and> list_all (ev_ok i) es) \<or>
     (\<exists>j sq st ln. j \<noteq> j_ID (sy_job s) \<and> sy_store s' = TryEnqueueLine j sq st ln (sy_store s)) \<or>
     (\<exists>e. es = [EvStore e] \<and> job_step e (sy_store s) = Some (sy_store s')) \<or>
     (\<exists>env now. sy_store s' = snd (Retention env retentionHours now (sy_store s)) \<and>
        es = [EvRetain (lines_in_db (j_ID (sy_job s)) (sy_store s') = lines_in_db (j_ID (sy_job s)) (sy_store s))])"

lemma other_label:
  assumes "jstep l s = Goes es s'" "\<not> touches_lines l"
  shows "history es = [] \<and> offers es = [] \<and> handled es = {#} \<and> pendings s' = pendings s \<and>
    others_store i s es s'"
proof (cases l)
  case (LRetain env now)
  with assms(1) have "es = [EvRetain (lines_in_db (j_ID (sy_job s)) (sy_store s') =
      lines_in_db (j_ID (sy_job s)) (sy_store s))]"
    "s' = s\<lparr>sy_store := snd (Retention env retentionHours now (sy_store s))\<rparr>"
    by (auto simp: Let_def)
  then show ?thesis by (simp add: pendings_def others_store_def handled_def) blast
next
  case (LStore e)
  with assms(1) have "es = [EvStore e]" "job_step e (sy_store s) = Some (sy_store s')"
    "sy_threads s' = sy_threads s" by (auto split: if_splits option.splits)
  then show ?thesis by (simp add: pendings_def others_store_def handled_def)
next
  case (LOtherLine j sq st ln)
  with assms(1) have "es = []" "j \<noteq> j_ID (sy_job s)"
    "s' = s\<lparr>sy_store := TryEnqueueLine j sq st ln (sy_store s)\<rparr>" by (simp_all split: if_splits)
  then show ?thesis by (simp add: pendings_def others_store_def handled_def) blast
next
  case (LOtherFinish j st x t)
  with assms(1) have "es = []" "s' = s\<lparr>sy_store := FinishJob j st x t (sy_store s)\<rparr>"
    by (simp_all split: if_splits)
  then show ?thesis by (simp add: pendings_def others_store_def handled_def) blast
qed (use assms in \<open>auto simp: pendings_def others_store_def handled_def split: if_splits list.splits\<close>)

lemma jstep_elim:
  assumes "jstep l s = Goes es s'" "sy_threads s \<noteq> []"
  obtains (completes) st rs where "history es = map (Pair st) rs" "offers es = []" "handled es = {#}"
      "list_all (ev_ok i) es" "sy_store s' = sy_store s"
      "pendings s' = pendings s + mset (map (Pend st False) rs)"
  | (publishes) st r where "es = [publish_event st r]" "sy_store s' = sy_store s"
      "add_mset (Pend st False r) (pendings s') = add_mset (Pend st True r) (pendings s)"
  | (persists) st r where
      "es = [EvOffer (length (ch (sy_store s)) < channelCap) (store_line_of (j_ID (sy_job s)) st r)]"
      "sy_store s' = TryEnqueueLine (j_ID (sy_job s)) (Seq r) st (Line r) (sy_store s)"
      "add_mset (Pend st True r) (pendings s') = pendings s"
  | (other) "history es = []" "offers es = []" "handled es = {#}" "pendings s' = pendings s"
      "others_store i s es s'"
proof -
  have buffer: thesis if "buffer_step s es s'"
    using that
  proof (rule buffer_step_pendings)
    fix st rs
    assume "es = map (EvRecord st) rs" "sy_store s' = sy_store s"
      "pendings s' = pendings s + mset (map (Pend st False) rs)"
    then show thesis by (intro completes [of st rs]) (simp_all add: list_all_iff)
  qed
  have quiet: thesis if "\<not> touches_lines l"
    using other_label [OF assms(1) that, where i = i] by (elim conjE) (rule other)
  show thesis
  proof (cases l)
    case (LWrite t st p)
    from assms(1) [unfolded LWrite] obtain rs j' where w: "write_stream st p (sy_job s) = (rs, j')"
      "t \<le> length (sy_threads s)" "st \<in> {StreamStdout, StreamStderr}" "es = map (EvRecord st) rs"
      "s' = s\<lparr>sy_job := j', sy_threads := add_pending t st rs (sy_threads s)\<rparr>" by (rule WriteE)
    then show thesis by (intro buffer buffer_stepI [of _ st rs t _ j' _ "j_ExitCode j'"]) auto
  next
    case (LMain now)
    with assms main_step_kind [of now s es s' i] have "buffer_step s es s' \<or> quiet_step s es s' \<and>
        sy_threads s' = sy_threads s \<and> offers es = [] \<and> handled es = {#} \<and> list_all (ev_ok i) es \<and>
        (sy_store s' = sy_store s \<or> (\<exists>st x t. sy_store s' = FinishJob (j_ID (sy_job s)) st x t (sy_store s)))"
      by simp
    then show thesis
    proof
      assume "quiet_step s es s' \<and> sy_threads s' = sy_threads s \<and> offers es = [] \<and>
        handled es = {#} \<and> list_all (ev_ok i) es \<and> (sy_store s' = sy_store s \<or>
        (\<exists>st x t. sy_store s' = FinishJob (j_ID (sy_job s)) st x t (sy_store s)))"
      then show thesis by (intro other) (simp_all add: quiet_step_def pendings_def others_store_def, blast)
    qed (rule buffer)
  next
    case (LPublish t)
    from assms(1) [unfolded LPublish] obtain st r rest j' where p: "t < length (sy_threads s)"
      "sy_threads s ! t = Pend st False r # rest" "es = [publish_event st r]"
      "s' = s\<lparr>sy_job := j', sy_threads := (sy_threads s)[t := Pend st True r # rest]\<rparr>" by (rule PublishE)
    with mset_concat_head(2) [OF p(1,2), of "Pend st True r"] show thesis
      by (intro publishes [of st r]) (simp_all add: pendings_def)
  next
    case (LPersist t)
    from assms(1) [unfolded LPersist] obtain st r rest where p: "t < length (sy_threads s)"
      "sy_threads s ! t = Pend st True r # rest"
      "es = [EvOffer (length (ch (sy_store s)) < channelCap) (store_line_of (j_ID (sy_job s)) st r)]"
      "s' = s\<lparr>sy_store := TryEnqueueLine (j_ID (sy_job s)) (Seq r) st (Line r) (sy_store s),
              sy_threads := (sy_threads s)[t := rest]\<rparr>" by (rule PersistE)
    with mset_concat_head(1) [OF p(1,2)] show thesis
      by (intro persists [of st r]) (simp_all add: pendings_def)
  qed (rule quiet, simp)+
qed

subsection \<open>The invariant of a run\<close>

abbreviation line_of :: "string \<Rightarrow> int \<times> line_rec \<Rightarrow> store_line" where
  "line_of i x \<equiv> store_line_of i (fst x) (snd x)"

abbreviation line_of_pend :: "string \<Rightarrow> pend \<Rightarrow> store_line" where
  "line_of_pend i p \<equiv> store_line_of i (p_stream p) (p_rec p)"

text \<open>What the store holds of the job, committed or owed, in order.\<close>

definition job_lines :: "string \<Rightarrow> store \<Rightarrow> store_line list" where
  "job_lines i st = filter (\<lambda>l. sl_jobID l = i) (db_lines (db st)) @ lines_for i (owed st)"

text \<open>Every completed line was offered to the store or is still pending.\<close>

definition run_inv :: "string \<Rightarrow> ev list \<Rightarrow> jsys \<Rightarrow> bool" where
  "run_inv i es s \<longleftrightarrow> sy_threads s \<noteq> [] \<and> j_ID (sy_job s) = i \<and> hist_inv (history es) (sy_job s) \<and>
     image_mset (line_of i) (mset (history es)) =
       mset (map snd (offers es)) + image_mset (line_of_pend i) (pendings s)"

lemma run_inv_step:
  assumes "run_inv i es s" "jstep l s = Goes es' s'"
  shows "run_inv i (es @ es') s'"
proof -
  from assms(1) have inv: "sy_threads s \<noteq> []" "j_ID (sy_job s) = i" "hist_inv (history es) (sy_job s)"
    "image_mset (line_of i) (mset (history es)) =
       mset (map snd (offers es)) + image_mset (line_of_pend i) (pendings s)"
    by (simp_all add: run_inv_def)
  from assms(2) inv(1) have "image_mset (line_of i) (mset (history (es @ es'))) =
       mset (map snd (offers (es @ es'))) + image_mset (line_of_pend i) (pendings s')"
  proof (cases rule: jstep_elim [where i = i])
    case (completes st rs)
    have "image_mset (line_of i) (mset (map (Pair st) rs)) =
      image_mset (line_of_pend i) (mset (map (Pend st False) rs))"
      by (simp add: multiset.map_comp comp_def)
    with inv(4) completes show ?thesis by simp
  next
    case (publishes st r)
    from publishes(3) have "image_mset (line_of_pend i) (add_mset (Pend st False r) (pendings s')) =
      image_mset (line_of_pend i) (add_mset (Pend st True r) (pendings s))" by (rule arg_cong)
    then have "image_mset (line_of_pend i) (pendings s') = image_mset (line_of_pend i) (pendings s)"
      by simp
    with inv(4) publishes(1) show ?thesis by simp
  next
    case (persists st r)
    from persists(3) [symmetric] have "image_mset (line_of_pend i) (pendings s) =
      add_mset (store_line_of i st r) (image_mset (line_of_pend i) (pendings s'))" by simp
    with inv(2,4) persists(1) show ?thesis by simp
  next
    case other
    with inv(4) show ?thesis by simp
  qed
  with jstep_hist [OF assms(2) inv(1,3)] inv(2) show ?thesis by (simp add: run_inv_def)
qed

lemma run_inv_start: "run_inv i [] (start_sys ml i c now st)"
  by (simp add: run_inv_def start_sys_def new_job_def hist_inv_def lb_view_new pendings_def
      on_stream_def)

lemma run_inv_reach: "jreach (start_sys ml i c now st) es s \<Longrightarrow> run_inv i es s"
  by (induction rule: jreach.induct) (auto intro: run_inv_start run_inv_step)

lemma run_inv_distinct:
  assumes "run_inv i es s"
  shows "distinct (map (line_key \<circ> snd) (offers es))" "distinct (map line_key (accepted es))"
proof -
  from assms have h: "map (\<lambda>x. Seq (snd x)) (history es) = [1..j_seq (sy_job s)]"
    and m: "image_mset (line_of i) (mset (history es)) =
       mset (map snd (offers es)) + image_mset (line_of_pend i) (pendings s)"
    by (simp_all add: run_inv_def hist_inv_def)
  obtain ps where ps: "mset ps = image_mset (line_of_pend i) (pendings s)" using ex_mset by blast
  have "distinct (map (\<lambda>x. Seq (snd x)) (history es))" by (simp add: h)
  then have "distinct (map line_key (map (line_of i) (history es)))"
    by (simp add: distinct_map inj_on_def line_key_def store_line_of_def)
  moreover have "mset (map line_key (map (line_of i) (history es))) =
      mset (map line_key (map snd (offers es) @ ps))"
  proof -
    from m ps have "mset (map (line_of i) (history es)) = mset (map snd (offers es) @ ps)" by simp
    then show ?thesis by (metis mset_map)
  qed
  ultimately have "distinct (map line_key (map snd (offers es) @ ps))"
    by (metis mset_eq_imp_distinct_iff)
  then show "distinct (map (line_key \<circ> snd) (offers es))" by simp
  then show "distinct (map line_key (accepted es))"
    by (simp add: accepted_def distinct_map_filter)
qed

lemma writer_step_db_inv [inv_intros]:
  assumes "writer_step e s = Some s'" "db_inv (db s)"
  shows "db_inv (db s')"
proof -
  have fl: "db_inv (db (flush env u))" if "db_inv (db u)" for env u
    using that by (auto simp: flush_def Let_def intro: db_inv_fold split: option.split)
  show ?thesis
    using assms by (cases e) (auto simp: Let_def intro!: fl db_inv_finish
        split: if_splits list.splits store_rec.splits)
qed

lemma job_step_db_inv:
  "job_step e s = Some s' \<Longrightarrow> db_inv (db s) \<Longrightarrow> db_inv (db s')"
  by (cases e) (auto simp: EnqueueJob_def intro: writer_step_db_inv db_inv_insert_job)

lemma job_lines_offer:
  "offer r st = Some st' \<Longrightarrow> job_lines i st' = job_lines i st @ lines_for i [r]"
  by (auto simp: offer_def job_lines_def owed_def split: if_splits)

lemma job_lines_TryEnqueueLine:
  "job_lines i (TryEnqueueLine j sq stm ln st) = job_lines i st @
     (if length (ch st) < channelCap \<and> i = j
      then [\<lparr>sl_jobID = j, sl_seq = sq, sl_stream = stm, sl_line = ln\<rparr>] else [])"
  by (auto simp: TryEnqueueLine_def job_lines_def owed_def lines_for_def)

lemma job_lines_FinishJob: "job_lines i (FinishJob j fs x t st) = job_lines i st"
  by (auto simp: FinishJob_def job_lines_def owed_def lines_for_def)

lemma job_lines_step:
  assumes "job_step e st = Some st'" "ev_good i e" "distinct (map line_key (job_lines i st))"
  shows "job_lines i st' = job_lines i st"
proof -
  from jq.step_law [OF assms(2,1)] obtain k where
    k: "job_view i (db st') = fold (job_eff i) (take k (owed st)) (job_view i (db st))"
      "owed st' = drop k (owed st)" by blast
  have "distinct (map line_key (lines_for i (owed st)))"
    using assms(3) by (simp add: job_lines_def)
  moreover have "\<forall>l \<in> set (db_lines (db st)). line_key l \<notin> line_key ` set (lines_for i (owed st))"
  proof
    fix l
    assume l: "l \<in> set (db_lines (db st))"
    show "line_key l \<notin> line_key ` set (lines_for i (owed st))"
    proof (cases "sl_jobID l = i")
      case True
      with l assms(3) show ?thesis by (auto simp: job_lines_def)
    next
      case False
      then show ?thesis by (auto simp: line_key_def lines_for_def)
    qed
  qed
  ultimately have "db_lines (job_view i (db st')) =
      filter (\<lambda>l. sl_jobID l = i) (db_lines (db st)) @ lines_for i (take k (owed st))"
    unfolding k(1) by (rule view_lines_fold)
  then show ?thesis
    by (simp add: job_lines_def job_view_def k(2) lines_for_append [symmetric] del: lines_for_append)
qed

lemma job_lines_Retention:
  "lines_in_db i (snd (Retention env h now st)) = lines_in_db i st \<Longrightarrow>
   job_lines i (snd (Retention env h now st)) = job_lines i st"
  "db_inv (db st) \<Longrightarrow> db_inv (db (snd (Retention env h now st)))"
  by (auto simp: job_lines_def lines_in_db_def Retention_def Let_def owed_def intro: db_inv_retention)

text \<open>Retention keeps the lines of a job whose row it keeps, so of one that is running.\<close>

lemma retention_keeps_lines:
  assumes "job_row_of i (db st) = Some r" "\<not> expired (now - h * 3600000) r"
  shows "lines_in_db i (snd (Retention env h now st)) = lines_in_db i st"
proof -
  have "r \<in> set (db_jobs (db st))" "row_ID r = i"
    using assms(1) by (auto simp: job_row_of_def find_Some_iff)
  with assms(2) have "i \<in> row_ID ` {r \<in> set (db_jobs (db st)). \<not> expired (now - h * 3600000) r}" by blast
  then show ?thesis
    by (auto simp: lines_in_db_def Retention_def sql_retention_def Let_def intro!: filter_cong)
qed

text \<open>A store that knows nothing of the job yet.\<close>

definition fresh_in :: "string \<Rightarrow> store \<Rightarrow> bool" where
  "fresh_in i st \<longleftrightarrow> db_inv (db st) \<and> job_lines i st = []"

definition store_inv :: "string \<Rightarrow> ev list \<Rightarrow> jsys \<Rightarrow> bool" where
  "store_inv i es s \<longleftrightarrow> db_inv (db (sy_store s)) \<and>
     (list_all (ev_ok i) es \<longrightarrow> job_lines i (sy_store s) = accepted es)"

lemma db_inv_enqueue [simp]:
  "db (TryEnqueueLine j sq st ln s) = db s" "db (FinishJob j fs x t s) = db s"
  by (simp_all add: TryEnqueueLine_def FinishJob_def)

lemma store_inv_step:
  assumes "run_inv i es s" "store_inv i es s" "jstep l s = Goes es' s'"
  shows "store_inv i (es @ es') s'"
proof -
  have th: "sy_threads s \<noteq> []" "j_ID (sy_job s) = i" using assms(1) by (simp_all add: run_inv_def)
  note d = run_inv_distinct(2) [OF assms(1)]
  from assms(3) th(1) show ?thesis
  proof (cases rule: jstep_elim [where i = i])
    case (completes st rs)
    with assms(2) show ?thesis by (simp add: store_inv_def accepted_def)
  next
    case (publishes st r)
    with assms(2) show ?thesis by (simp add: store_inv_def accepted_def)
  next
    case (persists st r)
    with assms(2) th(2) show ?thesis
      by (simp add: store_inv_def job_lines_TryEnqueueLine accepted_def store_line_of_def)
  next
    case other
    from other(5) show ?thesis
      unfolding others_store_def
    proof (elim disjE exE conjE)
      fix env now
      assume e: "sy_store s' = snd (Retention env retentionHours now (sy_store s))"
        "es' = [EvRetain (lines_in_db (j_ID (sy_job s)) (sy_store s') = lines_in_db (j_ID (sy_job s)) (sy_store s))]"
      with assms(2) th(2) job_lines_Retention(1) [of i env retentionHours now "sy_store s"]
        job_lines_Retention(2) [of "sy_store s" env retentionHours now] show ?thesis
        by (simp add: store_inv_def accepted_def)
    next
      fix e assume e: "es' = [EvStore e]" "job_step e (sy_store s) = Some (sy_store s')"
      with assms(2) d job_lines_step [OF e(2)] job_step_db_inv [OF e(2)] show ?thesis
        by (auto simp: store_inv_def accepted_def)
    qed (use assms(2) other(2) th(2) in \<open>auto simp: store_inv_def accepted_def
        job_lines_FinishJob job_lines_TryEnqueueLine\<close>)
  qed
qed

lemma store_inv_reach:
  assumes "jreach (start_sys ml i c now st) es s" "fresh_in i st"
  shows "store_inv i es s"
  using assms
proof (induction rule: jreach.induct)
  case start
  then show ?case by (simp add: store_inv_def fresh_in_def start_sys_def accepted_def)
next
  case (step es s l es' s')
  then show ?case by (meson run_inv_reach store_inv_step)
qed

end
