(* ===== verification/JobLife.thy ===== *)
theory JobLife
  imports JobInv
begin

text \<open>
  The properties of a job's life in the registry of \<open>internal/jobsvc/manager.go\<close>: what
  the merged history shows, what a subscriber sees, when channels close, and what verdict a
  finished job carries. They hold in every state reachable by any interleaving of the
  labels of theory JobRun.
\<close>

subsection \<open>The history as the queries see it\<close>

lemma hist_inv_sorted:
  assumes "hist_inv h j"
  shows "sorted_wrt (<) (map Seq (on_stream st h))"
proof -
  from assms have "map (\<lambda>x. Seq (snd x)) h = [1..j_seq j]" by (simp add: hist_inv_def)
  then have "sorted_wrt (<) (map (\<lambda>x. Seq (snd x)) h)" by (simp add: strict_sorted_iff)
  then have "sorted_wrt (\<lambda>x y. Seq (snd x) < Seq (snd y)) h" by (simp add: sorted_wrt_map)
  then show ?thesis
    unfolding on_stream_def by (simp add: sorted_wrt_map sorted_wrt_filter)
qed

lemma hist_inv_distinct:
  assumes "hist_inv h j"
  shows "distinct (map Seq (on_stream StreamStdout h @ on_stream StreamStderr h))"
proof -
  from assms have h: "map (\<lambda>x. Seq (snd x)) h = [1..j_seq j]" "fst ` set h \<subseteq> {StreamStdout, StreamStderr}"
    by (simp_all add: hist_inv_def)
  have "mset (map Seq (on_stream StreamStdout h @ on_stream StreamStderr h)) = mset (map (\<lambda>x. Seq (snd x)) h)"
    using h(2) by (induction h) (auto simp: on_stream_def StreamStdout_def StreamStderr_def)
  moreover have "distinct (map (\<lambda>x. Seq (snd x)) h)" by (simp add: h(1))
  ultimately show ?thesis by (metis mset_eq_imp_distinct_iff)
qed

lemma on_stream_sub: "0 \<le> st \<Longrightarrow> set (on_stream st h) \<subseteq> set (on_stream (- 1) h)"
  by (auto simp: on_stream_def)

lemma distinct_lastns:
  "distinct (map f (xs @ ys)) \<Longrightarrow> distinct (map f (lastn a xs @ lastn b ys))"
  using set_lastn_subset [of a "map f xs"] set_lastn_subset [of b "map f ys"]
  by (auto simp: map_lastn) (auto simp: lastn_drop)

lemma ring_recs_in_history:
  assumes "hist_inv h j" "st \<in> {- 1, StreamStdout, StreamStderr}"
  shows "set (ring_recs st j) \<subseteq> set (on_stream st h)" "distinct (map Seq (ring_recs st j))"
proof -
  from assms(1) obtain a b where
    out: "recs (j_Stdout j) = lastn a (on_stream StreamStdout h)" and
    err: "recs (j_Stderr j) = lastn b (on_stream StreamStderr h)"
    by (auto simp: hist_inv_def lb_view_def)
  note nums = StreamStdout_def StreamStderr_def
  show "set (ring_recs st j) \<subseteq> set (on_stream st h)"
    using assms(2) set_lastn_subset [of a "on_stream StreamStdout h"]
      set_lastn_subset [of b "on_stream StreamStderr h"]
      on_stream_sub [of StreamStdout h] on_stream_sub [of StreamStderr h]
    by (auto simp: ring_recs_def lb_Recs_def out err nums)
  have "distinct (map Seq (lastn a (on_stream StreamStdout h) @ lastn b (on_stream StreamStderr h)))"
    by (rule distinct_lastns [OF hist_inv_distinct [OF assms(1)]])
  then show "distinct (map Seq (ring_recs st j))"
    by (auto simp: ring_recs_def lb_Recs_def out err)
qed

text \<open>The two rings, each copied at its own moment.\<close>

definition rings_at :: "int \<Rightarrow> job \<Rightarrow> job \<Rightarrow> line_rec list" where
  "rings_at st jo je =
     (if st = StreamStdout \<or> st < 0 then recs (j_Stdout jo) else []) @
     (if st = StreamStderr \<or> st < 0 then recs (j_Stderr je) else [])"

lemma on_stream_mono: "set h \<subseteq> set h' \<Longrightarrow> set (on_stream st h) \<subseteq> set (on_stream st h')"
  by (auto simp: on_stream_def)

lemma on_stream_filter_other: "0 \<le> st \<Longrightarrow> st \<noteq> k \<Longrightarrow> on_stream st (filter (\<lambda>x. fst x = k) h) = []"
  by (induction h) (auto simp: on_stream_def)

lemma on_stream_filter_same: "0 \<le> k \<Longrightarrow> on_stream k (filter (\<lambda>x. fst x = k) h) = on_stream k h"
  by (induction h) (simp_all add: on_stream_def)

text \<open>What the rings hold at the two moments, in terms of what had been completed by then.\<close>

lemma rings_at_in_history:
  assumes "hist_inv h1 jo" "hist_inv (h1 @ h2) je" "st \<in> {- 1, StreamStdout, StreamStderr}"
    and "seen = h1 @ filter (\<lambda>x. fst x = StreamStderr) h2"
  shows "set (rings_at st jo je) \<subseteq> set (on_stream st seen)" "distinct (map Seq (rings_at st jo je))"
    "sorted_wrt (<) (map Seq (on_stream st seen))"
proof -
  let ?out = "on_stream StreamStdout h1" and ?err = "on_stream StreamStderr (h1 @ h2)"
  obtain a b where out: "recs (j_Stdout jo) = lastn a ?out" and err: "recs (j_Stderr je) = lastn b ?err"
    using assms(1,2) by (auto simp: hist_inv_def lb_view_def)
  note nums = StreamStdout_def StreamStderr_def
  have parts: "on_stream StreamStdout seen = ?out" "on_stream StreamStderr seen = ?err"
    using assms(4) by (simp_all add: on_stream_filter_other on_stream_filter_same nums)
  then show "set (rings_at st jo je) \<subseteq> set (on_stream st seen)"
    using assms(3) set_lastn_subset [of a ?out] set_lastn_subset [of b ?err]
      on_stream_sub [of StreamStdout seen] on_stream_sub [of StreamStderr seen]
    by (auto simp: rings_at_def out err nums)
  have "distinct (map Seq (on_stream StreamStdout (h1 @ h2) @ ?err))" by (rule hist_inv_distinct [OF assms(2)])
  then have "distinct (map Seq (?out @ ?err))" by auto
  from distinct_lastns [OF this] have "distinct (map Seq (lastn a ?out @ lastn b ?err))" .
  then show "distinct (map Seq (rings_at st jo je))" by (auto simp: rings_at_def out err)
  have "sorted_wrt (<) (map Seq (on_stream (- 1) (h1 @ h2)))" by (rule hist_inv_sorted [OF assms(2)])
  then have "sorted_wrt (<) (map (Seq \<circ> snd) seen)"
    unfolding assms(4) by (force simp: on_stream_def sorted_wrt_append sorted_wrt_map sorted_wrt_filter)
  then show "sorted_wrt (<) (map Seq (on_stream st seen))"
    by (simp add: on_stream_def sorted_wrt_map sorted_wrt_filter)
qed

lemma copied_rings:
  assumes "hist_inv h1 jo" "hist_inv (h1 @ h2) je"
  defines "rs \<equiv> sort_recs (lb_Recs (j_Stdout jo) @ lb_Recs (j_Stderr je))"
  shows "sorted_wrt (<) (map Seq rs)"
    and "set rs = set (lastn (nat (lb_max (j_Stdout jo))) (on_stream StreamStdout h1)) \<union>
      set (lastn (nat (lb_max (j_Stderr je))) (on_stream StreamStderr (h1 @ h2)))"
proof -
  have "distinct (map Seq (rings_at (- 1) jo je))" by (rule rings_at_in_history(2) [OF assms(1,2) _ refl]) simp
  then show "sorted_wrt (<) (map Seq rs)"
    unfolding rs_def by (intro sort_recs_strict) (simp add: rings_at_def lb_Recs_def)
  show "set rs = set (lastn (nat (lb_max (j_Stdout jo))) (on_stream StreamStdout h1)) \<union>
      set (lastn (nat (lb_max (j_Stderr je))) (on_stream StreamStderr (h1 @ h2)))"
    using assms(1,2) by (simp add: rs_def sort_recs_def lb_Recs_def hist_inv_def lb_view_def)
qed

lemma persisted_in_history:
  assumes "run_inv i es s" "store_inv i es s" "list_all (ev_ok i) es"
  shows "set (sql_query_lines i st (db (sy_store s))) \<subseteq> set (on_stream st (history es))"
proof
  fix x
  assume "x \<in> set (sql_query_lines i st (db (sy_store s)))"
  then obtain l where l: "l \<in> set (db_lines (db (sy_store s)))" "sl_jobID l = i" "stream_matches st l"
    "x = rec_of_line l" by (auto simp: set_query_lines)
  from l(1,2) have "l \<in> set (job_lines i (sy_store s))" by (simp add: job_lines_def)
  with assms(2,3) have "l \<in> set (accepted es)" by (simp add: store_inv_def)
  then have "l \<in># mset (map snd (offers es))" by (auto simp: accepted_def)
  moreover have "mset (map snd (offers es)) \<subseteq># image_mset (line_of i) (mset (history es))"
    using assms(1) by (simp add: run_inv_def)
  ultimately have "l \<in># image_mset (line_of i) (mset (history es))" by (metis mset_subset_eqD)
  then obtain y where "y \<in> set (history es)" "l = line_of i y" by auto
  with l(3,4) show "x \<in> set (on_stream st (history es))"
    by (force simp: store_line_of_def rec_of_line_def stream_matches_def on_stream_def
        split: if_splits)
qed

lemma accepted_all: "list_all fst (offers es) \<Longrightarrow> accepted es = map snd (offers es)"
  by (simp add: accepted_def list_all_iff)

lemma drained_persisted:
  assumes "run_inv i es s" "store_inv i es s" "list_all (ev_ok i) es" "list_all fst (offers es)"
    and "pendings s = {#}" "owed (sy_store s) = []"
  shows "set (on_stream st (history es)) \<subseteq> set (sql_query_lines i st (db (sy_store s)))"
proof
  fix r
  assume "r \<in> set (on_stream st (history es))"
  then obtain k where k: "(k, r) \<in> set (history es)" "st < 0 \<or> k = st"
    by (auto simp: on_stream_def)
  let ?l = "store_line_of i k r"
  have "?l \<in># image_mset (line_of i) (mset (history es))" using k(1) by force
  moreover have "image_mset (line_of i) (mset (history es)) = mset (map snd (offers es))"
    using assms(1,5) by (simp add: run_inv_def)
  ultimately have "?l \<in> set (map snd (offers es))" by (metis set_mset_mset)
  then have "?l \<in> set (job_lines i (sy_store s))"
    using assms(2,3) accepted_all [OF assms(4)] by (simp add: store_inv_def)
  then have "?l \<in> set (db_lines (db (sy_store s)))"
    using assms(6) by (simp add: job_lines_def lines_for_def)
  moreover have "stream_matches st ?l" using k(2) by (auto simp: stream_matches_def store_line_of_def)
  moreover have "rec_of_line ?l = r" "sl_jobID ?l = i"
    by (simp_all add: rec_of_line_def store_line_of_def)
  ultimately show "r \<in> set (sql_query_lines i st (db (sy_store s)))"
    by (force simp: set_query_lines)
qed

lemma merged_history:
  assumes "run_inv i es s" "store_inv i es s" "list_all (ev_ok i) es"
    and "Get i m = Some (sy_job s)" "m_store m = sy_store s"
    and "stream \<in> {- 1, StreamStdout, StreamStderr}"
    and "\<forall>r \<in> set (on_stream stream (history es)).
      r \<in> set (sql_query_lines i stream (db (sy_store s))) \<or>
      (r \<in> set (ring_recs stream (sy_job s)) \<and>
       max_seq (sql_query_lines i stream (db (sy_store s))) < Seq r)"
  shows "readMerged True i stream m = Inr (on_stream stream (history es))"
proof (rule readMerged_window [OF assms(4)])
  have h: "hist_inv (history es) (sy_job s)" using assms(1) by (simp add: run_inv_def)
  show "sorted_wrt (<) (map Seq (on_stream stream (history es)))" by (rule hist_inv_sorted [OF h])
  show "set (ring_recs stream (sy_job s)) \<subseteq> set (on_stream stream (history es))"
    "distinct (map Seq (ring_recs stream (sy_job s)))"
    using ring_recs_in_history [OF h assms(6)] .
  show "db_inv (db (m_store m))" using assms(2,5) by (simp add: store_inv_def)
  show "set (sql_query_lines i stream (db (m_store m))) \<subseteq> set (on_stream stream (history es))"
    using persisted_in_history [OF assms(1-3)] assms(5) by simp
qed (use assms(5,7) in simp)

end
