(* ===== verification/JobChans.thy ===== *)
theory JobChans
  imports JobLife
begin

text \<open>
  Subscribers and completion of a job (\<open>Subscribe\<close>, \<open>publishLine\<close>, \<open>finishSubs\<close> and
  the deferred calls of \<open>Execute\<close> in \<open>internal/jobsvc/manager.go\<close>): which channels are
  open when, what is delivered on them, and what holds once the job is done.
\<close>

subsection \<open>Operations on the subscriber list\<close>

lemma update_chans_nth:
  assumes "update_chans f ns cs = Some cs'" "distinct ns" "\<forall>n \<in> set ns. n < length cs"
  shows "length cs' = length cs \<and>
    (\<forall>c < length cs. if c \<in> set ns then f (cs ! c) = Some (cs' ! c) else cs' ! c = cs ! c)"
  using assms
proof (induction ns arbitrary: cs)
  case (Cons n ns)
  from Cons.prems(1) obtain x where x: "f (cs ! n) = Some x" "update_chans f ns (cs[n := x]) = Some cs'"
    by (auto split: option.splits)
  have n: "n \<notin> set ns" "n < length cs" using Cons.prems(2,3) by simp_all
  have IH: "length cs' = length cs \<and> (\<forall>c < length cs. if c \<in> set ns then f (cs[n := x] ! c) = Some (cs' ! c)
      else cs' ! c = cs[n := x] ! c)"
    using Cons.IH [OF x(2)] Cons.prems(2,3) by simp
  have "if c \<in> set (n # ns) then f (cs ! c) = Some (cs' ! c) else cs' ! c = cs ! c"
    if "c < length cs" for c
    using IH that n x(1) by (cases "c = n") auto
  with IH show ?case by blast
qed simp

lemma update_chans_total:
  assumes "\<And>n. n \<in> set ns \<Longrightarrow> f (cs ! n) \<noteq> None" "distinct ns" "\<forall>n \<in> set ns. n < length cs"
  shows "update_chans f ns cs \<noteq> None"
  using assms
proof (induction ns arbitrary: cs)
  case (Cons n ns)
  then obtain x where x: "f (cs ! n) = Some x" by fastforce
  have "update_chans f ns (cs[n := x]) \<noteq> None"
    using Cons.prems by (intro Cons.IH) (auto simp: nth_list_update)
  with x show ?case by simp
qed simp

text \<open>The subscriber list holds distinct, open channels of the heap.\<close>

definition subs_inv :: "job \<Rightarrow> bool" where
  "subs_inv j \<longleftrightarrow> distinct (j_subs j) \<and>
     (\<forall>c \<in> set (j_subs j). c < length (j_chans j) \<and> \<not> chan_closed (j_chans j ! c))"

lemma subs_inv_publish: "subs_inv j \<Longrightarrow> publishLine l j \<noteq> None"
  using update_chans_total [of "j_subs j" "try_send l" "j_chans j"]
  by (auto simp: subs_inv_def publishLine_def try_send_def)

lemma subs_inv_finish: "subs_inv j \<Longrightarrow> finishSubs j \<noteq> None"
  using update_chans_total [of "j_subs j" close_chan "j_chans j"]
  by (auto simp: subs_inv_def finishSubs_def close_chan_def)

lemma try_send_open: "try_send l c = Some c' \<Longrightarrow> chan_closed c' = chan_closed c"
  by (auto simp: try_send_def split: if_splits)

text \<open>What publishing does to one channel.\<close>

lemma publishLine_chan:
  assumes "publishLine l j = Some j'" "subs_inv j"
  shows "length (j_chans j') = length (j_chans j)" "j_subs j' = j_subs j"
    and "c < length (j_chans j) \<Longrightarrow> chan_closed (j_chans j' ! c) = chan_closed (j_chans j ! c)"
    and "c < length (j_chans j) \<Longrightarrow> chan_buf (j_chans j' ! c) = chan_buf (j_chans j ! c) @
      (if l \<noteq> '''' \<and> c \<in> set (j_subs j) \<and> length (chan_buf (j_chans j ! c)) < subscriberCap then [l] else [])"
proof -
  have s: "distinct (j_subs j)" "\<forall>n \<in> set (j_subs j). n < length (j_chans j)"
    using assms(2) by (simp_all add: subs_inv_def)
  have "length (j_chans j') = length (j_chans j) \<and> j_subs j' = j_subs j \<and>
    (c < length (j_chans j) \<longrightarrow> chan_closed (j_chans j' ! c) = chan_closed (j_chans j ! c) \<and>
     chan_buf (j_chans j' ! c) = chan_buf (j_chans j ! c) @
      (if l \<noteq> '''' \<and> c \<in> set (j_subs j) \<and> length (chan_buf (j_chans j ! c)) < subscriberCap then [l] else []))"
  proof (cases "l = ''''")
    case True
    with assms(1) show ?thesis by (simp add: publishLine_def)
  next
    case False
    with assms(1) obtain cs where cs: "update_chans (try_send l) (j_subs j) (j_chans j) = Some cs"
      "j' = j\<lparr>j_chans := cs\<rparr>" by (auto simp: publishLine_def)
    note n = update_chans_nth [OF cs(1) s]
    show ?thesis
    proof (cases "c \<in> set (j_subs j)")
      case True
      with n have c: "try_send l (j_chans j ! c) = Some (cs ! c)" if "c < length (j_chans j)"
        using that by auto
      have "chan_closed (cs ! c) = chan_closed (j_chans j ! c) \<and>
        chan_buf (cs ! c) = chan_buf (j_chans j ! c) @
          (if length (chan_buf (j_chans j ! c)) < subscriberCap then [l] else [])"
        if "c < length (j_chans j)"
        using c [OF that, symmetric] by (auto simp: try_send_def split: if_splits)
      with n False True show ?thesis by (simp add: cs(2))
    next
      case sub: False
      with n have "c < length (j_chans j) \<longrightarrow> cs ! c = j_chans j ! c" by auto
      with n sub show ?thesis by (simp add: cs(2))
    qed
  qed
  then show "length (j_chans j') = length (j_chans j)" "j_subs j' = j_subs j"
    "c < length (j_chans j) \<Longrightarrow> chan_closed (j_chans j' ! c) = chan_closed (j_chans j ! c)"
    "c < length (j_chans j) \<Longrightarrow> chan_buf (j_chans j' ! c) = chan_buf (j_chans j ! c) @
      (if l \<noteq> '''' \<and> c \<in> set (j_subs j) \<and> length (chan_buf (j_chans j ! c)) < subscriberCap then [l] else [])"
    by blast+
qed

lemma finishSubs_chan:
  assumes "finishSubs j = Some j'" "subs_inv j"
  shows "length (j_chans j') = length (j_chans j)" "j_subs j' = []"
    and "c < length (j_chans j) \<Longrightarrow>
      chan_closed (j_chans j' ! c) = (chan_closed (j_chans j ! c) \<or> c \<in> set (j_subs j)) \<and>
      chan_buf (j_chans j' ! c) = chan_buf (j_chans j ! c)"
proof -
  have s: "distinct (j_subs j)" "\<forall>n \<in> set (j_subs j). n < length (j_chans j)"
    using assms(2) by (simp_all add: subs_inv_def)
  from assms(1) obtain cs where cs: "update_chans close_chan (j_subs j) (j_chans j) = Some cs"
    "j' = j\<lparr>j_chans := cs, j_subs := []\<rparr>" by (auto simp: finishSubs_def)
  note n = update_chans_nth [OF cs(1) s]
  from n cs(2) show "length (j_chans j') = length (j_chans j)" "j_subs j' = []" by simp_all
  assume c: "c < length (j_chans j)"
  show "chan_closed (j_chans j' ! c) = (chan_closed (j_chans j ! c) \<or> c \<in> set (j_subs j)) \<and>
      chan_buf (j_chans j' ! c) = chan_buf (j_chans j ! c)"
  proof (cases "c \<in> set (j_subs j)")
    case True
    with n c have "Some (cs ! c) = close_chan (j_chans j ! c)" by auto
    then have "cs ! c = (j_chans j ! c)\<lparr>chan_closed := True\<rparr>"
      by (simp add: close_chan_def split: if_splits)
    with True show ?thesis by (simp add: cs(2))
  next
    case False
    with n c have "cs ! c = j_chans j ! c" by auto
    with False show ?thesis by (simp add: cs(2))
  qed
qed

subsection \<open>What a step does to the channels\<close>

text \<open>The part of a job that concerns its subscribers.\<close>

definition chans_same :: "job \<Rightarrow> job \<Rightarrow> bool" where
  "chans_same j j' \<longleftrightarrow> j_subs j' = j_subs j \<and> j_chans j' = j_chans j"

fun received :: "nat \<Rightarrow> ev list \<Rightarrow> string list" where
  "received c [] = []"
| "received c (EvReceive d l # es) = (if c = d then l # received c es else received c es)"
| "received c (_ # es) = received c es"

lemma received_append [simp]: "received c (xs @ ys) = received c xs @ received c ys"
  by (induction c xs rule: received.induct) simp_all

lemma received_records [simp]: "received c (map (EvRecord st) rs) = []"
  by (induction rs) simp_all

lemma received_publish [simp]: "received c (publish_event st r # es) = received c es"
  by (simp add: publish_event_def)

definition after_close :: "phase \<Rightarrow> bool" where
  "after_close p \<longleftrightarrow> p \<in> {SubsClosed, PipeClosed, Exited}"

fun quiet_phase :: "phase \<Rightarrow> bool" where
  "quiet_phase (Returned _ _) = False"
| "quiet_phase (FlushedOut _ _) = False"
| "quiet_phase (FlushedErr _ _) = False"
| "quiet_phase Recorded = False"
| "quiet_phase _ = True"

lemma main_step_quiet:
  assumes "main_step now s = Goes es s'"
    and "quiet_phase (sy_phase s)"
  shows "chans_same (sy_job s) (sy_job s') \<and> published es = [] \<and> (\<forall>c. received c es = []) \<and>
    after_close (sy_phase s') = after_close (sy_phase s)"
  using assms
  by (cases "sy_phase s") (auto simp: main_step_def Let_def chans_same_def after_close_def
      split: if_splits)

lemma main_step_chans:
  assumes "main_step now s = Goes es s'"
  obtains (same) "chans_same (sy_job s) (sy_job s')" "published es = []" "\<And>c. received c es = []"
      "after_close (sy_phase s') = after_close (sy_phase s)"
  | (close) "sy_phase s = Recorded" "sy_phase s' = SubsClosed" "finishSubs (sy_job s) = Some (sy_job s')"
      "es = []"
proof -
  have quiet: thesis if "quiet_phase (sy_phase s)"
    using main_step_quiet [OF assms that] by (intro same) blast+
  show thesis
proof (cases "sy_phase s")
  case (Returned e x)
  obtain rs j' where f: "flush_stream StreamStdout (sy_job s) = (rs, j')" by (metis surj_pair)
  from flush_stream_same [OF f] assms Returned f show ?thesis
    by (intro same) (auto simp: main_step_def Let_def chans_same_def same_frame_def after_close_def
        split: if_splits)
next
  case (FlushedOut e x)
  obtain rs j' where f: "flush_stream StreamStderr (sy_job s) = (rs, j')" by (metis surj_pair)
  from flush_stream_same [OF f] assms FlushedOut f show ?thesis
    by (intro same) (auto simp: main_step_def Let_def chans_same_def same_frame_def after_close_def
        split: if_splits)
next
  case (FlushedErr e x)
  obtain p rs j' where f: "write_stream StreamStderr p (sy_job s) = (rs, j')"
    "(case e of None \<Rightarrow> ([], sy_job s)
      | Some msg \<Rightarrow> write_stream StreamStderr (shell_error_text msg) (sy_job s)) = (rs, j')"
    using write_nothing [of StreamStderr "sy_job s"]
    by (cases e) (auto, metis surj_pair)
  from write_stream_same [OF f(1)] assms FlushedErr f(2) show ?thesis
    by (intro same) (auto simp: main_step_def Let_def chans_same_def same_frame_def after_close_def
        split: if_splits prod.splits)
next
  case Recorded
  with assms show ?thesis
    by (intro close) (auto simp: main_step_def Let_def split: if_splits option.splits)
qed (simp_all add: quiet)
qed

fun plain_label :: "label \<Rightarrow> bool" where
  "plain_label (LPersist _) = True"
| "plain_label (LReturn _ _) = True"
| "plain_label LKill = True"
| "plain_label (LStore _) = True"
| "plain_label (LOtherLine _ _ _ _) = True"
| "plain_label (LOtherFinish _ _ _ _) = True"
| "plain_label (LRetain _ _) = True"
| "plain_label _ = False"

lemma jstep_plain:
  assumes "jstep l s = Goes es s'" "plain_label l"
  shows "chans_same (sy_job s) (sy_job s') \<and> published es = [] \<and> (\<forall>c. received c es = []) \<and>
    after_close (sy_phase s') = after_close (sy_phase s)"
  using assms
  by (cases l) (auto simp: chans_same_def Kill_def after_close_def Let_def
      split: if_splits list.splits pend.splits bool.splits option.splits)

lemma jstep_chans:
  assumes "jstep l s = Goes es s'"
  obtains (same) "chans_same (sy_job s) (sy_job s')" "published es = []" "\<And>c. received c es = []"
      "after_close (sy_phase s') = after_close (sy_phase s)"
  | (publishes) st r where "es = [publish_event st r]" "publishLine (Line r) (sy_job s) = Some (sy_job s')"
      "sy_phase s' = sy_phase s"
  | (subscribes) "es = []" "sy_job s' = snd (registerSub (sy_job s))" "sy_phase s' = sy_phase s"
  | (receives) c t rest where "es = [EvReceive c t]" "c < length (j_chans (sy_job s))"
      "chan_buf (j_chans (sy_job s) ! c) = t # rest" "sy_phase s' = sy_phase s"
      "sy_job s' = (sy_job s)\<lparr>j_chans := (j_chans (sy_job s))
         [c := (j_chans (sy_job s) ! c)\<lparr>chan_buf := rest\<rparr>]\<rparr>"
  | (close) "sy_phase s = Recorded" "sy_phase s' = SubsClosed" "finishSubs (sy_job s) = Some (sy_job s')"
      "es = []"
proof -
  have plain: thesis if "plain_label l"
    using jstep_plain [OF assms that] by (intro same) blast+
  show thesis
  proof (cases l)
    case (LWrite t st p)
    from assms [unfolded LWrite] obtain rs j' where w: "write_stream st p (sy_job s) = (rs, j')"
      "es = map (EvRecord st) rs"
      "s' = s\<lparr>sy_job := j', sy_threads := add_pending t st rs (sy_threads s)\<rparr>" by (rule WriteE)
    from write_stream_same [OF w(1)] w show ?thesis
      by (intro same) (auto simp: chans_same_def same_frame_def)
  next
    case (LMain now)
    with assms have "main_step now s = Goes es s'" by simp
    then show ?thesis by (cases rule: main_step_chans) (use same close in blast)+
  next
    case (LPublish t)
    from assms [unfolded LPublish] show ?thesis
      by (rule PublishE) (rule publishes, simp_all)
  next
    case LSubscribe
    with assms show ?thesis by (intro subscribes) (auto elim: SubscribeE)
  next
    case (LReceive c)
    from assms [unfolded LReceive] show ?thesis
      by (rule ReceiveE) (rule receives, simp_all)
  next
    case (LStdin d c t)
    have "chans_same j (snd (Stdin d c t j))" for j
      by (auto simp: chans_same_def Stdin_def Let_def)
    with LStdin assms show ?thesis by (intro same) (auto elim: StdinE)
  qed (simp_all add: plain)
qed

subsection \<open>Invariants of the channels\<close>

definition chan_inv :: "jsys \<Rightarrow> bool" where
  "chan_inv s \<longleftrightarrow> subs_inv (sy_job s) \<and>
     (\<not> after_close (sy_phase s) \<longrightarrow> set (j_subs (sy_job s)) = {0..<length (j_chans (sy_job s))})"

lemma chan_inv_step:
  assumes "chan_inv s" "jstep l s = Goes es s'"
  shows "chan_inv s'"
  using assms(2)
proof (cases rule: jstep_chans)
  case same
  with assms(1) show ?thesis by (simp add: chan_inv_def subs_inv_def chans_same_def)
next
  case (publishes st r)
  have inv: "subs_inv (sy_job s)" using assms(1) by (simp add: chan_inv_def)
  note p = publishLine_chan [OF publishes(2) inv]
  from inv p have "subs_inv (sy_job s')" by (auto simp: subs_inv_def)
  with assms(1) p publishes(3) show ?thesis by (simp add: chan_inv_def)
next
  case subscribes
  with assms(1) show ?thesis
    by (auto simp: chan_inv_def subs_inv_def registerSub_def Let_def nth_append new_chan_def)
next
  case (receives c t rest)
  with assms(1) show ?thesis
    by (auto simp: chan_inv_def subs_inv_def nth_list_update)
next
  case close
  have inv: "subs_inv (sy_job s)" using assms(1) by (simp add: chan_inv_def)
  from finishSubs_chan [OF close(3) inv] close(2) show ?thesis
    by (simp add: chan_inv_def subs_inv_def after_close_def)
qed

lemma chan_inv_reach: "jreach s0 es s \<Longrightarrow> chan_inv s0 \<Longrightarrow> chan_inv s"
  by (induction rule: jreach.induct) (auto intro: chan_inv_step)

lemma chan_inv_start: "chan_inv (start_sys ml i c now st)"
  by (simp add: chan_inv_def subs_inv_def start_sys_def new_job_def)

text \<open>One channel that existed at some point, as later steps see it.\<close>

definition chan_track :: "nat \<Rightarrow> jsys \<Rightarrow> bool" where
  "chan_track c s \<longleftrightarrow> c < length (j_chans (sy_job s)) \<and>
     (after_close (sy_phase s) \<longrightarrow> chan_closed (j_chans (sy_job s) ! c))"

lemma chan_track_step:
  assumes "chan_track c s" "chan_inv s" "jstep l s = Goes es s'"
  shows "chan_track c s'"
  using assms(3)
proof (cases rule: jstep_chans)
  case same
  with assms(1) show ?thesis by (simp add: chan_track_def chans_same_def)
next
  case (publishes st r)
  have inv: "subs_inv (sy_job s)" using assms(2) by (simp add: chan_inv_def)
  from publishLine_chan [OF publishes(2) inv] publishes(3) assms(1) show ?thesis
    by (simp add: chan_track_def)
next
  case subscribes
  with assms(1) show ?thesis
    by (auto simp: chan_track_def registerSub_def Let_def nth_append)
next
  case (receives d t rest)
  with assms(1) show ?thesis by (auto simp: chan_track_def nth_list_update)
next
  case close
  have inv: "subs_inv (sy_job s)" using assms(2) by (simp add: chan_inv_def)
  have "set (j_subs (sy_job s)) = {0..<length (j_chans (sy_job s))}"
    using assms(2) close(1) by (simp add: chan_inv_def after_close_def)
  with finishSubs_chan [OF close(3) inv] assms(1) show ?thesis by (simp add: chan_track_def)
qed

lemma chan_track_reach:
  "jreach s0 es s \<Longrightarrow> chan_inv s0 \<Longrightarrow> chan_track c s0 \<Longrightarrow> chan_track c s"
  by (induction rule: jreach.induct) (auto intro: chan_track_step chan_inv_reach)

text \<open>A channel that is open after the subscribers were released stays open.\<close>

lemma late_chan_step:
  assumes "chan_inv s" "after_close (sy_phase s)" "c < length (j_chans (sy_job s))"
    and "\<not> chan_closed (j_chans (sy_job s) ! c)" "jstep l s = Goes es s'"
  shows "after_close (sy_phase s') \<and> c < length (j_chans (sy_job s')) \<and>
    \<not> chan_closed (j_chans (sy_job s') ! c)"
  using assms(5)
proof (cases rule: jstep_chans)
  case same
  with assms show ?thesis by (simp add: chans_same_def)
next
  case (publishes st r)
  have inv: "subs_inv (sy_job s)" using assms(1) by (simp add: chan_inv_def)
  from publishLine_chan [OF publishes(2) inv] publishes(3) assms show ?thesis by simp
next
  case subscribes
  with assms show ?thesis by (auto simp: registerSub_def Let_def nth_append)
next
  case (receives d t rest)
  with assms show ?thesis by (auto simp: nth_list_update)
next
  case close
  with assms(2) show ?thesis by (simp add: after_close_def)
qed

lemma late_chan_reach:
  "jreach s0 es s \<Longrightarrow> chan_inv s0 \<Longrightarrow> after_close (sy_phase s0) \<Longrightarrow> c < length (j_chans (sy_job s0)) \<Longrightarrow>
   \<not> chan_closed (j_chans (sy_job s0) ! c) \<Longrightarrow>
   after_close (sy_phase s) \<and> c < length (j_chans (sy_job s)) \<and> \<not> chan_closed (j_chans (sy_job s) ! c)"
proof (induction rule: jreach.induct)
  case (step es s l es' s')
  with late_chan_step [OF chan_inv_reach [OF step.hyps(1)]] show ?case by blast
qed simp

subsection \<open>What a subscriber is sent\<close>

definition texts_sent :: "ev list \<Rightarrow> string list" where
  "texts_sent es = map (\<lambda>x. Line (snd x)) (published es)"

lemma texts_sent_append [simp]: "texts_sent (xs @ ys) = texts_sent xs @ texts_sent ys"
  by (simp add: texts_sent_def)

definition delivery_inv :: "nat \<Rightarrow> ev list \<Rightarrow> jsys \<Rightarrow> bool" where
  "delivery_inv c es s \<longleftrightarrow> c < length (j_chans (sy_job s)) \<and>
     (c \<in> set (j_subs (sy_job s)) \<and> length (texts_sent es) \<le> subscriberCap \<longrightarrow>
      received c es @ chan_buf (j_chans (sy_job s) ! c) = texts_sent es)"

lemma delivery_inv_step:
  assumes "delivery_inv c es s" "chan_inv s" "jstep l s = Goes es' s'"
  shows "delivery_inv c (es @ es') s'"
  using assms(3)
proof (cases rule: jstep_chans)
  case same
  with assms(1) show ?thesis
    by (simp add: delivery_inv_def chans_same_def texts_sent_def)
next
  case (publishes st r)
  have inv: "subs_inv (sy_job s)" using assms(2) by (simp add: chan_inv_def)
  note p = publishLine_chan [OF publishes(2) inv]
  show ?thesis
  proof (cases "c \<in> set (j_subs (sy_job s)) \<and> length (texts_sent (es @ es')) \<le> subscriberCap")
    case True
    then have old: "received c es @ chan_buf (j_chans (sy_job s) ! c) = texts_sent es"
      and c: "c < length (j_chans (sy_job s))"
      using assms(1) by (simp_all add: delivery_inv_def)
    from old have "length (chan_buf (j_chans (sy_job s) ! c)) \<le> length (texts_sent es)"
      by (metis length_append le_add2)
    with True have "Line r \<noteq> '''' \<Longrightarrow> length (chan_buf (j_chans (sy_job s) ! c)) < subscriberCap"
      by (simp add: texts_sent_def publishes(1))
    with p(4) [OF c] True old p(1) c show ?thesis
      by (auto simp: delivery_inv_def publishes(1) texts_sent_def)
  next
    case False
    with assms(1) p(1,2) show ?thesis by (auto simp: delivery_inv_def)
  qed
next
  case subscribes
  with assms(1) show ?thesis
    by (auto simp: delivery_inv_def registerSub_def Let_def nth_append)
next
  case (receives d t rest)
  with assms(1) show ?thesis
    by (auto simp: delivery_inv_def nth_list_update texts_sent_def)
next
  case close
  have inv: "subs_inv (sy_job s)" using assms(2) by (simp add: chan_inv_def)
  from finishSubs_chan [OF close(3) inv] assms(1) show ?thesis
    by (simp add: delivery_inv_def close(4))
qed

lemma delivery_inv_reach:
  "jreach s0 es s \<Longrightarrow> chan_inv s0 \<Longrightarrow> delivery_inv c [] s0 \<Longrightarrow> delivery_inv c es s"
  by (induction rule: jreach.induct) (auto intro: delivery_inv_step chan_inv_reach)

text \<open>Lines whose publication is still due.\<close>

definition unpublished :: "jsys \<Rightarrow> (int \<times> line_rec) multiset" where
  "unpublished s = image_mset (\<lambda>p. (p_stream p, p_rec p)) (filter_mset (\<lambda>p. \<not> p_pub p) (pendings s))"

lemma unpublished_step:
  assumes "jstep l s = Goes es s'" "sy_threads s \<noteq> []"
  shows "mset (history es) + unpublished s = handled es + unpublished s'"
  using assms
proof (cases rule: jstep_elim [where i = undefined])
  case (completes st rs)
  have "filter_mset (\<lambda>p. \<not> p_pub p) (mset (map (Pend st False) rs)) = mset (map (Pend st False) rs)"
    by (simp add: filter_mset_eq_conv)
  with completes show ?thesis
    by (simp add: unpublished_def multiset.map_comp comp_def add.commute del: mset_map)
      (simp add: multiset.map_comp comp_def)
next
  case (publishes st r)
  from arg_cong [OF publishes(3), of "\<lambda>M. image_mset (\<lambda>p. (p_stream p, p_rec p)) (filter_mset (\<lambda>p. \<not> p_pub p) M)"]
  show ?thesis by (simp add: unpublished_def publishes(1))
next
  case (persists st r)
  from arg_cong [OF persists(3), of "\<lambda>M. image_mset (\<lambda>p. (p_stream p, p_rec p)) (filter_mset (\<lambda>p. \<not> p_pub p) M)"]
  show ?thesis by (simp add: unpublished_def handled_def persists(1))
next
  case other
  then show ?thesis by (simp add: unpublished_def)
qed

lemma unpublished_reach:
  assumes "jreach s0 es s" "sy_threads s0 \<noteq> []"
  shows "sy_threads s \<noteq> [] \<and> mset (history es) + unpublished s0 = handled es + unpublished s"
  using assms
proof (induction rule: jreach.induct)
  case (step es s l es' s')
  then have "sy_threads s \<noteq> []" and IH: "mset (history es) + unpublished s0 = handled es + unpublished s"
    by simp_all
  have "mset (history (es @ es')) + unpublished s0 = (mset (history es) + unpublished s0) + mset (history es')"
    by (simp add: union_ac)
  also have "\<dots> = handled es + (mset (history es') + unpublished s)"
    unfolding IH by (simp only: union_ac)
  also have "\<dots> = handled (es @ es') + unpublished s'"
    unfolding unpublished_step [OF step.hyps(2) \<open>sy_threads s \<noteq> []\<close>] by (simp add: union_ac)
  finally have "mset (history (es @ es')) + unpublished s0 = handled (es @ es') + unpublished s'" .
  with jstep_threads [OF step.hyps(2) \<open>sy_threads s \<noteq> []\<close>] show ?case by simp
qed (simp add: handled_def)

text \<open>Only lines with text are published, only blank ones are passed over.\<close>

lemma publish_step_texts:
  assumes "jstep l s = Goes es s'" "sy_threads s \<noteq> []"
  shows "list_all (\<lambda>x. Line (snd x) \<noteq> []) (published es) \<and> list_all (\<lambda>x. Line (snd x) = []) (blanks es)"
  using assms
proof (cases rule: jstep_elim [where i = undefined])
  case (publishes st r)
  then show ?thesis by (simp add: publish_event_def)
next
  case (persists st r)
  then show ?thesis by simp
qed (simp_all add: handled_def)

lemma publish_reach_texts:
  assumes "jreach s0 es s" "sy_threads s0 \<noteq> []"
  shows "list_all (\<lambda>x. Line (snd x) \<noteq> []) (published es) \<and> list_all (\<lambda>x. Line (snd x) = []) (blanks es)"
  using assms
proof (induction rule: jreach.induct)
  case (step es s l es' s')
  from publish_step_texts [OF step.hyps(2)] unpublished_reach [OF step.hyps(1) step.prems] step.IH [OF step.prems]
  show ?case by simp
qed simp

text \<open>
  A line whose callback is due at some point, or that is completed later, has its callback
  later: if it is not blank it is published, or its callback is still due.
\<close>

lemma due_lines_published:
  assumes "jreach s0 es s" "sy_threads s0 \<noteq> []" "(k, r) \<in># mset (history es) + unpublished s0" "Line r \<noteq> []"
  shows "(k, r) \<in> set (published es) \<or> (k, r) \<in># unpublished s"
proof -
  have "(k, r) \<in># handled es + unpublished s"
    using unpublished_reach [OF assms(1,2)] assms(3) by metis
  moreover have "(k, r) \<notin> set (blanks es)"
    using publish_reach_texts [OF assms(1,2)] assms(4) by (auto simp: list_all_iff)
  ultimately show ?thesis by (auto simp: handled_def)
qed

text \<open>
  While \<open>Subscribe\<close> holds \<open>subMu\<close>, nothing is published: what is completed after a ring
  was copied comes after the registration.
\<close>

lemma lines_after_copy:
  assumes "jreach s0 es sb" "sy_threads s0 \<noteq> []" "published es = []"
    and "sy_threads sb' = sy_threads sb" "jreach sb' es2 s2"
    and "(k, r) \<in> set (history es) \<or> (k, r) \<in> set (history es2)" "Line r \<noteq> []"
  shows "(k, r) \<in> set (published es2) \<or> (k, r) \<in># unpublished s2"
proof -
  have th: "sy_threads sb' \<noteq> []" "unpublished sb' = unpublished sb"
    using unpublished_reach [OF assms(1,2)] by (simp_all add: assms(4) unpublished_def pendings_def)
  have "(k, r) \<in># mset (history es2) + unpublished sb'"
    using assms(6) due_lines_published [OF assms(1,2) _ assms(7), of k] assms(3) th(2) by auto
  from due_lines_published [OF assms(5) th(1) this assms(7)] show ?thesis .
qed

lemma later_line_published:
  assumes "jreach (start_sys ml i c now st) es0 s0" "jreach s0 ea sa" "jreach sa eb sb"
    and "published (ea @ eb) = []" "sy_threads sb' = sy_threads sb" "jreach sb' es2 s2"
    and "(k, r) \<in> set (history (es0 @ ea @ eb @ es2))" "Line r \<noteq> []"
    and "(k, r) \<notin> set (history (if k = StreamStdout then es0 else es0 @ ea))"
  shows "(k, r) \<in> set (published es2) \<or> (k, r) \<in># unpublished s2"
proof -
  have ra: "jreach (start_sys ml i c now st) (es0 @ ea) sa" by (rule jreach_compose [OF assms(2,1)])
  have th: "sy_threads s0 \<noteq> []" "sy_threads sa \<noteq> []"
    using run_inv_reach [OF assms(1)] run_inv_reach [OF ra] by (simp_all add: run_inv_def)
  show ?thesis
  proof (cases "k = StreamStdout")
    case True
    with assms(7-9) show ?thesis
      by (intro lines_after_copy [OF jreach_compose [OF assms(3,2)] th(1) assms(4,5,6)]) auto
  next
    case False
    with assms(4,7-9) show ?thesis
      by (intro lines_after_copy [OF assms(3) th(2) _ assms(5,6)]) auto
  qed
qed

end
