(* ===== verification/JobEnd.thy ===== *)
theory JobEnd
  imports JobChans
begin

text \<open>
  How a job ends (the tail of \<open>Execute\<close> in \<open>internal/jobsvc/manager.go\<close>): the verdict,
  the one finish record, and the properties of a job's whole life.
\<close>

fun finish_records :: "ev list \<Rightarrow> (bool \<times> job_state \<times> int) list" where
  "finish_records [] = []"
| "finish_records (EvFinish ok st x # es) = (ok, st, x) # finish_records es"
| "finish_records (_ # es) = finish_records es"

lemma finish_records_append [simp]: "finish_records (xs @ ys) = finish_records xs @ finish_records ys"
  by (induction xs rule: finish_records.induct) simp_all

lemma finish_records_map [simp]: "finish_records (map (EvRecord st) rs) = []"
  by (induction rs) simp_all

lemma finish_records_publish [simp]: "finish_records (publish_event st r # es) = finish_records es"
  by (simp add: publish_event_def)

definition verdict :: "job_state \<Rightarrow> job \<Rightarrow> bool" where
  "verdict st j \<longleftrightarrow> st \<noteq> StateRunning \<and> (st = StateDone \<longrightarrow> j_ExitCode j = 0) \<and>
     (st = StateKilled \<longrightarrow> j_cancelled j)"

fun phase_inv :: "phase \<Rightarrow> ev list \<Rightarrow> job \<Rightarrow> bool" where
  "phase_inv (Judged st) es j \<longleftrightarrow> j_State j = StateRunning \<and> finish_records es = [] \<and> verdict st j \<and> \<not> j_done j"
| "phase_inv Marked es j \<longleftrightarrow> verdict (j_State j) j \<and> finish_records es = [] \<and> \<not> j_done j"
| "phase_inv Stated es j \<longleftrightarrow> verdict (j_State j) j \<and> finish_records es = [] \<and> \<not> j_done j"
| "phase_inv Recorded es j \<longleftrightarrow> verdict (j_State j) j \<and> \<not> j_done j \<and>
     (\<exists>ok. finish_records es = [(ok, j_State j, j_ExitCode j)])"
| "phase_inv SubsClosed es j \<longleftrightarrow> verdict (j_State j) j \<and> \<not> j_done j \<and>
     (\<exists>ok. finish_records es = [(ok, j_State j, j_ExitCode j)])"
| "phase_inv PipeClosed es j \<longleftrightarrow> verdict (j_State j) j \<and> \<not> j_done j \<and> j_stdin_closed j \<and>
     (\<exists>ok. finish_records es = [(ok, j_State j, j_ExitCode j)])"
| "phase_inv Exited es j \<longleftrightarrow> verdict (j_State j) j \<and> j_done j \<and> j_stdin_closed j \<and>
     (\<exists>ok. finish_records es = [(ok, j_State j, j_ExitCode j)])"
| "phase_inv _ es j \<longleftrightarrow> j_State j = StateRunning \<and> finish_records es = [] \<and> \<not> j_done j"

definition life_same :: "job \<Rightarrow> job \<Rightarrow> bool" where
  "life_same j j' \<longleftrightarrow> j_State j' = j_State j \<and> j_ExitCode j' = j_ExitCode j \<and> j_done j' = j_done j \<and>
     (j_cancelled j \<longrightarrow> j_cancelled j') \<and> (j_stdin_closed j \<longrightarrow> j_stdin_closed j')"

lemma phase_inv_same:
  "phase_inv p es j \<Longrightarrow> life_same j j' \<Longrightarrow> finish_records es' = [] \<Longrightarrow> phase_inv p (es @ es') j'"
  by (cases p) (auto simp: life_same_def verdict_def)

lemma job_outcome_verdict:
  "job_outcome e c x = (st, code) \<Longrightarrow> st \<noteq> StateRunning \<and> (st = StateDone \<longrightarrow> code = 0) \<and> (st = StateKilled \<longrightarrow> c)"
  by (auto simp: job_outcome_def split: if_splits)

lemma same_frame_life: "same_frame j j' \<Longrightarrow> life_same j j'"
  by (simp add: same_frame_def life_same_def)

lemma main_step_phase:
  assumes "phase_inv (sy_phase s) es (sy_job s)" "main_step now s = Goes es' s'"
  shows "phase_inv (sy_phase s') (es @ es') (sy_job s')"
proof (cases "sy_phase s")
  case (Returned e x)
  obtain rs j' where f: "flush_stream StreamStdout (sy_job s) = (rs, j')" by (metis surj_pair)
  from flush_stream_same [OF f] f assms Returned show ?thesis
    by (auto simp: main_step_def Let_def same_frame_def split: if_splits)
next
  case (FlushedOut e x)
  obtain rs j' where f: "flush_stream StreamStderr (sy_job s) = (rs, j')" by (metis surj_pair)
  from flush_stream_same [OF f] f assms FlushedOut show ?thesis
    by (auto simp: main_step_def Let_def same_frame_def split: if_splits)
next
  case (FlushedErr e x)
  obtain p rs j' where f: "write_stream StreamStderr p (sy_job s) = (rs, j')"
    "(case e of None \<Rightarrow> ([], sy_job s)
      | Some msg \<Rightarrow> write_stream StreamStderr (shell_error_text msg) (sy_job s)) = (rs, j')"
    using write_nothing [of StreamStderr "sy_job s"]
    by (cases e) (auto, metis surj_pair)
  obtain st code where o: "job_outcome e (j_cancelled (sy_job s)) x = (st, code)" by (metis surj_pair)
  from assms(2) FlushedErr f(2) o have "sy_phase s' = Judged st" "sy_job s' = j'\<lparr>j_ExitCode := code\<rparr>"
    "es' = map (EvRecord StreamStderr) rs"
    by (auto simp: main_step_def Let_def split: if_splits)
  with assms(1) FlushedErr write_stream_same [OF f(1)] job_outcome_verdict [OF o] show ?thesis
    by (auto simp: same_frame_def verdict_def)
next
  case Recorded
  with assms(2) obtain j' where "finishSubs (sy_job s) = Some j'" "es' = []"
    "s' = s\<lparr>sy_job := j', sy_phase := SubsClosed\<rparr>"
    by (auto simp: main_step_def Let_def split: if_splits option.splits)
  moreover from this(1) have "life_same (sy_job s) j'"
    by (auto simp: finishSubs_def life_same_def)
  ultimately show ?thesis
    using assms(1) Recorded by (auto simp: life_same_def verdict_def)
qed (use assms in \<open>auto simp: main_step_def Let_def verdict_def split: if_splits\<close>)

lemma jstep_life:
  assumes "jstep l s = Goes es s'" "\<not> (\<exists>now. l = LMain now)"
  shows "life_same (sy_job s) (sy_job s') \<and> finish_records es = [] \<and>
    (sy_phase s' = sy_phase s \<or> (sy_phase s = Running \<and> (\<exists>e x. l = LReturn e x \<and> sy_phase s' = Returned e x)))"
proof (cases l)
  case (LWrite t st p)
  obtain rs j' where w: "write_stream st p (sy_job s) = (rs, j')" by (metis surj_pair)
  from same_frame_life [OF write_stream_same [OF w]] w assms LWrite show ?thesis
    by (auto split: if_splits)
next
  case (LPublish t)
  have "publishLine l j = Some j' \<Longrightarrow> life_same j j'" for l j j'
    by (auto simp: publishLine_def life_same_def split: if_splits)
  with LPublish assms show ?thesis
    by (auto split: if_splits list.splits pend.splits bool.splits option.splits)
next
  case (LStdin d c t)
  have "life_same j (snd (Stdin d c t j))" for j
    by (auto simp: life_same_def Stdin_def Let_def)
  with LStdin assms show ?thesis by auto
next
  case LSubscribe
  have "life_same j (snd (registerSub j))" for j
    by (auto simp: life_same_def registerSub_def Let_def)
  with LSubscribe assms show ?thesis by auto
next
  case (LReceive c)
  with assms show ?thesis by (auto simp: life_same_def split: if_splits list.splits)
qed (use assms in \<open>auto simp: life_same_def Kill_def Let_def
      split: if_splits list.splits pend.splits bool.splits option.splits\<close>)

lemma phase_inv_step:
  assumes "phase_inv (sy_phase s) es (sy_job s)" "jstep l s = Goes es' s'"
  shows "phase_inv (sy_phase s') (es @ es') (sy_job s')"
proof (cases "\<exists>now. l = LMain now")
  case True
  with main_step_phase [OF assms(1)] assms(2) show ?thesis by auto
next
  case False
  from jstep_life [OF assms(2) False] phase_inv_same [OF assms(1)] show ?thesis
    by (metis phase_inv.simps(8,9))
qed

lemma phase_inv_reach:
  "jreach (start_sys ml i c now st) es s \<Longrightarrow> phase_inv (sy_phase s) es (sy_job s)"
  by (induction rule: jreach.induct) (auto intro: phase_inv_step simp: start_sys_def new_job_def)

subsection \<open>Sample runs\<close>

lemmas jrun_simps = start_sys_def new_job_def NewLineBuffer_def write_stream_def lb_Write_def
  lb_byte_def lb_complete_def lb_push_def CR_def LF_def add_pending_def publishLine_def
  store_line_of_def StreamStdout_def StreamStderr_def TryEnqueueLine_def channelCap_def
  sample_store_row flush_def calm_flush_def writeBatchLen_def Let_def main_step_def
  flush_stream_def lb_FlushLine_def job_outcome_def FinishJob_def finishSubs_def sql_insert_line_def
  line_key_def sql_finish_job_def publish_event_def

definition sample_start :: jsys where
  "sample_start = start_sys 10 ''j'' ''ls'' 5 sample_store"

definition line_labels :: "label list" where
  "line_labels = [LWrite 1 0 [CHR ''a'', LF], LPublish 1, LPersist 1]"

definition end_labels :: "label list" where
  "end_labels = [LReturn None 0, LMain 9, LMain 9, LMain 9, LMain 9, LMain 9, LMain 9, LMain 9]"

definition store_labels :: "label list" where
  "store_labels = [LStore (EvWriter (CaseRecv calm_flush True)), LStore (EvWriter (CaseRecv calm_flush True))]"

lemma sample_fresh: "fresh_in ''j'' sample_store"
  by (simp add: fresh_in_def job_lines_def sample_store_row db_inv_def lines_for_def)

lemma sample_life:
  "\<exists>s. jrun (line_labels @ end_labels @ [LMain 9, LMain 9] @ store_labels) sample_start =
    Goes [EvRecord 0 (LineRec 1 ''a''), EvPublish 0 (LineRec 1 ''a''),
      EvOffer True (store_line_of ''j'' 0 (LineRec 1 ''a'')), EvFinish True StateDone 0,
      EvStore (EvWriter (CaseRecv calm_flush True)), EvStore (EvWriter (CaseRecv calm_flush True))] s \<and>
    sy_threads s = [[], []] \<and> owed (sy_store s) = [] \<and> sy_phase s = Exited"
  unfolding line_labels_def end_labels_def store_labels_def sample_start_def
  by (simp add: jrun_simps owed_def)

lemma sample_events_good:
  "list_all (ev_ok ''j'') [EvRecord 0 (LineRec 1 ''a''), EvPublish 0 (LineRec 1 ''a''),
      EvOffer True (store_line_of ''j'' 0 (LineRec 1 ''a'')), EvFinish True StateDone 0,
      EvStore (EvWriter (CaseRecv calm_flush True)), EvStore (EvWriter (CaseRecv calm_flush True))]"
  by (simp add: flush_good_def calm_flush_def)

text \<open>A subscriber that comes between \<open>finishSubs\<close> and \<open>close(done)\<close>.\<close>

lemma sample_late:
  "\<exists>s. jrun (line_labels @ end_labels) sample_start = Goes [EvRecord 0 (LineRec 1 ''a''),
      EvPublish 0 (LineRec 1 ''a''), EvOffer True (store_line_of ''j'' 0 (LineRec 1 ''a'')),
      EvFinish True StateDone 0] s \<and> sy_phase s = SubsClosed \<and> j_chans (sy_job s) = [] \<and>
      \<not> j_done (sy_job s)"
  unfolding line_labels_def end_labels_def sample_start_def
  by (simp add: jrun_simps)

subsection \<open>Properties\<close>

text \<open>
  The merged history is the whole history. In every state of a job's life in which the
  database calls have succeeded, if each completed line is either persisted or newer than
  all that is persisted and still in the ring, the merge of the two is exactly the lines
  completed so far, in sequence order, for each stream and for both.
\<close>

theorem merged_history_is_complete:
  assumes "jreach (start_sys ml i c now st) es s" and "fresh_in i st" and "list_all (ev_ok i) es"
    and "Get i m = Some (sy_job s)" and "m_store m = sy_store s"
    and "stream \<in> {- 1, StreamStdout, StreamStderr}"
    and "\<forall>r \<in> set (on_stream stream (history es)).
      r \<in> set (sql_query_lines i stream (db (sy_store s))) \<or>
      (r \<in> set (ring_recs stream (sy_job s)) \<and>
       max_seq (sql_query_lines i stream (db (sy_store s))) < Seq r)"
  shows "readMerged True i stream m = Inr (on_stream stream (history es))"
  by (rule merged_history [OF run_inv_reach [OF assms(1)] store_inv_reach [OF assms(1,2)] assms(3-7)])

theorem merged_history_is_complete_witness:
  "\<exists>es s m. jrun line_labels sample_start = Goes es s \<and>
     m = \<lparr>m_store = sy_store s, m_memLines = 10, m_replay = 10, m_jobs = [(''j'', sy_job s)]\<rparr> \<and>
     readMerged True ''j'' 0 m = Inr [LineRec 1 ''a'']"
proof -
  let ?es = "[EvRecord 0 (LineRec 1 ''a''), EvPublish 0 (LineRec 1 ''a''),
        EvOffer True (store_line_of ''j'' 0 (LineRec 1 ''a''))]"
  have "\<exists>s. jrun line_labels sample_start = Goes ?es s \<and> recs (j_Stdout (sy_job s)) = [LineRec 1 ''a''] \<and>
      db_lines (db (sy_store s)) = []"
    unfolding line_labels_def sample_start_def by (simp add: jrun_simps)
  then obtain s where run: "jrun line_labels sample_start = Goes ?es s"
    "recs (j_Stdout (sy_job s)) = [LineRec 1 ''a'']" "db_lines (db (sy_store s)) = []" by blast
  let ?m = "\<lparr>m_store = sy_store s, m_memLines = 10, m_replay = 10, m_jobs = [(''j'', sy_job s)]\<rparr>"
  have "jreach (start_sys 10 ''j'' ''ls'' 5 sample_store) ?es s"
    using jrun_reach [OF run(1)] by (simp add: sample_start_def)
  from merged_history_is_complete [OF this sample_fresh, of ?m 0] run(2,3)
  have "readMerged True ''j'' 0 ?m = Inr [LineRec 1 ''a'']"
    by (simp add: Get_def StreamStdout_def on_stream_def sql_query_lines_def max_seq_def ring_recs_def
        lb_Recs_def)
  with run(1) show ?thesis by blast
qed

lemma settled_merged:
  assumes "jreach (start_sys ml i c now st) es s" and "fresh_in i st" and "list_all (ev_ok i) es"
    and "list_all fst (offers es)" and "concat (sy_threads s) = []" and "owed (sy_store s) = []"
    and "Get i m \<in> {None, Some (sy_job s)}" and "m_store m = sy_store s"
    and "stm \<in> {- 1, StreamStdout, StreamStderr}"
  shows "readMerged True i stm m = Inr (on_stream stm (history es))"
proof -
  have run: "run_inv i es s" by (rule run_inv_reach [OF assms(1)])
  then have h: "hist_inv (history es) (sy_job s)" by (simp add: run_inv_def)
  have sto: "store_inv i es s" by (rule store_inv_reach [OF assms(1,2)])
  let ?p = "sql_query_lines i stm (db (sy_store s))"
  have sub: "set (on_stream stm (history es)) \<subseteq> set ?p"
    using drained_persisted [OF run sto assms(3,4) _ assms(6)] assms(5) by (simp add: pendings_def)
  show ?thesis
  proof (cases "Get i m")
    case None
    have "db_inv (db (sy_store s))" using sto by (simp add: store_inv_def)
    then have "?p = on_stream stm (history es)"
      using sub persisted_in_history [OF run sto assms(3)] hist_inv_sorted [OF h]
      by (intro sorted_records_unique sorted_query_lines) auto
    then show ?thesis by (simp add: readMerged_def QueryLines_def Let_def None assms(8))
  next
    case (Some j)
    with assms(7) have "Get i m = Some (sy_job s)" by simp
    from merged_history [OF run sto assms(3) this assms(8,9)] sub show ?thesis by blast
  qed
qed

text \<open>
  C6. A settled job's output is complete. Once no callback is pending and the writer has
  caught up, with no line refused by a full queue and no database error, the history query
  answers with every line the job ever completed, in order, whether the job is still
  registered or was pruned; the replay tail is the end of it.
\<close>

theorem settled_output_is_complete:
  assumes "jreach (start_sys ml i c now st) es s" and "fresh_in i st" and "list_all (ev_ok i) es"
    and "list_all fst (offers es)" and "concat (sy_threads s) = []" and "owed (sy_store s) = []"
    and "Get i m \<in> {None, Some (sy_job s)}" and "m_store m = sy_store s"
    and "stream \<in> {- 1, StreamStdout, StreamStderr}"
  shows "readMerged True i stream m = Inr (on_stream stream (history es)) \<and>
    ReplayTail True i n m = map Line (lastn n (map snd (history es)))"
proof -
  note merged = settled_merged [OF assms(1-8)]
  have "on_stream (- 1) (history es) = map snd (history es)"
    by (simp add: on_stream_def)
  with merged [OF assms(9)] merged [of "- 1"] show ?thesis
    by (simp add: ReplayTail_def lines_text_def)
qed

theorem settled_output_is_complete_witness:
  "\<exists>es s m. jrun (line_labels @ end_labels @ [LMain 9, LMain 9] @ store_labels) sample_start = Goes es s \<and>
     m = \<lparr>m_store = sy_store s, m_memLines = 10, m_replay = 10, m_jobs = []\<rparr> \<and>
     readMerged True ''j'' 0 m = Inr [LineRec 1 ''a''] \<and> ReplayTail True ''j'' 5 m = [''a'']"
proof -
  let ?es = "[EvRecord 0 (LineRec 1 ''a''), EvPublish 0 (LineRec 1 ''a''),
      EvOffer True (store_line_of ''j'' 0 (LineRec 1 ''a'')), EvFinish True StateDone 0,
      EvStore (EvWriter (CaseRecv calm_flush True)), EvStore (EvWriter (CaseRecv calm_flush True))]"
  obtain s where run: "jrun (line_labels @ end_labels @ [LMain 9, LMain 9] @ store_labels) sample_start =
      Goes ?es s" "sy_threads s = [[], []]" "owed (sy_store s) = []" using sample_life by blast
  let ?m = "\<lparr>m_store = sy_store s, m_memLines = 10, m_replay = 10, m_jobs = []\<rparr>"
  have "jreach (start_sys 10 ''j'' ''ls'' 5 sample_store) ?es s"
    using jrun_reach [OF run(1)] by (simp add: sample_start_def)
  from settled_output_is_complete [OF this sample_fresh sample_events_good, of ?m 0 5] run
  have "readMerged True ''j'' 0 ?m = Inr [LineRec 1 ''a''] \<and> ReplayTail True ''j'' 5 ?m = [''a'']"
    by (simp add: Get_def StreamStdout_def on_stream_def lastn_def)
  with run(1) show ?thesis by blast
qed

text \<open>
  C11. No run of a job panics. In no interleaving of writers, callbacks, requests and the
  job's goroutine is a line sent on a closed channel or a channel closed twice.
\<close>

theorem no_run_panics:
  assumes "jreach (start_sys ml i c now st) es s"
  shows "jstep l s \<noteq> Panics"
proof -
  have inv: "subs_inv (sy_job s)"
    using chan_inv_reach [OF assms chan_inv_start] by (simp add: chan_inv_def)
  show ?thesis
  proof (cases l)
    case (LPublish t)
    with subs_inv_publish [OF inv] show ?thesis
      by (auto split: list.splits pend.splits bool.splits option.splits) (metis option.simps(3))
  next
    case (LMain now')
    with subs_inv_finish [OF inv] show ?thesis
      by (auto simp: main_step_def Let_def split: phase.splits prod.splits option.splits)
  qed (auto simp: Let_def split: list.splits pend.splits bool.splits option.splits prod.splits)
qed

theorem no_run_panics_witness:
  "\<exists>es s. jreach sample_start es s \<and> sy_phase s = SubsClosed \<and> jstep (LMain 9) s \<noteq> Panics"
proof -
  from sample_late obtain es s where
    run: "jrun (line_labels @ end_labels) sample_start = Goes es s" "sy_phase s = SubsClosed" by blast
  have "jreach sample_start es s" by (rule jrun_reach [OF run(1)])
  with no_run_panics [of 10 "''j''" "''ls''" 5 sample_store es s] run(2) show ?thesis
    unfolding sample_start_def by blast
qed

text \<open>
  C37. Completion releases the subscribers. A channel handed out before the job's goroutine
  reached \<open>finishSubs\<close> is closed in every later state that is past it, so the loop of
  \<open>WatchJob\<close> over it ends.
\<close>

theorem subscribers_are_released:
  assumes "jreach (start_sys ml i c now st) es1 s1" and "jreach s1 es2 s2"
    and "n < length (j_chans (sy_job s1))" and "\<not> after_close (sy_phase s1)"
    and "after_close (sy_phase s2)"
  shows "chan_closed (j_chans (sy_job s2) ! n)"
  using chan_track_reach [OF assms(2) chan_inv_reach [OF assms(1) chan_inv_start], of n] assms(3-5)
  by (simp add: chan_track_def)

theorem subscribers_are_released_witness:
  "\<exists>es s. jrun (LSubscribe # line_labels @ end_labels) sample_start = Goes es s \<and>
     chan_closed (j_chans (sy_job s) ! 0)"
proof -
  let ?s1 = "sample_start\<lparr>sy_job := snd (registerSub (sy_job sample_start))\<rparr>"
  have one: "jrun [LSubscribe] sample_start = Goes [] ?s1" by simp
  have s1: "0 < length (j_chans (sy_job ?s1))" "\<not> after_close (sy_phase ?s1)"
    by (simp_all add: sample_start_def start_sys_def new_job_def registerSub_def after_close_def)
  have "\<exists>es s. jrun (line_labels @ end_labels) ?s1 = Goes es s \<and> sy_phase s = SubsClosed"
    unfolding line_labels_def end_labels_def sample_start_def
    by (simp add: jrun_simps registerSub_def sort_recs_def lb_Recs_def new_chan_def try_send_def
        subscriberCap_def close_chan_def)
  then obtain es s where two: "jrun (line_labels @ end_labels) ?s1 = Goes es s" "sy_phase s = SubsClosed"
    by blast
  have "chan_closed (j_chans (sy_job s) ! 0)"
    by (rule subscribers_are_released [OF _ jrun_reach [OF two(1)] s1])
      (use jrun_reach [OF one] two(2) in \<open>simp_all add: sample_start_def after_close_def\<close>)
  with two(1) show ?thesis by auto
qed

text \<open>
  C38. A subscriber that comes too late is never released. Between \<open>finishSubs\<close> and
  \<open>close(done)\<close>, \<open>Subscribe\<close> still hands out a channel, although nobody will close
  it: it is open in every state reachable from there, those after the job is done included,
  so \<open>WatchJob\<close> waits on it for ever.
\<close>

theorem late_subscriber_is_never_released:
  assumes "jreach (start_sys ml i c now st) es s" and "after_close (sy_phase s)"
    and "\<not> j_done (sy_job s)" and "jreach (s\<lparr>sy_job := snd (Subscribe jo je (sy_job s))\<rparr>) es2 s2"
  shows "\<exists>replay n. fst (Subscribe jo je (sy_job s)) = (replay, Some n) \<and> n < length (j_chans (sy_job s2)) \<and>
    \<not> chan_closed (j_chans (sy_job s2) ! n)"
proof -
  let ?s = "s\<lparr>sy_job := snd (registerSub (sy_job s))\<rparr>"
  let ?n = "length (j_chans (sy_job s))"
  have "jstep LSubscribe s = Goes [] ?s" by simp
  with chan_inv_step [OF chan_inv_reach [OF assms(1) chan_inv_start]] have "chan_inv ?s" by blast
  moreover have sub: "j_chans (sy_job ?s) = j_chans (sy_job s) @ [new_chan]"
    "snd (fst (Subscribe jo je (sy_job s))) = Some ?n"
    using assms(3) by (simp_all add: registerSub_def Let_def)
  ultimately have "?n < length (j_chans (sy_job s2)) \<and> \<not> chan_closed (j_chans (sy_job s2) ! ?n)"
    using late_chan_reach [OF assms(4) [unfolded Subscribe_parts], of ?n] assms(2) by (simp add: new_chan_def)
  with sub(2) show ?thesis by (metis prod.collapse)
qed

theorem late_subscriber_is_never_released_witness:
  "\<exists>es s n s2. jrun (line_labels @ end_labels) sample_start = Goes es s \<and>
     snd (fst (Subscribe (sy_job s) (sy_job s) (sy_job s))) = Some n \<and>
     jrun [LMain 9, LMain 9] (s\<lparr>sy_job := snd (registerSub (sy_job s))\<rparr>) = Goes [] s2 \<and>
     j_done (sy_job s2) \<and> \<not> chan_closed (j_chans (sy_job s2) ! n)"
proof -
  from sample_late obtain es s where
    run: "jrun (line_labels @ end_labels) sample_start = Goes es s" "sy_phase s = SubsClosed"
      "\<not> j_done (sy_job s)" by blast
  have reach: "jreach (start_sys 10 ''j'' ''ls'' 5 sample_store) es s"
    using jrun_reach [OF run(1)] by (simp add: sample_start_def)
  let ?s = "s\<lparr>sy_job := snd (registerSub (sy_job s))\<rparr>"
  have idle: "sy_threads s ! 0 = []"
    using run(1) unfolding line_labels_def end_labels_def sample_start_def
    by (auto simp: jrun_simps)
  then obtain s2 where two: "jrun [LMain 9, LMain 9] ?s = Goes [] s2" "j_done (sy_job s2)"
    using run(2) by (simp add: main_step_def Let_def)
  have "after_close (sy_phase s)" by (simp add: run(2) after_close_def)
  moreover have "jreach (s\<lparr>sy_job := snd (Subscribe (sy_job s) (sy_job s) (sy_job s))\<rparr>) [] s2"
    using jrun_reach [OF two(1)] by simp
  ultimately obtain replay n where "fst (Subscribe (sy_job s) (sy_job s) (sy_job s)) = (replay, Some n)"
    "\<not> chan_closed (j_chans (sy_job s2) ! n)"
    using late_subscriber_is_never_released [OF reach _ run(3), of "sy_job s" "sy_job s"] by blast
  moreover from this(1) have "snd (fst (Subscribe (sy_job s) (sy_job s) (sy_job s))) = Some n"
    by (simp only: snd_conv)
  ultimately show ?thesis using run(1) two by blast
qed

text \<open>
  C19. A subscriber gets the window and then every line with text. \<open>Subscribe\<close> copies the ring of
  standard output at \<open>s0\<close>, that of standard error at \<open>sa\<close> and registers its channel at
  \<open>sb\<close>; it holds \<open>subMu\<close>, so nothing is published in between, but the command goes on
  writing. The replay is, in strictly increasing sequence order, exactly the last lines of
  each stream that its ring holds. Every later line that is not blank (of standard output
  after \<open>s0\<close>, of standard error after \<open>sa\<close>) is published after the registration, or its
  callback is still due; and as long as the subscription stands and no more than its 256
  lines were published, what the subscriber received and what its channel holds are the
  texts published since, in order, without loss or repetition.
\<close>

theorem subscriber_sees_every_line:
  assumes "jreach (start_sys ml i c now st) es0 s0" "jreach s0 ea sa" "jreach sa eb sb"
    and "published (ea @ eb) = []"
    and "Subscribe (sy_job s0) (sy_job sa) (sy_job sb) = ((replay, Some n), j1)"
    and "jreach (sb\<lparr>sy_job := j1\<rparr>) es2 s2"
  shows "(\<exists>rs. replay = lines_text rs \<and> sorted_wrt (<) (map Seq rs) \<and>
      set rs = set (lastn (nat (lb_max (j_Stdout (sy_job s0)))) (on_stream StreamStdout (history es0))) \<union>
        set (lastn (nat (lb_max (j_Stderr (sy_job sa)))) (on_stream StreamStderr (history (es0 @ ea))))) \<and>
    (\<forall>k r. (k, r) \<in> set (history (es0 @ ea @ eb @ es2)) \<and> Line r \<noteq> '''' \<and>
      (k, r) \<notin> set (history (if k = StreamStdout then es0 else es0 @ ea)) \<longrightarrow>
      (k, r) \<in> set (published es2) \<or> (k, r) \<in># unpublished s2) \<and>
    (n \<in> set (j_subs (sy_job s2)) \<and> length (published es2) \<le> subscriberCap \<longrightarrow>
      received n es2 @ chan_buf (j_chans (sy_job s2) ! n) = map (\<lambda>x. Line (snd x)) (published es2))"
proof (intro conjI allI impI)
  let ?s = "sb\<lparr>sy_job := j1\<rparr>" and ?rs = "sort_recs (lb_Recs (j_Stdout (sy_job s0)) @ lb_Recs (j_Stderr (sy_job sa)))"
  have ra: "jreach (start_sys ml i c now st) (es0 @ ea) sa" by (rule jreach_compose [OF assms(2,1)])
  have rb: "jreach (start_sys ml i c now st) ((es0 @ ea) @ eb) sb" by (rule jreach_compose [OF assms(3) ra])
  have hist: "hist_inv (history es0) (sy_job s0)" "hist_inv (history es0 @ history ea) (sy_job sa)"
    using run_inv_reach [OF assms(1)] run_inv_reach [OF ra] by (simp_all add: run_inv_def)
  have "replay = lines_text ?rs" using assms(5) by (auto simp: Subscribe_def Let_def split: prod.splits)
  with copied_rings [OF hist] show "\<exists>rs. replay = lines_text rs \<and> sorted_wrt (<) (map Seq rs) \<and>
      set rs = set (lastn (nat (lb_max (j_Stdout (sy_job s0)))) (on_stream StreamStdout (history es0))) \<union>
        set (lastn (nat (lb_max (j_Stderr (sy_job sa)))) (on_stream StreamStderr (history (es0 @ ea))))"
    by (intro exI [of _ ?rs]) simp
  have reg: "j1 = snd (registerSub (sy_job sb))" "fst (registerSub (sy_job sb)) = Some n"
    using assms(5) by (auto simp: Subscribe_def Let_def split: prod.splits)
  have "jstep LSubscribe sb = Goes [] ?s" by (simp add: reg(1))
  with chan_inv_step [OF chan_inv_reach [OF rb chan_inv_start]] have inv: "chan_inv ?s" by blast
  have "delivery_inv n [] ?s"
    using reg by (auto simp: delivery_inv_def registerSub_def Let_def texts_sent_def new_chan_def split: if_splits)
  from delivery_inv_reach [OF assms(6) inv this]
  show "received n es2 @ chan_buf (j_chans (sy_job s2) ! n) = map (\<lambda>x. Line (snd x)) (published es2)"
    if "n \<in> set (j_subs (sy_job s2)) \<and> length (published es2) \<le> subscriberCap"
    using that by (simp add: delivery_inv_def texts_sent_def)
  fix k r
  assume kr: "(k, r) \<in> set (history (es0 @ ea @ eb @ es2)) \<and> Line r \<noteq> '''' \<and>
      (k, r) \<notin> set (history (if k = StreamStdout then es0 else es0 @ ea))"
  then show "(k, r) \<in> set (published es2) \<or> (k, r) \<in># unpublished s2"
    by (intro later_line_published [OF assms(1-4) _ assms(6)]) simp_all
qed

text \<open>
  A line of standard error completed before the second copy is in the replay; a line of
  standard output completed after the first comes through the channel.
\<close>

definition window_labels :: "label list" where
  "window_labels = [LWrite 1 1 [CHR ''b'', LF]]"

lemma sample_window:
  "\<exists>sa. jrun window_labels sample_start = Goes [EvRecord 1 (LineRec 1 ''b'')] sa \<and>
    (\<exists>sb. jrun [LWrite 2 0 [CHR ''a'', LF]] sa = Goes [EvRecord 0 (LineRec 2 ''a'')] sb \<and>
     fst (registerSub (sy_job sb)) = Some 0 \<and>
     (\<exists>s2. jrun [LPublish 2, LReceive 0] (sb\<lparr>sy_job := snd (registerSub (sy_job sb))\<rparr>) =
        Goes [EvPublish 0 (LineRec 2 ''a''), EvReceive 0 ''a''] s2 \<and> j_subs (sy_job s2) = [0] \<and>
        chan_buf (j_chans (sy_job s2) ! 0) = [])) \<and>
    fst (fst (Subscribe (sy_job sample_start) (sy_job sa) j)) = [''b'']"
  unfolding window_labels_def sample_start_def
  by (simp add: jrun_simps registerSub_def sort_recs_def lb_Recs_def new_chan_def try_send_def
      subscriberCap_def lines_text_def)

theorem subscriber_sees_every_line_witness:
  "\<exists>sa sb j1 s2. jrun window_labels sample_start = Goes [EvRecord 1 (LineRec 1 ''b'')] sa \<and>
    jrun [LWrite 2 0 [CHR ''a'', LF]] sa = Goes [EvRecord 0 (LineRec 2 ''a'')] sb \<and>
    Subscribe (sy_job sample_start) (sy_job sa) (sy_job sb) = (([''b''], Some 0), j1) \<and>
    jrun [LPublish 2, LReceive 0] (sb\<lparr>sy_job := j1\<rparr>) =
      Goes [EvPublish 0 (LineRec 2 ''a''), EvReceive 0 ''a''] s2 \<and>
    [''a''] @ chan_buf (j_chans (sy_job s2) ! 0) = [''a'']"
proof -
  obtain sa sb s2 where s: "jrun window_labels sample_start = Goes [EvRecord 1 (LineRec 1 ''b'')] sa"
    "jrun [LWrite 2 0 [CHR ''a'', LF]] sa = Goes [EvRecord 0 (LineRec 2 ''a'')] sb"
    "fst (registerSub (sy_job sb)) = Some 0"
    "jrun [LPublish 2, LReceive 0] (sb\<lparr>sy_job := snd (registerSub (sy_job sb))\<rparr>) =
        Goes [EvPublish 0 (LineRec 2 ''a''), EvReceive 0 ''a''] s2" "j_subs (sy_job s2) = [0]"
    "fst (fst (Subscribe (sy_job sample_start) (sy_job sa) (sy_job sb))) = [''b'']"
    using sample_window [of undefined] by (auto simp: Subscribe_parts)
  have sub: "Subscribe (sy_job sample_start) (sy_job sa) (sy_job sb) =
      (([''b''], Some 0), snd (registerSub (sy_job sb)))"
    using s(3,6) by (intro prod_eqI) simp_all
  have start: "jreach (start_sys 10 ''j'' ''ls'' 5 sample_store) [] sample_start"
    unfolding sample_start_def by (rule jreach.start)
  from subscriber_sees_every_line [OF start jrun_reach [OF s(1)] jrun_reach [OF s(2)] _ sub jrun_reach [OF s(4)]]
    s(5) have "[''a''] @ chan_buf (j_chans (sy_job s2) ! 0) = [''a'']"
    by (simp add: subscriberCap_def)
  with s(1,2,4) sub show ?thesis by blast
qed

subsection \<open>The verdict\<close>

text \<open>
  How the run of a job ended: in the life \<open>es\<close> that leads to \<open>s\<close>, the interpreter returned
  with the error \<open>e\<close> and the exit code \<open>x\<close>, and \<open>killed\<close> tells whether the job's context
  had been cancelled by then.
\<close>

definition returned_with :: "jsys \<Rightarrow> ev list \<Rightarrow> string option \<Rightarrow> int \<Rightarrow> bool \<Rightarrow> jsys \<Rightarrow> bool" where
  "returned_with start es e x killed s \<longleftrightarrow> (\<exists>es0 s0 s1 es2. jreach start es0 s0 \<and>
     jstep (LReturn e x) s0 = Goes [] s1 \<and> jreach s1 es2 s \<and> es = es0 @ es2 \<and>
     killed = j_cancelled (sy_job s0))"

lemma returned_withI:
  "jreach start es0 s0 \<Longrightarrow> jstep (LReturn e x) s0 = Goes [] s1 \<Longrightarrow> jreach s1 es2 s \<Longrightarrow>
   returned_with start (es0 @ es2) e x (j_cancelled (sy_job s0)) s"
  unfolding returned_with_def by blast

text \<open>The verdict on such a run; \<open>late\<close> is whether the job is cancelled by now.\<close>

definition judged :: "string option \<Rightarrow> int \<Rightarrow> bool \<Rightarrow> bool \<Rightarrow> job_state \<Rightarrow> int \<Rightarrow> bool" where
  "judged e x killed late st code \<longleftrightarrow>
     (e \<noteq> None \<longrightarrow> st = StateFailed \<and> code = int32 x) \<and>
     (e = None \<and> killed \<longrightarrow> st = StateKilled \<and> code = int32 x) \<and>
     (e = None \<and> \<not> late \<and> x = 0 \<longrightarrow> st = StateDone \<and> code = 0) \<and>
     (e = None \<and> \<not> late \<and> x \<noteq> 0 \<longrightarrow> st = StateFailed \<and> code = int32 x) \<and>
     (e = None \<longrightarrow> code = int32 x \<and> st \<in> {StateKilled, if x = 0 then StateDone else StateFailed})"

fun ended_inv :: "string option \<Rightarrow> int \<Rightarrow> bool \<Rightarrow> phase \<Rightarrow> job \<Rightarrow> bool" where
  "ended_inv e x k Running j = False"
| "ended_inv e x k (Returned e' x') j = (e' = e \<and> x' = x \<and> (k \<longrightarrow> j_cancelled j))"
| "ended_inv e x k (FlushedOut e' x') j = (e' = e \<and> x' = x \<and> (k \<longrightarrow> j_cancelled j))"
| "ended_inv e x k (FlushedErr e' x') j = (e' = e \<and> x' = x \<and> (k \<longrightarrow> j_cancelled j))"
| "ended_inv e x k (Judged st) j = judged e x k (j_cancelled j) st (j_ExitCode j)"
| "ended_inv e x k _ j = judged e x k (j_cancelled j) (j_State j) (j_ExitCode j)"

lemma judged_later: "judged e x k l st code \<Longrightarrow> (l \<longrightarrow> l') \<Longrightarrow> judged e x k l' st code"
  by (auto simp: judged_def)

lemma ended_inv_same: "ended_inv e x k p j \<Longrightarrow> life_same j j' \<Longrightarrow> ended_inv e x k p j'"
  by (cases p) (auto simp: life_same_def intro: judged_later)

lemma int32_0: "int32 0 = 0"
  by (simp add: int32_def)

lemma job_outcome_judged: "job_outcome e c x = (st, code) \<Longrightarrow> (k \<longrightarrow> c) \<Longrightarrow> judged e x k c st code"
  by (auto simp: job_outcome_def judged_def int32_0 split: if_splits)

lemma main_step_ended:
  assumes "ended_inv e x k (sy_phase s) (sy_job s)" "main_step now s = Goes es' s'"
  shows "ended_inv e x k (sy_phase s') (sy_job s')"
proof (cases "sy_phase s")
  case (Returned e' x')
  obtain rs j' where f: "flush_stream StreamStdout (sy_job s) = (rs, j')" by (metis surj_pair)
  from flush_stream_same [OF f] f assms Returned show ?thesis
    by (auto simp: main_step_def Let_def same_frame_def split: if_splits)
next
  case (FlushedOut e' x')
  obtain rs j' where f: "flush_stream StreamStderr (sy_job s) = (rs, j')" by (metis surj_pair)
  from flush_stream_same [OF f] f assms FlushedOut show ?thesis
    by (auto simp: main_step_def Let_def same_frame_def split: if_splits)
next
  case (FlushedErr e' x')
  obtain p rs j' where f: "write_stream StreamStderr p (sy_job s) = (rs, j')"
    "(case e' of None \<Rightarrow> ([], sy_job s)
      | Some msg \<Rightarrow> write_stream StreamStderr (shell_error_text msg) (sy_job s)) = (rs, j')"
    using write_nothing [of StreamStderr "sy_job s"]
    by (cases e') (auto, metis surj_pair)
  obtain st code where o: "job_outcome e' (j_cancelled (sy_job s)) x' = (st, code)" by (metis surj_pair)
  from assms(2) FlushedErr f(2) o have "sy_phase s' = Judged st" "sy_job s' = j'\<lparr>j_ExitCode := code\<rparr>"
    by (auto simp: main_step_def Let_def split: if_splits)
  with assms(1) FlushedErr write_stream_same [OF f(1)] job_outcome_judged [OF o] show ?thesis
    by (simp add: same_frame_def)
next
  case Recorded
  with assms(2) obtain j' where "finishSubs (sy_job s) = Some j'" "s' = s\<lparr>sy_job := j', sy_phase := SubsClosed\<rparr>"
    by (auto simp: main_step_def Let_def split: if_splits option.splits)
  moreover from this(1) have "life_same (sy_job s) j'"
    by (auto simp: finishSubs_def life_same_def)
  ultimately show ?thesis
    using assms(1) Recorded by (auto simp: life_same_def elim: judged_later)
qed (use assms in \<open>auto simp: main_step_def Let_def split: if_splits\<close>)

lemma ended_step:
  assumes "ended_inv e x k (sy_phase s) (sy_job s)" "jstep l s = Goes es' s'"
  shows "ended_inv e x k (sy_phase s') (sy_job s')"
proof (cases "\<exists>now. l = LMain now")
  case True
  with main_step_ended [OF assms(1)] assms(2) show ?thesis by auto
next
  case False
  have "sy_phase s \<noteq> Running" using assms(1) by auto
  with jstep_life [OF assms(2) False] ended_inv_same [OF assms(1)] show ?thesis by metis
qed

lemma returned_ended:
  assumes "returned_with s0 es e x k s"
  shows "ended_inv e x k (sy_phase s) (sy_job s)"
proof -
  from assms obtain sr s1 es2 where sr: "jstep (LReturn e x) sr = Goes [] s1" "jreach s1 es2 s"
    "k = j_cancelled (sy_job sr)" by (auto simp: returned_with_def)
  from sr(2) show ?thesis
  proof (induction rule: jreach.induct)
    case start
    from sr(1,3) show ?case by (auto split: if_splits)
  qed (rule ended_step)
qed

text \<open>Whoever is past the interpreter has returned from it.\<close>

lemma returned_reach:
  assumes "jreach s0 es s" "sy_phase s0 = Running" "sy_phase s \<noteq> Running"
  shows "\<exists>e x k. returned_with s0 es e x k s"
  using assms
proof (induction rule: jreach.induct)
  case (step es s l es' s')
  show ?case
  proof (cases "sy_phase s = Running")
    case True
    then have no: "\<not> (\<exists>now. l = LMain now)"
      using step.hyps(2) by (auto simp: main_step_def Let_def split: if_splits)
    from jstep_life [OF step.hyps(2) no] True step.prems(2) have "\<exists>e x. l = LReturn e x" by auto
    then obtain e x where l: "l = LReturn e x" by blast
    with step.hyps(2) have "es' = []" by (auto split: if_splits)
    from returned_withI [OF step.hyps(1) _ jreach.start, of e x s'] step.hyps(2) l this show ?thesis
      by auto
  next
    case False
    with step.IH step.prems(1) obtain e x es0 sr s1 es2 where
      w: "jreach s0 es0 sr" "jstep (LReturn e x) sr = Goes [] s1" "jreach s1 es2 s" "es = es0 @ es2"
      unfolding returned_with_def by blast
    from returned_withI [OF w(1,2) jreach.step [OF w(3) step.hyps(2)]] show ?thesis
      by (auto simp: w(4))
  qed
qed simp

text \<open>
  C17. A finished job carries the verdict on its run. The completion channel of a job is closed
  only after its interpreter returned, and then the state and the exit code tell how: an
  error of the runner is \<open>failed\<close>; without one, a job whose context was cancelled before
  the return is \<open>killed\<close>, one that is not cancelled at all is \<open>done\<close> with exit code 0 if
  the command's was 0, and \<open>failed\<close> otherwise (a cancellation between the return and the
  end may or may not still count); the code is the command's as a 32-bit number. Exactly one
  finish record was offered to the store, carrying the state and exit code the job shows;
  its stdin is closed and a subscription returns no channel.
\<close>

theorem finished_job_has_one_verdict:
  assumes "jreach (start_sys ml i c now st) es s" and "j_done (sy_job s)"
  shows "let j = sy_job s; start = start_sys ml i c now st in
    (\<exists>e x k. returned_with start es e x k s) \<and>
    (\<forall>e x k. returned_with start es e x k s \<longrightarrow>
      (e \<noteq> None \<longrightarrow> j_State j = StateFailed \<and> j_ExitCode j = int32 x) \<and>
      (e = None \<and> k \<longrightarrow> j_State j = StateKilled \<and> j_ExitCode j = int32 x) \<and>
      (e = None \<and> \<not> j_cancelled j \<and> x = 0 \<longrightarrow> j_State j = StateDone \<and> j_ExitCode j = 0) \<and>
      (e = None \<and> \<not> j_cancelled j \<and> x \<noteq> 0 \<longrightarrow> j_State j = StateFailed \<and> j_ExitCode j = int32 x) \<and>
      (e = None \<longrightarrow> j_ExitCode j = int32 x \<and>
        j_State j \<in> {StateKilled, if x = 0 then StateDone else StateFailed})) \<and>
    (\<exists>ok. finish_records es = [(ok, j_State j, j_ExitCode j)]) \<and>
    fst (Stdin [y] b m j) = Some ErrClosedPipe \<and> snd (fst (Subscribe jo je j)) = None"
proof -
  from phase_inv_reach [OF assms(1)] assms(2) have ph: "sy_phase s = Exited"
    by (cases "sy_phase s") simp_all
  have "\<exists>e x k. returned_with (start_sys ml i c now st) es e x k s"
    by (rule returned_reach [OF assms(1)]) (simp_all add: ph start_sys_def)
  moreover have judge: "judged e x k (j_cancelled (sy_job s)) (j_State (sy_job s)) (j_ExitCode (sy_job s))"
    if "returned_with (start_sys ml i c now st) es e x k s" for e x k
    using returned_ended [OF that] by (simp add: ph)
  moreover have "(\<exists>ok. finish_records es = [(ok, j_State (sy_job s), j_ExitCode (sy_job s))]) \<and>
      fst (Stdin [y] b m (sy_job s)) = Some ErrClosedPipe \<and> snd (fst (Subscribe jo je (sy_job s))) = None"
    using phase_inv_reach [OF assms(1)] assms(2) by (simp add: ph Stdin_def registerSub_def Let_def)
  ultimately show ?thesis
    unfolding Let_def judged_def by blast
qed

text \<open>A command that is cut short by a kill: it returns 143, and the job is \<open>killed\<close>.\<close>

definition kill_labels :: "label list" where
  "kill_labels = [LMain 9, LMain 9, LMain 9, LMain 9, LMain 9, LMain 9, LMain 9, LMain 9, LMain 9]"

lemma sample_killed:
  "\<exists>s0. jrun [LKill] sample_start = Goes [] s0 \<and> j_cancelled (sy_job s0) \<and>
    (\<exists>s1. jstep (LReturn None 143) s0 = Goes [] s1 \<and>
      (\<exists>s. jrun kill_labels s1 = Goes [EvFinish True StateKilled 143] s \<and> sy_phase s = Exited))"
  unfolding kill_labels_def sample_start_def
  by (simp add: jrun_simps Kill_def int32_def)

theorem finished_job_has_one_verdict_witness:
  "\<exists>s. jrun ([LKill, LReturn None 143] @ kill_labels) sample_start = Goes [EvFinish True StateKilled 143] s \<and>
     j_done (sy_job s) \<and> j_State (sy_job s) = StateKilled \<and> j_ExitCode (sy_job s) = 143"
proof -
  obtain s0 s1 s where s: "jrun [LKill] sample_start = Goes [] s0" "j_cancelled (sy_job s0)"
    "jstep (LReturn None 143) s0 = Goes [] s1" "jrun kill_labels s1 = Goes [EvFinish True StateKilled 143] s"
    "sy_phase s = Exited" using sample_killed by blast
  have r: "jreach (start_sys 10 ''j'' ''ls'' 5 sample_store) [] s0"
    using jrun_reach [OF s(1)] by (simp add: sample_start_def)
  from returned_withI [OF r s(3) jrun_reach [OF s(4)]] s(2)
  have w: "returned_with (start_sys 10 ''j'' ''ls'' 5 sample_store) [EvFinish True StateKilled 143] None 143 True s"
    by simp
  have reach: "jreach (start_sys 10 ''j'' ''ls'' 5 sample_store) ([] @ [EvFinish True StateKilled 143]) s"
    using jreach.step [OF r s(3)] by (intro jreach_compose [OF jrun_reach [OF s(4)]]) simp
  have d: "j_done (sy_job s)" using phase_inv_reach [OF reach] s(5) by simp
  have "jrun ([LKill, LReturn None 143] @ kill_labels) sample_start = Goes [EvFinish True StateKilled 143] s"
    using s(1,3,4) by (auto split: outcome.splits)
  moreover have "j_State (sy_job s) = StateKilled \<and> j_ExitCode (sy_job s) = int32 143"
    using finished_job_has_one_verdict [OF reach d] w unfolding Let_def append_Nil by blast
  moreover have "int32 143 = 143" by (simp add: int32_id)
  ultimately show ?thesis using d by simp
qed

definition hide_labels :: "label list" where
  "hide_labels = [LWrite 1 0 [CHR ''a'', LF], LWrite 2 1 [CHR ''b'', LF], LPublish 2, LPersist 2,
     LStore (EvWriter (CaseRecv calm_flush True)), LStore (EvWriter (CaseTick calm_flush))]"

text \<open>
  The merge can hide a completed line. The callbacks of the two streams run outside the
  buffers' locks, so a line of one stream can reach the database before an older line of
  the other. In the reachable state shown, both lines are completed and in their rings and
  nothing failed or was refused, but the merged history shows only the newer one.
\<close>

theorem merge_can_hide_a_line:
  "\<exists>es s. jreach sample_start es s \<and> list_all (ev_ok ''j'') es \<and> list_all fst (offers es) \<and>
     on_stream (- 1) (history es) = [LineRec 1 ''a'', LineRec 2 ''b''] \<and>
     set (ring_recs (- 1) (sy_job s)) = {LineRec 1 ''a'', LineRec 2 ''b''} \<and>
     readMerged True ''j'' (- 1) \<lparr>m_store = sy_store s, m_memLines = 10, m_replay = 10,
       m_jobs = [(''j'', sy_job s)]\<rparr> = Inr [LineRec 2 ''b'']"
proof -
  let ?es = "[EvRecord 0 (LineRec 1 ''a''), EvRecord 1 (LineRec 2 ''b''), EvPublish 1 (LineRec 2 ''b''),
     EvOffer True (store_line_of ''j'' 1 (LineRec 2 ''b'')),
     EvStore (EvWriter (CaseRecv calm_flush True)), EvStore (EvWriter (CaseTick calm_flush))]"
  have "\<exists>s. jrun hide_labels sample_start = Goes ?es s \<and>
     db_lines (db (sy_store s)) = [store_line_of ''j'' 1 (LineRec 2 ''b'')] \<and>
     recs (j_Stdout (sy_job s)) = [LineRec 1 ''a''] \<and> recs (j_Stderr (sy_job s)) = [LineRec 2 ''b'']"
    unfolding hide_labels_def sample_start_def by (simp add: jrun_simps)
  then obtain s where s: "jrun hide_labels sample_start = Goes ?es s"
    "db_lines (db (sy_store s)) = [store_line_of ''j'' 1 (LineRec 2 ''b'')]"
    "recs (j_Stdout (sy_job s)) = [LineRec 1 ''a'']" "recs (j_Stderr (sy_job s)) = [LineRec 2 ''b'']"
    by blast
  have "sql_query_lines ''j'' (- 1) (db (sy_store s)) = [LineRec 2 ''b'']"
    by (simp add: sql_query_lines_def s(2) store_line_of_def stream_matches_def rec_of_line_def)
  with s(3,4) have "readMerged True ''j'' (- 1) \<lparr>m_store = sy_store s, m_memLines = 10, m_replay = 10,
       m_jobs = [(''j'', sy_job s)]\<rparr> = Inr [LineRec 2 ''b'']"
    by (simp add: readMerged_def QueryLines_def Get_def Let_def max_seq_def lb_Recs_def sort_recs_def)
  moreover have "set (ring_recs (- 1) (sy_job s)) = {LineRec 1 ''a'', LineRec 2 ''b''}"
    using s(3,4) by (simp add: ring_recs_def lb_Recs_def)
  moreover have "list_all (ev_ok ''j'') ?es" by (simp add: flush_good_def calm_flush_def)
  ultimately show ?thesis
    using jrun_reach [OF s(1)]
    by (intro exI [of _ ?es] exI [of _ s]) (simp add: on_stream_def)
qed

end
