(* ===== verification/Gate.thy ===== *)
theory Gate
  imports Prelude
begin

text \<open>
  The access gate, \<open>internal/auth/auth.go\<close>. The struct \<open>Gate\<close> is the record \<open>gate\<close>;
  its field \<open>store\<close>, the only one that reaches outside the process, is kept beside the
  record as an optional store state (\<open>None\<close> is Go's nil interface), and the interface
  \<open>StateStore\<close> is a record of operations on that state. The mutex makes every method one
  atomic step, so a method is a function from the state to its result and the new state.

  What the environment decides is an argument: the clock readings (\<open>now\<close>) and the
  outcome of \<open>crypto/rand.Read\<close> (\<open>entropy\<close>: \<open>None\<close> when it fails, else the bytes
  it fills the buffer with).
\<close>

subsection \<open>Errors, options and the store interface\<close>

datatype auth_error =
    ErrAlreadyClaimed
  | ErrBadCode
  | ErrRateLimited
  | ErrReleaseForbidden
  | ErrMint string

record 's state_store =
  LoadToken :: "'s \<Rightarrow> string \<times> string"
  LoadCode :: "'s \<Rightarrow> string"
  SaveToken :: "string \<Rightarrow> string \<Rightarrow> 's \<Rightarrow> 's"
  SaveCode :: "string \<Rightarrow> 's \<Rightarrow> 's"
  ClearState :: "'s \<Rightarrow> 's"

record options =
  PreAuthorizedToken :: string
  OptDisabled :: bool
  OptBootID :: string

record gate =
  disabled :: bool
  bootID :: string
  preauth :: bool
  resumed :: bool
  token :: string
  code :: string
  claimed :: bool
  ownerID :: string
  claimedAt :: time
  failures :: int
  failureWindow :: time
  maxFailures :: int
  failureLockout :: duration

type_synonym entropy = "(nat \<Rightarrow> byte) option"
type_synonym 's gate_state = "gate \<times> 's option"

definition minute :: duration where
  "minute = 60 * 1000000000"

definition zero_time :: time where
  "zero_time = 0"

subsection \<open>Helpers\<close>

definition randomHex :: "nat \<Rightarrow> entropy \<Rightarrow> unit + string" where
  "randomHex n e = (case e of None \<Rightarrow> Inl () | Some f \<Rightarrow> Inr (hex_encode (map f [0..<n])))"

text \<open>\<open>subtle.ConstantTimeCompare\<close> returns 1 exactly when the two slices are equal.\<close>

definition ConstantTimeCompare :: "bytes \<Rightarrow> bytes \<Rightarrow> int" where
  "ConstantTimeCompare a b = (if a = b then 1 else 0)"

definition constantEqual :: "string \<Rightarrow> string \<Rightarrow> bool" where
  "constantEqual a b = (if length a \<noteq> length b then False else ConstantTimeCompare a b = 1)"

text \<open>\<open>time.Time.Sub\<close> saturates at the bounds of a 64-bit duration.\<close>

definition time_sub :: "time \<Rightarrow> time \<Rightarrow> duration" where
  "time_sub a b = max (- (2 ^ 63)) (min (2 ^ 63 - 1) (a - b))"

definition failed :: "gate \<Rightarrow> bool" where
  "failed g \<longleftrightarrow> failures g \<ge> maxFailures g"

definition allowAttemptLocked :: "time \<Rightarrow> gate \<Rightarrow> bool \<times> gate" where
  "allowAttemptLocked now g =
     (let g1 = (if failed g \<and> time_sub now (failureWindow g) > failureLockout g
                then g\<lparr>failures := 0\<rparr> else g)
      in if failures g1 \<ge> maxFailures g1 then (False, g1)
         else (True, if failures g1 = 0 then g1\<lparr>failureWindow := now\<rparr> else g1))"

subsection \<open>Construction\<close>

definition zero_gate :: "options \<Rightarrow> gate" where
  "zero_gate opts =
     \<lparr>disabled = OptDisabled opts, bootID = OptBootID opts, preauth = False, resumed = False,
      token = '''', code = '''', claimed = False, ownerID = '''', claimedAt = zero_time,
      failures = 0, failureWindow = zero_time, maxFailures = 10, failureLockout = minute\<rparr>"

definition save_code_opt :: "'s state_store \<Rightarrow> string \<Rightarrow> 's option \<Rightarrow> 's option" where
  "save_code_opt ops c st = map_option (SaveCode ops c) st"

definition save_token_opt ::
  "'s state_store \<Rightarrow> string \<Rightarrow> string \<Rightarrow> 's option \<Rightarrow> 's option" where
  "save_token_opt ops t w st = map_option (SaveToken ops t w) st"

text \<open>The tail of \<open>New\<close>: mint a code and persist it.\<close>

definition mint_code ::
  "'s state_store \<Rightarrow> gate \<Rightarrow> 's option \<Rightarrow> entropy \<Rightarrow> (auth_error + gate) \<times> 's option" where
  "mint_code ops g st e =
     (case randomHex 16 e of
        Inl _ \<Rightarrow> (Inl (ErrMint ''mint enrollment code''), st)
      | Inr c \<Rightarrow> (Inr (g\<lparr>code := c\<rparr>), save_code_opt ops c st))"

definition NewGate ::
  "'s state_store \<Rightarrow> options \<Rightarrow> 's option \<Rightarrow> entropy \<Rightarrow> (auth_error + gate) \<times> 's option" where
  "NewGate ops opts st e =
     (let g = zero_gate opts in
      if OptDisabled opts then (Inr g, st)
      else if PreAuthorizedToken opts \<noteq> '''' then
        (Inr (g\<lparr>preauth := True, token := PreAuthorizedToken opts, claimed := True\<rparr>), st)
      else case st of
        None \<Rightarrow> mint_code ops g st e
      | Some s \<Rightarrow>
          (let (tok, owner) = LoadToken ops s in
           if tok \<noteq> '''' then
             (Inr (g\<lparr>token := tok, ownerID := owner, claimed := True, resumed := True\<rparr>), st)
           else (let c = LoadCode ops s in
                 if c \<noteq> '''' then (Inr (g\<lparr>code := c\<rparr>), st)
                 else mint_code ops g st e)))"

subsection \<open>Queries\<close>

definition Authorized :: "gate \<Rightarrow> string \<Rightarrow> bool" where
  "Authorized g bearer =
     (if disabled g then True
      else let want = token g in
           if want = '''' then False else constantEqual want bearer)"

definition Code :: "gate \<Rightarrow> string" where
  "Code g = code g"

definition Disabled :: "gate \<Rightarrow> bool" where
  "Disabled g = disabled g"

definition Resumed :: "gate \<Rightarrow> bool" where
  "Resumed g = resumed g"

record gate_status =
  st_Claimed :: bool
  st_NeedsCode :: bool
  st_Preauthorized :: bool
  st_Resumed :: bool
  st_BootID :: string

definition Status :: "gate \<Rightarrow> gate_status" where
  "Status g =
     \<lparr>st_Claimed = (disabled g \<or> claimed g), st_NeedsCode = (\<not> disabled g \<and> \<not> claimed g),
      st_Preauthorized = preauth g, st_Resumed = resumed g, st_BootID = bootID g\<rparr>"

subsection \<open>Claim and Release\<close>

definition Claim ::
  "'s state_store \<Rightarrow> string \<Rightarrow> string \<Rightarrow> time \<Rightarrow> time \<Rightarrow> entropy \<Rightarrow> 's gate_state
     \<Rightarrow> (auth_error + string) \<times> 's gate_state" where
  "Claim ops c owner now now' e gs =
     (let (g, st) = gs in
      if disabled g then (Inl ErrAlreadyClaimed, (g, st))
      else if claimed g then (Inl ErrAlreadyClaimed, (g, st))
      else let (ok, g1) = allowAttemptLocked now g in
        if \<not> ok then (Inl ErrRateLimited, (g1, st))
        else if c = '''' \<or> ConstantTimeCompare c (code g1) \<noteq> 1 then
          (Inl ErrBadCode, (g1\<lparr>failures := failures g1 + 1\<rparr>, st))
        else case randomHex 32 e of
            Inl _ \<Rightarrow> (Inl (ErrMint ''mint token''), (g1, st))
          | Inr tok \<Rightarrow>
              (Inr tok,
               (g1\<lparr>token := tok, claimed := True, ownerID := owner, claimedAt := now',
                    code := ''''\<rparr>,
                save_token_opt ops tok owner st)))"

definition Release ::
  "'s state_store \<Rightarrow> string \<Rightarrow> string \<Rightarrow> entropy \<Rightarrow> 's gate_state
     \<Rightarrow> (auth_error + string) \<times> 's gate_state" where
  "Release ops bearer owner e gs =
     (let (g, st) = gs in
      if disabled g \<or> preauth g \<or> \<not> claimed g then (Inl ErrReleaseForbidden, (g, st))
      else if \<not> constantEqual (token g) bearer then (Inl ErrReleaseForbidden, (g, st))
      else case randomHex 16 e of
          Inl _ \<Rightarrow> (Inl (ErrMint ''mint code''), (g, st))
        | Inr c \<Rightarrow>
            (Inr c,
             (g\<lparr>token := '''', claimed := False, resumed := False, ownerID := owner,
                 claimedAt := zero_time, code := c, failures := 0\<rparr>,
              save_code_opt ops c st)))"

subsection \<open>Runs of the gate\<close>

text \<open>
  A process serves claims and releases in any order; a restart of the host builds a new
  gate from the same configuration over the surviving store.
\<close>

datatype gate_op =
    OpClaim string string time time entropy
  | OpRelease string string entropy

fun gate_step ::
  "'s state_store \<Rightarrow> gate_op \<Rightarrow> 's gate_state \<Rightarrow> (auth_error + string) \<times> 's gate_state" where
  "gate_step ops (OpClaim c w n n' e) gs = Claim ops c w n n' e gs"
| "gate_step ops (OpRelease b w e) gs = Release ops b w e gs"

fun gate_run ::
  "'s state_store \<Rightarrow> gate_op list \<Rightarrow> 's gate_state
     \<Rightarrow> (gate_op \<times> (auth_error + string)) list \<times> 's gate_state" where
  "gate_run ops [] gs = ([], gs)"
| "gate_run ops (x # xs) gs =
     (let (r, gs1) = gate_step ops x gs; (rs, gs2) = gate_run ops xs gs1
      in ((x, r) # rs, gs2))"

fun claim_won :: "gate_op \<times> (auth_error + string) \<Rightarrow> bool" where
  "claim_won (OpClaim _ _ _ _ _, Inr _) = True"
| "claim_won _ = False"

fun release_won :: "gate_op \<times> (auth_error + string) \<Rightarrow> bool" where
  "release_won (OpRelease _ _ _, Inr _) = True"
| "release_won _ = False"

fun bad_code :: "gate_op \<times> (auth_error + string) \<Rightarrow> bool" where
  "bad_code (OpClaim _ _ _ _ _, Inl ErrBadCode) = True"
| "bad_code _ = False"

definition tally :: "('a \<Rightarrow> bool) \<Rightarrow> 'a list \<Rightarrow> int" where
  "tally P xs = int (length (filter P xs))"

inductive gate_reach :: "'s state_store \<Rightarrow> options \<Rightarrow> 's gate_state \<Rightarrow> bool"
  for ops opts where
  boot: "NewGate ops opts st e = (Inr g, st') \<Longrightarrow> gate_reach ops opts (g, st')"
| serve: "gate_reach ops opts gs \<Longrightarrow> gate_step ops x gs = (r, gs') \<Longrightarrow> gate_reach ops opts gs'"
| restart: "gate_reach ops opts (g, st) \<Longrightarrow>
     NewGate ops (opts\<lparr>OptBootID := b\<rparr>) st e = (Inr g', st') \<Longrightarrow> gate_reach ops opts (g', st')"

subsection \<open>The gate's invariant\<close>

text \<open>
  A disabled gate holds no credential; an enabled one holds either a token (claimed) or a
  one-time code (unclaimed), never both, and its failure budget is never overspent.
\<close>

definition credential_inv :: "gate \<Rightarrow> bool" where
  "credential_inv g \<longleftrightarrow>
     (if claimed g then token g \<noteq> '''' \<and> code g = '''' else token g = '''' \<and> code g \<noteq> '''')"

definition gate_inv :: "options \<Rightarrow> gate \<Rightarrow> bool" where
  "gate_inv opts g \<longleftrightarrow>
     disabled g = OptDisabled opts \<and> maxFailures g = 10 \<and> failureLockout g = minute \<and>
     0 \<le> failures g \<and> failures g \<le> maxFailures g \<and> (resumed g \<longrightarrow> claimed g) \<and>
     (if disabled g then token g = '''' \<and> code g = '''' \<and> \<not> claimed g \<and> \<not> preauth g
      else credential_inv g \<and> preauth g = (PreAuthorizedToken opts \<noteq> '''') \<and>
        (preauth g \<longrightarrow> claimed g \<and> token g = PreAuthorizedToken opts))"

lemmas gate_inv_defs = gate_inv_def credential_inv_def

lemma randomHex_Inr: "randomHex n e = Inr t \<Longrightarrow> \<exists>bs. t = hex_encode bs \<and> length bs = n"
  by (cases e) (auto simp: randomHex_def)

lemma randomHex_nonempty: "randomHex n e = Inr t \<Longrightarrow> 0 < n \<Longrightarrow> t \<noteq> []"
  by (auto dest!: randomHex_Inr)

lemma constantEqual_iff [simp]: "constantEqual a b \<longleftrightarrow> a = b"
  by (auto simp: constantEqual_def ConstantTimeCompare_def)

lemma ConstantTimeCompare_iff [simp]: "ConstantTimeCompare a b = 1 \<longleftrightarrow> a = b"
  by (simp add: ConstantTimeCompare_def)

lemma Authorized_iff:
  "Authorized g b \<longleftrightarrow> disabled g \<or> (token g \<noteq> '''' \<and> b = token g)"
  by (auto simp: Authorized_def Let_def)

text \<open>What the rate limiter may touch: the failure counter and the window start.\<close>

lemma allowAttemptLocked_frame:
  assumes "allowAttemptLocked now g = (ok, g1)"
  shows "disabled g1 = disabled g" "preauth g1 = preauth g" "resumed g1 = resumed g"
    "token g1 = token g" "code g1 = code g" "claimed g1 = claimed g" "ownerID g1 = ownerID g"
    "maxFailures g1 = maxFailures g" "failureLockout g1 = failureLockout g"
    "bootID g1 = bootID g"
  using assms by (auto simp: allowAttemptLocked_def Let_def split: if_splits)

lemma allowAttemptLocked_bounds:
  assumes "allowAttemptLocked now g = (ok, g1)" "0 \<le> failures g" "failures g \<le> maxFailures g"
    "0 < maxFailures g"
  shows "0 \<le> failures g1" "failures g1 \<le> maxFailures g"
    "ok \<longleftrightarrow> failures g1 < maxFailures g"
  using assms by (auto simp: allowAttemptLocked_def Let_def split: if_splits)

lemma NewGate_inv [inv_intros]:
  assumes "NewGate ops opts st e = (Inr g, st')"
  shows "gate_inv opts g"
  using assms
  by (auto simp: NewGate_def mint_code_def zero_gate_def gate_inv_defs Let_def
      dest!: randomHex_nonempty split: if_splits option.splits prod.splits sum.splits)

text \<open>The branches of \<open>Claim\<close> and \<open>Release\<close>, as elimination rules.\<close>

lemma Claim_cases:
  assumes "Claim ops c w n n' e (g, st) = (r, (g', st'))"
  obtains (closed) "disabled g \<or> claimed g" "r = Inl ErrAlreadyClaimed" "g' = g" "st' = st"
  | (limited) "\<not> disabled g" "\<not> claimed g" "allowAttemptLocked n g = (False, g')"
      "r = Inl ErrRateLimited" "st' = st"
  | (bad) g1 where "\<not> disabled g" "\<not> claimed g" "allowAttemptLocked n g = (True, g1)"
      "c = '''' \<or> c \<noteq> code g" "r = Inl ErrBadCode" "g' = g1\<lparr>failures := failures g1 + 1\<rparr>"
      "st' = st"
  | (nomint) "\<not> disabled g" "\<not> claimed g" "allowAttemptLocked n g = (True, g')"
      "r = Inl (ErrMint ''mint token'')" "st' = st"
  | (won) g1 tok where "\<not> disabled g" "\<not> claimed g" "allowAttemptLocked n g = (True, g1)"
      "c \<noteq> ''''" "c = code g" "randomHex 32 e = Inr tok" "r = Inr tok"
      "g' = g1\<lparr>token := tok, claimed := True, ownerID := w, claimedAt := n', code := ''''\<rparr>"
      "st' = save_token_opt ops tok w st"
proof -
  obtain ok g1 where aa: "allowAttemptLocked n g = (ok, g1)" by fastforce
  note run = assms [unfolded Claim_def Let_def prod.case aa] and code = allowAttemptLocked_frame(5) [OF aa]
  consider "disabled g \<or> claimed g" | "\<not> disabled g" "\<not> claimed g" "\<not> ok"
    | "\<not> disabled g" "\<not> claimed g" "ok" "c = '''' \<or> c \<noteq> code g"
    | u where "\<not> disabled g" "\<not> claimed g" "ok" "c \<noteq> ''''" "c = code g" "randomHex 32 e = Inl u"
    | tok where "\<not> disabled g" "\<not> claimed g" "ok" "c \<noteq> ''''" "c = code g" "randomHex 32 e = Inr tok"
    by (cases "randomHex 32 e") auto
  then show ?thesis
  proof cases
    case 1
    with run show ?thesis by (intro closed) (auto split: if_splits)
  next
    case 2
    with run aa show ?thesis by (intro limited) simp_all
  next
    case 3
    with run aa code show ?thesis by (intro bad [of g1]) auto
  next
    case 4
    with run aa code show ?thesis by (intro nomint) simp_all
  next
    case 5
    with run aa code show ?thesis by (intro won [of g1 tok]) auto
  qed
qed

lemma Release_cases:
  assumes "Release ops b w e (g, st) = (r, (g', st'))"
  obtains (forbidden) "disabled g \<or> preauth g \<or> \<not> claimed g \<or> b \<noteq> token g"
      "r = Inl ErrReleaseForbidden" "g' = g" "st' = st"
  | (nomint) "r = Inl (ErrMint ''mint code'')" "g' = g" "st' = st"
  | (won) c where "\<not> disabled g" "\<not> preauth g" "claimed g" "b = token g"
      "randomHex 16 e = Inr c" "r = Inr c"
      "g' = g\<lparr>token := '''', claimed := False, resumed := False, ownerID := w,
               claimedAt := zero_time, code := c, failures := 0\<rparr>"
      "st' = save_code_opt ops c st"
proof -
  show ?thesis
  proof (cases "disabled g \<or> preauth g \<or> \<not> claimed g \<or> b \<noteq> token g")
    case True
    with assms have "r = Inl ErrReleaseForbidden \<and> g' = g \<and> st' = st"
      by (auto simp: Release_def split: if_splits)
    with forbidden True show ?thesis by blast
  next
    case open_gate: False
    show ?thesis
    proof (cases "randomHex 16 e")
      case (Inl u)
      with assms open_gate have "r = Inl (ErrMint ''mint code'') \<and> g' = g \<and> st' = st"
        by (simp add: Release_def)
      with nomint show ?thesis by blast
    next
      case (Inr c)
      with assms open_gate show ?thesis
        by (intro won [of c]) (simp_all add: Release_def)
    qed
  qed
qed

lemma Claim_inv [inv_intros]:
  assumes "Claim ops c w n n' e gs = (r, gs')" "gate_inv opts (fst gs)"
  shows "gate_inv opts (fst gs')"
proof -
  obtain g st g' st' where gs: "gs = (g, st)" "gs' = (g', st')" by fastforce
  have b: "0 \<le> failures g" "failures g \<le> maxFailures g" "0 < maxFailures g"
    using assms(2) by (auto simp: gs gate_inv_def)
  from assms(1) [unfolded gs] show ?thesis
  proof (cases rule: Claim_cases)
    case closed
    with assms(2) show ?thesis by (simp add: gs)
  next
    case limited
    from allowAttemptLocked_frame [OF limited(3)] allowAttemptLocked_bounds [OF limited(3) b] assms(2)
    show ?thesis by (auto simp: gs gate_inv_defs)
  next
    case (bad g1)
    from allowAttemptLocked_frame [OF bad(3)] allowAttemptLocked_bounds [OF bad(3) b] assms(2) bad(6)
    show ?thesis by (auto simp: gs gate_inv_defs)
  next
    case nomint
    from allowAttemptLocked_frame [OF nomint(3)] allowAttemptLocked_bounds [OF nomint(3) b] assms(2)
    show ?thesis by (auto simp: gs gate_inv_defs)
  next
    case (won g1 tok)
    from randomHex_nonempty [OF won(6)] have "tok \<noteq> ''''" by simp
    with allowAttemptLocked_frame [OF won(3)] allowAttemptLocked_bounds [OF won(3) b] assms(2) won
    show ?thesis by (auto simp: gs gate_inv_defs)
  qed
qed

lemma Release_inv [inv_intros]:
  assumes "Release ops b w e gs = (r, gs')" "gate_inv opts (fst gs)"
  shows "gate_inv opts (fst gs')"
proof -
  obtain g st g' st' where gs: "gs = (g, st)" "gs' = (g', st')" by fastforce
  from assms(1) [unfolded gs] show ?thesis
  proof (cases rule: Release_cases)
    case (won c)
    from randomHex_nonempty [OF won(5)] have "c \<noteq> ''''" by simp
    with assms(2) won show ?thesis by (auto simp: gs gate_inv_defs)
  qed (use assms(2) in \<open>simp_all add: gs\<close>)
qed

lemma gate_step_inv [inv_intros]:
  "gate_step ops x gs = (r, gs') \<Longrightarrow> gate_inv opts (fst gs) \<Longrightarrow> gate_inv opts (fst gs')"
  by (cases x) (auto intro: Claim_inv Release_inv)

lemma gate_inv_bootID: "gate_inv (opts\<lparr>OptBootID := b\<rparr>) g = gate_inv opts g"
  by (simp add: gate_inv_def)

lemma gate_reach_inv: "gate_reach ops opts gs \<Longrightarrow> gate_inv opts (fst gs)"
proof (induction rule: gate_reach.induct)
  case (restart g st b e g' st')
  from NewGate_inv [OF restart(2)] show ?case by (simp add: gate_inv_bootID)
qed (auto intro: inv_intros)

subsection \<open>Exclusive claims\<close>

lemma gate_step_account:
  assumes "gate_step ops x gs = (r, gs')"
  shows "of_bool (claimed (fst gs')) - of_bool (claimed (fst gs)) =
    (of_bool (claim_won (x, r)) - of_bool (release_won (x, r)) :: int)"
proof (cases x)
  case (OpClaim c w n n' e)
  obtain g st g' st' where gs: "gs = (g, st)" "gs' = (g', st')" by fastforce
  from assms OpClaim have "Claim ops c w n n' e (g, st) = (r, (g', st'))" by (simp add: gs)
  then show ?thesis
    by (cases rule: Claim_cases) (auto simp: gs OpClaim dest: allowAttemptLocked_frame)
next
  case (OpRelease b w e)
  obtain g st g' st' where gs: "gs = (g, st)" "gs' = (g', st')" by fastforce
  from assms OpRelease have "Release ops b w e (g, st) = (r, (g', st'))" by (simp add: gs)
  then show ?thesis by (cases rule: Release_cases) (auto simp: gs OpRelease)
qed

lemma tally_simps [simp]:
  "tally P [] = 0" "tally P (x # xs) = of_bool (P x) + tally P xs"
  by (simp_all add: tally_def)

lemma tally_nonneg [simp]: "0 \<le> tally P xs"
  by (simp add: tally_def)

lemma gate_run_account:
  "gate_run ops xs gs = (rs, gs') \<Longrightarrow>
   tally claim_won rs + of_bool (claimed (fst gs)) =
   tally release_won rs + of_bool (claimed (fst gs'))"
proof (induction xs arbitrary: gs rs)
  case Nil
  then show ?case by simp
next
  case (Cons x xs)
  obtain r gs1 where step: "gate_step ops x gs = (r, gs1)" by (meson surj_pair)
  obtain rs' gs2 where run: "gate_run ops xs gs1 = (rs', gs2)" by (meson surj_pair)
  from Cons.prems step run have rs: "rs = (x, r) # rs'" and gs': "gs' = gs2" by simp_all
  from gate_step_account [OF step] Cons.IH [OF run [folded gs']] show ?case
    by (simp add: rs)
qed

lemma gate_run_inv:
  "gate_run ops xs gs = (rs, gs') \<Longrightarrow> gate_inv opts (fst gs) \<Longrightarrow> gate_inv opts (fst gs')"
proof (induction xs arbitrary: gs rs)
  case (Cons x xs)
  obtain r gs1 where step: "gate_step ops x gs = (r, gs1)" by (meson surj_pair)
  with Cons.prems have "gate_inv opts (fst gs1)" by (blast intro: gate_step_inv)
  moreover obtain rs' where "gate_run ops xs gs1 = (rs', gs')"
    using Cons.prems(1) step by (auto split: prod.splits)
  ultimately show ?case by (rule Cons.IH [rotated])
qed simp

subsection \<open>The failure budget\<close>

fun op_time :: "gate_op \<Rightarrow> time" where
  "op_time (OpClaim _ _ n _ _) = n"
| "op_time (OpRelease _ _ _) = 0"

fun is_claim :: "gate_op \<Rightarrow> bool" where
  "is_claim (OpClaim _ _ _ _ _) = True"
| "is_claim (OpRelease _ _ _) = False"

lemma time_sub_minute: "time_sub a b > minute \<longleftrightarrow> a - b > minute"
  by (auto simp: time_sub_def minute_def)

text \<open>
  The limiter lifts a full count once more than a minute has passed since the first of the
  failures it counts: \<open>resets f t1\<close> is how often that can happen up to \<open>t1\<close> if the first
  time is not before \<open>f\<close>, and \<open>first_reset\<close> when it is, seen from \<open>t\<close>.
\<close>

definition resets :: "time \<Rightarrow> time \<Rightarrow> int" where
  "resets f t1 = (if t1 < f then 0 else 1 + (t1 - f) div (minute + 1))"

definition first_reset :: "time \<Rightarrow> gate \<Rightarrow> time" where
  "first_reset t g = (if failures g > 0 then max t (failureWindow g + minute + 1) else t + minute + 1)"

definition budget :: "time \<Rightarrow> time \<Rightarrow> gate \<Rightarrow> int" where
  "budget t t1 g = 10 - failures g + 10 * resets (first_reset t g) t1"

text \<open>The current window began in the past.\<close>

definition window_past :: "time \<Rightarrow> gate \<Rightarrow> bool" where
  "window_past t g \<longleftrightarrow> (failures g > 0 \<longrightarrow> failureWindow g \<le> t)"

lemma minute_pos: "0 < minute + 1"
  by (simp add: minute_def)

lemma resets_nonneg: "0 \<le> resets f t1"
  using minute_pos by (simp add: resets_def pos_imp_zdiv_nonneg_iff)

lemma resets_anti: "f \<le> f' \<Longrightarrow> resets f' t1 \<le> resets f t1"
  using minute_pos by (auto simp: resets_def pos_imp_zdiv_nonneg_iff intro: zdiv_mono1)

lemma resets_next: "t \<le> t1 \<Longrightarrow> resets (t + minute + 1) t1 = (t1 - t) div (minute + 1)"
proof -
  assume le: "t \<le> t1"
  have "(t1 - (t + minute + 1)) div (minute + 1) + 1 = (t1 - t) div (minute + 1)"
    using div_add_self2 [of "minute + 1" "t1 - (t + minute + 1)"] minute_pos by (simp add: algebra_simps)
  with le minute_pos show ?thesis
    by (auto simp: resets_def div_pos_pos_trivial)
qed

lemma resets_reset: "f \<le> t \<Longrightarrow> t \<le> t1 \<Longrightarrow> resets (t + minute + 1) t1 + 1 \<le> resets f t1"
  using resets_anti [of f t t1] resets_next [of t t1] by (simp add: resets_def)

lemma first_reset_mono: "t0 \<le> t \<Longrightarrow> first_reset t0 g \<le> first_reset t g"
  by (auto simp: first_reset_def)

lemma budget_later: "t0 \<le> t \<Longrightarrow> budget t t1 g \<le> budget t0 t1 g"
  using resets_anti [OF first_reset_mono] by (simp add: budget_def)

text \<open>One attempt, as the budget sees it.\<close>

lemma allowAttemptLocked_budget:
  assumes "allowAttemptLocked t g = (ok, g1)" "gate_inv opts g" "window_past t0 g" "t0 \<le> t" "t \<le> t1"
  shows "budget t t1 g1 \<le> budget t0 t1 g" "window_past t g1"
    and "ok \<Longrightarrow> failures g1 < 10 \<and> failureWindow g1 \<le> t \<and> (failures g1 = 0 \<longrightarrow> failureWindow g1 = t)"
proof -
  from assms(2) have g: "maxFailures g = 10" "failureLockout g = minute" "0 \<le> failures g"
    "failures g \<le> 10"
    by (auto simp: gate_inv_def)
  note eq = assms(1) [unfolded allowAttemptLocked_def failed_def Let_def g time_sub_minute]
  show "window_past t g1"
    using eq assms(3,4) by (auto simp: window_past_def split: if_splits)
  show "ok \<Longrightarrow> failures g1 < 10 \<and> failureWindow g1 \<le> t \<and> (failures g1 = 0 \<longrightarrow> failureWindow g1 = t)"
    using eq assms(3,4) g by (auto simp: window_past_def split: if_splits)
  show "budget t t1 g1 \<le> budget t0 t1 g"
  proof (cases "failures g \<ge> 10 \<and> t - failureWindow g > minute")
    case True
    with eq g(1) have "failures g1 = 0" by (auto split: if_splits)
    moreover have "first_reset t0 g \<le> t" using True assms(4) by (simp add: first_reset_def)
    ultimately show ?thesis
      using resets_reset [OF _ assms(5), of "first_reset t0 g"] g(4) by (simp add: budget_def first_reset_def)
  next
    case False
    with eq have "failures g1 = failures g" "failures g > 0 \<longrightarrow> failureWindow g1 = failureWindow g"
      by (auto split: if_splits)
    then have "budget t t1 g1 = budget t t1 g" by (auto simp: budget_def first_reset_def)
    with budget_later [OF assms(4)] show ?thesis by simp
  qed
qed

lemma claim_budget_step:
  assumes "gate_step ops (OpClaim c w t n' e) (g, st) = (r, (g', st'))"
    and "gate_inv opts g" "window_past t0 g" "t0 \<le> t" "t \<le> t1"
  shows "of_bool (bad_code (OpClaim c w t n' e, r)) + budget t t1 g' \<le> budget t0 t1 g \<and> window_past t g'"
proof -
  note aa = allowAttemptLocked_budget [OF _ assms(2-5)]
  from assms(1) have "Claim ops c w t n' e (g, st) = (r, (g', st'))" by simp
  then show ?thesis
  proof (cases rule: Claim_cases)
    case closed
    with assms(3,4) budget_later [OF assms(4)] show ?thesis by (auto simp: window_past_def)
  next
    case limited
    from aa(1,2) [OF limited(3)] limited show ?thesis by simp
  next
    case (bad g1)
    from assms(2) have "0 \<le> failures g" "failures g \<le> maxFailures g" "0 < maxFailures g"
      by (simp_all add: gate_inv_def)
    from allowAttemptLocked_bounds(1) [OF bad(3) this] have nn: "0 \<le> failures g1" .
    from aa(3) [OF bad(3)] nn have "first_reset t g' = first_reset t g1"
      using bad(6) by (auto simp: first_reset_def minute_def)
    with aa [OF bad(3)] nn bad(5,6) show ?thesis by (auto simp: budget_def window_past_def)
  next
    case nomint
    from aa(1,2) [OF nomint(3)] nomint show ?thesis by simp
  next
    case (won g1 tok)
    from won(8) have "budget t t1 g' = budget t t1 g1" "window_past t g' = window_past t g1"
      by (simp_all add: budget_def first_reset_def window_past_def)
    with aa(1,2) [OF won(3)] won(7) show ?thesis by simp
  qed
qed

lemma release_budget_step:
  assumes "gate_step ops (OpRelease b w e) (g, st) = (r, (g', st'))" "gate_inv opts g" "window_past t g"
  shows "budget t t1 g' \<le> budget t t1 g + 10 * of_bool (release_won (OpRelease b w e, r)) \<and> window_past t g' \<and>
    \<not> bad_code (OpRelease b w e, r)"
proof -
  from assms(1) have "Release ops b w e (g, st) = (r, (g', st'))" by simp
  then show ?thesis
  proof (cases rule: Release_cases)
    case (won c)
    have "first_reset t g \<le> t + minute + 1"
      using assms(3) by (auto simp: first_reset_def window_past_def minute_def)
    from resets_anti [OF this, of t1] assms(2) won show ?thesis
      by (simp add: budget_def first_reset_def window_past_def gate_inv_def)
  qed (use assms(3) in auto)
qed

lemma gate_budget_run:
  assumes "gate_run ops xs gs = (rs, gs')" "gate_inv opts (fst gs)" "window_past t0 (fst gs)"
    and "sorted (t0 # map op_time (filter is_claim xs))" "\<forall>x \<in> set xs. is_claim x \<longrightarrow> op_time x \<le> t1"
  shows "tally bad_code rs \<le> budget t0 t1 (fst gs) + 10 * tally release_won rs"
  using assms
proof (induction xs arbitrary: gs rs t0)
  case Nil
  then show ?case using resets_nonneg [of "first_reset t0 (fst gs)" t1] by (auto simp: gate_inv_def budget_def)
next
  case (Cons x xs)
  obtain g st where gs: "gs = (g, st)" by fastforce
  obtain r g1 st1 where step: "gate_step ops x (g, st) = (r, (g1, st1))" by (metis surj_pair)
  obtain rs' where run: "gate_run ops xs (g1, st1) = (rs', gs')" and rs: "rs = (x, r) # rs'"
    using Cons.prems(1) step by (auto simp: gs split: prod.splits)
  have inv: "gate_inv opts g" "window_past t0 g" "gate_inv opts g1"
    using Cons.prems(2,3) gate_step_inv [OF step] by (simp_all add: gs)
  show ?case
  proof (cases x)
    case (OpClaim c w t n' e)
    have t: "t0 \<le> t" "t \<le> t1" "sorted (t # map op_time (filter is_claim xs))"
      using Cons.prems(4,5) by (simp_all add: OpClaim)
    from claim_budget_step [OF step [unfolded OpClaim] inv(1,2) t(1,2)] have
      one: "of_bool (bad_code (x, r)) + budget t t1 g1 \<le> budget t0 t1 g" "window_past t g1"
      by (simp_all add: OpClaim)
    have "tally bad_code rs' \<le> budget t t1 g1 + 10 * tally release_won rs'"
      using Cons.IH [OF run _ _ t(3)] inv(3) one(2) Cons.prems(5) by simp
    moreover have "\<not> release_won (x, r)" by (simp add: OpClaim)
    ultimately show ?thesis using one(1) by (simp add: rs gs)
  next
    case (OpRelease b w e)
    from release_budget_step [OF step [unfolded OpRelease] inv(1,2), of t1] have
      one: "budget t0 t1 g1 \<le> budget t0 t1 g + 10 * of_bool (release_won (x, r))" "window_past t0 g1"
      "\<not> bad_code (x, r)"
      by (simp_all add: OpRelease)
    have "tally bad_code rs' \<le> budget t0 t1 g1 + 10 * tally release_won rs'"
      using Cons.IH [OF run, of t0] inv(3) one(2) Cons.prems(4,5) by (simp add: OpRelease)
    with one(1,3) show ?thesis by (simp add: rs gs)
  qed
qed

subsection \<open>The contract of a state store, and restarts\<close>

text \<open>
  What the gate relies on when it persists its enrollment: while the store is healthy and
  the strings are storable, a saved token (with its owner) is what the next load returns
  and it replaces any code, and a saved code replaces any token.
\<close>

locale state_store_laws =
  fixes ops :: "'s state_store"
    and healthy :: "'s \<Rightarrow> bool"
    and storable :: "string \<Rightarrow> bool"
  assumes load_token_saved:
      "healthy s \<Longrightarrow> storable t \<Longrightarrow> storable w \<Longrightarrow> LoadToken ops (SaveToken ops t w s) = (t, w)"
    and load_code_saved:
      "healthy s \<Longrightarrow> storable c \<Longrightarrow> LoadCode ops (SaveCode ops c s) = c"
    and load_token_code:
      "healthy s \<Longrightarrow> storable c \<Longrightarrow> fst (LoadToken ops (SaveCode ops c s)) = ''''"
    and healthy_SaveToken: "healthy s \<Longrightarrow> healthy (SaveToken ops t w s)"
    and healthy_SaveCode: "healthy s \<Longrightarrow> healthy (SaveCode ops c s)"
    and storable_hex: "storable (hex_encode bs)"

text \<open>The store holds what the gate holds, for a gate that persists at all.\<close>

definition persisted :: "'s state_store \<Rightarrow> 's gate_state \<Rightarrow> bool" where
  "persisted ops gs =
     (case gs of (g, st) \<Rightarrow>
       (case st of None \<Rightarrow> True
        | Some s \<Rightarrow> disabled g \<or> preauth g \<or>
            (if claimed g then LoadToken ops s = (token g, ownerID g)
             else fst (LoadToken ops s) = '''' \<and> LoadCode ops s = code g)))"

fun op_owner :: "gate_op \<Rightarrow> string" where
  "op_owner (OpClaim _ w _ _ _) = w"
| "op_owner (OpRelease _ w _) = w"

lemma persisted_failures [simp]:
  "persisted ops (g\<lparr>failures := k\<rparr>, st) = persisted ops (g, st)"
  by (simp add: persisted_def split: option.split)

lemma persisted_allow:
  "allowAttemptLocked n g = (ok, g1) \<Longrightarrow> persisted ops (g1, st) = persisted ops (g, st)"
  using allowAttemptLocked_frame [of n g ok g1] by (simp add: persisted_def split: option.split)

lemma zero_gate_simps [simp]:
  "disabled (zero_gate opts) = OptDisabled opts" "preauth (zero_gate opts) = False"
  "claimed (zero_gate opts) = False" "resumed (zero_gate opts) = False"
  "token (zero_gate opts) = ''''" "code (zero_gate opts) = ''''"
  "ownerID (zero_gate opts) = ''''" "failures (zero_gate opts) = 0"
  by (simp_all add: zero_gate_def)

context state_store_laws
begin

definition healthy_opt :: "'s option \<Rightarrow> bool" where
  "healthy_opt st = (case st of None \<Rightarrow> True | Some s \<Rightarrow> healthy s)"

lemma storable_random: "randomHex n e = Inr t \<Longrightarrow> storable t"
  by (auto dest!: randomHex_Inr simp: storable_hex)

lemma mint_code_persisted:
  assumes "mint_code ops g st e = (Inr g', st')" "healthy_opt st" "\<not> claimed g"
  shows "persisted ops (g', st')" "healthy_opt st'"
proof -
  from assms obtain c where c: "randomHex 16 e = Inr c" "g' = g\<lparr>code := c\<rparr>"
    "st' = save_code_opt ops c st"
    by (auto simp: mint_code_def split: sum.splits)
  from storable_random [OF c(1)] c assms show "persisted ops (g', st')" "healthy_opt st'"
    by (auto simp: persisted_def healthy_opt_def save_code_opt_def load_code_saved
        load_token_code healthy_SaveCode split: option.splits)
qed

lemma NewGate_persisted:
  assumes "NewGate ops opts st e = (Inr g, st')" "healthy_opt st"
  shows "persisted ops (g, st')" "healthy_opt st'"
proof -
  have "mint_code ops (zero_gate opts) st e = (Inr g, st') \<or> st' = st \<and> persisted ops (g, st)"
    using assms(1) unfolding NewGate_def Let_def
    by (auto simp: persisted_def split: if_splits option.splits prod.splits)
  then show "persisted ops (g, st')" "healthy_opt st'"
    using mint_code_persisted [of "zero_gate opts"] assms(2) by auto
qed

lemma gate_step_persisted:
  assumes "gate_step ops x gs = (r, gs')" "persisted ops gs" "healthy_opt (snd gs)"
    and "storable (op_owner x)"
  shows "persisted ops gs' \<and> healthy_opt (snd gs')"
proof -
  obtain g st g' st' where gs: "gs = (g, st)" "gs' = (g', st')" by (metis surj_pair)
  show ?thesis
  proof (cases x)
    case (OpClaim c w n n' e)
    with assms have "Claim ops c w n n' e (g, st) = (r, (g', st'))" by (simp add: gs)
    then show ?thesis
    proof (cases rule: Claim_cases)
      case (won g1 tok)
      with assms OpClaim storable_random [OF won(6)] allowAttemptLocked_frame [OF won(3)]
      show ?thesis
        by (auto simp: gs persisted_def healthy_opt_def save_token_opt_def load_token_saved
            healthy_SaveToken split: option.splits)
    qed (use assms in \<open>auto simp: gs dest: persisted_allow [where ops = ops and st = st]\<close>)
  next
    case (OpRelease b w e)
    with assms have "Release ops b w e (g, st) = (r, (g', st'))" by (simp add: gs)
    then show ?thesis
    proof (cases rule: Release_cases)
      case (won c)
      with assms storable_random [OF won(5)] show ?thesis
        by (auto simp: gs persisted_def healthy_opt_def save_code_opt_def load_code_saved
            load_token_code healthy_SaveCode split: option.splits)
    qed (use assms in \<open>auto simp: gs\<close>)
  qed
qed

lemma gate_run_persisted:
  assumes "gate_run ops xs gs = (rs, gs')" "persisted ops gs" "healthy_opt (snd gs)"
    and "\<forall>x \<in> set xs. storable (op_owner x)"
  shows "persisted ops gs' \<and> healthy_opt (snd gs')"
  using assms
proof (induction xs arbitrary: gs rs)
  case (Cons x xs)
  obtain r gs1 where step: "gate_step ops x gs = (r, gs1)" by (meson surj_pair)
  obtain rs' where run: "gate_run ops xs gs1 = (rs', gs')"
    using Cons.prems(1) step by (auto split: prod.splits)
  from gate_step_persisted [OF step] Cons.prems have "persisted ops gs1" "healthy_opt (snd gs1)"
    by simp_all
  from Cons.IH [OF run this] Cons.prems(4) show ?case by simp
qed simp

end

text \<open>
  A restart over a store in sync with the gate finds the same credential, whatever the
  new process's entropy is.
\<close>

lemma restart_same_credential:
  assumes "gate_inv opts g" "persisted ops (g, Some s)" "\<not> disabled g" "\<not> preauth g"
  shows "\<exists>g'. NewGate ops (opts\<lparr>OptBootID := b\<rparr>) (Some s) e = (Inr g', Some s) \<and>
    token g' = token g \<and> code g' = code g \<and> claimed g' = claimed g \<and> resumed g' = claimed g"
  using assms
  by (auto simp: gate_inv_defs persisted_def NewGate_def zero_gate_def Let_def
      split: if_splits prod.splits)

subsection \<open>Properties\<close>

text \<open>
  C5. Claims are exclusive. Along any run of claims and releases, in any order and with any
  arguments, the successful claims and the successful releases alternate: their numbers
  differ by exactly the change of the claimed flag, so an unclaimed gate is won at most once
  more than it is released, and a claimed one never again without a release.
\<close>

theorem claims_are_exclusive:
  "tally claim_won (fst (gate_run ops xs gs)) + of_bool (claimed (fst gs)) =
     tally release_won (fst (gate_run ops xs gs)) + of_bool (claimed (fst (snd (gate_run ops xs gs)))) \<and>
   tally claim_won (fst (gate_run ops xs gs)) \<le>
     tally release_won (fst (gate_run ops xs gs)) + of_bool (\<not> claimed (fst gs))"
proof -
  obtain rs gs' where run: "gate_run ops xs gs = (rs, gs')" by (meson surj_pair)
  from gate_run_account [OF run] show ?thesis
    by (cases "claimed (fst gs)"; cases "claimed (fst gs')") (simp_all add: run)
qed

text \<open>
  C9. Guessing is bounded. Take any reachable state of the gate and any run of claims, with
  whatever codes, and releases in between, the claims at times that do not go backwards, from
  \<open>t0\<close> (not before the first failure now counted) to \<open>t1\<close>. At most ten wrong codes are
  compared per started minute, plus ten for each successful release, plus, when \<open>k > 0\<close>
  failures are counted at the start, the \<open>10 - k\<close> that are left of that window. So without a
  release at most 19 are compared within any minute (a bound that is reached, see
  \<open>nineteen_guesses_at_once\<close> below); the other attempts are refused without looking at the code.
\<close>

theorem wrong_codes_are_bounded:
  assumes "gate_reach ops opts gs" and "gate_run ops xs gs = (rs, gs')"
    and "sorted (t0 # map op_time (filter is_claim xs))" "\<forall>x \<in> set xs. is_claim x \<longrightarrow> op_time x \<le> t1" "t0 \<le> t1"
    and "failures (fst gs) > 0 \<longrightarrow> failureWindow (fst gs) \<le> t0"
  shows "tally bad_code rs \<le> 10 * (1 + (t1 - t0) div (minute + 1)) + 10 * tally release_won rs +
    (if failures (fst gs) = 0 then 0 else 10 - failures (fst gs)) \<and>
    (t1 - t0 \<le> minute \<and> tally release_won rs = 0 \<longrightarrow> tally bad_code rs \<le> 19)"
proof -
  let ?g = "fst gs"
  have inv: "gate_inv opts ?g" by (rule gate_reach_inv [OF assms(1)])
  have "tally bad_code rs \<le> budget t0 t1 ?g + 10 * tally release_won rs"
    by (rule gate_budget_run [OF assms(2) inv _ assms(3,4)]) (use assms(6) in \<open>simp add: window_past_def\<close>)
  moreover have "budget t0 t1 ?g \<le> 10 * (1 + (t1 - t0) div (minute + 1)) +
      (if failures ?g = 0 then 0 else 10 - failures ?g)"
  proof (cases "failures ?g = 0")
    case True
    then show ?thesis using resets_next [OF assms(5)] by (simp add: budget_def first_reset_def)
  next
    case False
    then have "t0 \<le> first_reset t0 ?g" using inv by (simp add: first_reset_def gate_inv_def)
    from resets_anti [OF this, of t1] False assms(5) show ?thesis by (simp add: budget_def resets_def)
  qed
  moreover have "(t1 - t0) div (minute + 1) = 0" if "t1 - t0 \<le> minute"
    using that assms(5) by (intro div_pos_pos_trivial) simp_all
  moreover have "0 \<le> failures ?g" using inv by (simp add: gate_inv_def)
  ultimately show ?thesis by (auto split: if_splits)
qed

definition no_store :: "unit state_store" where
  "no_store = \<lparr>LoadToken = (\<lambda>_. ('''', '''')), LoadCode = (\<lambda>_. ''''), SaveToken = (\<lambda>_ _ s. s),
               SaveCode = (\<lambda>_ s. s), ClearState = (\<lambda>s. s)\<rparr>"

definition plain_options :: options where
  "plain_options = \<lparr>PreAuthorizedToken = '''', OptDisabled = False, OptBootID = ''boot''\<rparr>"

definition sample_gate :: gate where
  "sample_gate = (zero_gate plain_options)\<lparr>code := hex_encode (replicate 16 (CHR 0x41))\<rparr>"

lemma sample_gate_new:
  "NewGate no_store plain_options None (Some (\<lambda>_. CHR 0x41)) = (Inr sample_gate, None)"
proof -
  have "map (\<lambda>_. CHR 0x41) [0..<16] = replicate 16 (CHR 0x41)" by (simp add: map_replicate_const)
  then show ?thesis
    by (simp add: NewGate_def plain_options_def mint_code_def randomHex_def save_code_opt_def
        sample_gate_def Let_def)
qed

definition guesses :: "gate_op list" where
  "guesses = OpClaim ''x'' ''o'' 0 0 None # replicate 25 (OpClaim ''x'' ''o'' (5 * minute) 0 None)"

text \<open>A wrong guess at an unclaimed gate, by its count.\<close>

lemma wrong_guess:
  assumes "\<not> disabled g" "\<not> claimed g" "c \<noteq> code g"
  shows "Claim no_store c w n n' e (g, None) =
    (case allowAttemptLocked n g of (ok, g1) \<Rightarrow>
       if ok then (Inl ErrBadCode, (g1\<lparr>failures := failures g1 + 1\<rparr>, None)) else (Inl ErrRateLimited, (g1, None)))"
  using assms by (auto simp: Claim_def allowAttemptLocked_def Let_def)

lemma sample_guess:
  "Claim no_store ''x'' w n n' e (sample_gate\<lparr>failures := k, failureWindow := f\<rparr>, None) =
    (if k \<ge> 10 \<and> \<not> n - f > minute then (Inl ErrRateLimited, (sample_gate\<lparr>failures := k, failureWindow := f\<rparr>, None))
     else let k' = (if k \<ge> 10 then 0 else k) in
       (Inl ErrBadCode, (sample_gate\<lparr>failures := k' + 1, failureWindow := (if k' = 0 then n else f)\<rparr>, None)))"
proof -
  have "length (code sample_gate) = 32" by (simp add: sample_gate_def)
  then have "''x'' \<noteq> code sample_gate" by (cases "code sample_gate") auto
  moreover have "failureLockout sample_gate = minute" "maxFailures sample_gate = 10"
    by (simp_all add: sample_gate_def zero_gate_def)
  ultimately show ?thesis
    by (subst wrong_guess)
      (simp_all add: sample_gate_def zero_gate_def plain_options_def allowAttemptLocked_def failed_def Let_def
        time_sub_minute)
qed

lemma sample_gate_parts: "sample_gate = sample_gate\<lparr>failures := 0, failureWindow := 0\<rparr>"
  by (simp add: sample_gate_def zero_gate_def zero_time_def)

lemmas guess_simps = sample_guess guesses_def minute_def numeral_nat Let_def

lemma first_guess:
  "gate_run no_store (take 1 guesses) (sample_gate, None) =
    ([(OpClaim ''x'' ''o'' 0 0 None, Inl ErrBadCode)], (sample_gate\<lparr>failures := 1, failureWindow := 0\<rparr>, None))"
  by (subst (1) sample_gate_parts) (simp add: guess_simps)

lemma burst_of_guesses:
  "map snd (fst (gate_run no_store (drop 1 guesses) (sample_gate\<lparr>failures := 1, failureWindow := 0\<rparr>, None))) =
    replicate 19 (Inl ErrBadCode) @ replicate 6 (Inl ErrRateLimited)"
  by (simp add: guess_simps)

lemma claims_release_nothing:
  "gate_run ops xs gs = (rs, gs') \<Longrightarrow> list_all is_claim xs \<Longrightarrow> tally release_won rs = 0"
proof (induction xs arbitrary: gs rs)
  case (Cons x xs)
  from Cons.prems(2) obtain c w n n' e where "x = OpClaim c w n n' e" by (cases x) simp_all
  with Cons show ?case by (auto split: prod.splits)
qed simp

theorem wrong_codes_are_bounded_witness:
  "tally bad_code (fst (gate_run no_store (drop 1 guesses)
     (snd (gate_run no_store (take 1 guesses) (sample_gate, None))))) \<le> 19"
proof -
  let ?g = "sample_gate\<lparr>failures := 1, failureWindow := 0\<rparr>"
  obtain rs gs' where run: "gate_run no_store (drop 1 guesses) (?g, None) = (rs, gs')" by (meson surj_pair)
  have "gate_step no_store (OpClaim ''x'' ''o'' 0 0 None) (sample_gate, None) = (Inl ErrBadCode, (?g, None))"
    using first_guess by (simp add: guesses_def split: prod.splits)
  from gate_reach.serve [OF gate_reach.boot [OF sample_gate_new] this]
  have reach: "gate_reach no_store plain_options (?g, None)" .
  have "tally release_won rs = 0" by (rule claims_release_nothing [OF run]) (simp add: guesses_def list_all_iff)
  with wrong_codes_are_bounded [OF reach run, of "5 * minute" "5 * minute"]
  show ?thesis unfolding first_guess snd_conv run fst_conv by (simp add: guesses_def minute_def)
qed

text \<open>
  The bound is reached: after one wrong code, five minutes later nineteen are looked at in one
  instant. The count of a minute begins with its first failure and is cleared only when it is
  full, so an old failure lets the first nine of a burst fill it and the next ten follow.
\<close>

theorem nineteen_guesses_at_once:
  "tally bad_code (fst (gate_run no_store (drop 1 guesses)
     (snd (gate_run no_store (take 1 guesses) (sample_gate, None))))) = 19"
  unfolding first_guess by (simp add: guess_simps tally_def)

text \<open>
  C18. Releasing revokes. In every reachable state, a release that succeeds was made with
  the current token by the owner of a claimed, not pre-authorized gate; afterwards no
  bearer is accepted, the state is unclaimed with the new code and a clean failure budget,
  and the holder of that code can claim at once, after which exactly the new token is
  accepted.
\<close>

theorem release_revokes:
  assumes "gate_reach ops opts gs" and "Release ops b w e gs = (Inr c, (g', st'))"
  shows "claimed (fst gs) \<and> b = token (fst gs) \<and> PreAuthorizedToken opts = '''' \<and>
    (\<forall>b'. \<not> Authorized g' b') \<and> st_NeedsCode (Status g') \<and> code g' = c \<and> c \<noteq> '''' \<and>
    (\<forall>w' n n' f. \<exists>tok g'' st''. Claim ops c w' n n' (Some f) (g', st') = (Inr tok, (g'', st'')) \<and>
       (\<forall>b'. Authorized g'' b' \<longleftrightarrow> b' = tok))"
proof -
  obtain g st where gs: "gs = (g, st)" by fastforce
  from gate_reach_inv [OF assms(1)] have inv: "gate_inv opts g" by (simp add: gs)
  from assms(2) [unfolded gs] show ?thesis
  proof (cases rule: Release_cases)
    case (won c')
    then have c: "c' = c" "c \<noteq> ''''" using randomHex_nonempty [OF won(5)] by auto
    have g': "\<not> disabled g'" "\<not> claimed g'" "token g' = ''''" "code g' = c" "failures g' = 0"
      "maxFailures g' = 10"
      using won inv by (simp_all add: c gate_inv_def)
    have "\<exists>tok g'' st''. Claim ops c w' n n' (Some f) (g', st') = (Inr tok, (g'', st'')) \<and>
       (\<forall>b'. Authorized g'' b' \<longleftrightarrow> b' = tok)" for w' n n' f
      using g' c(2) randomHex_nonempty [of 32 "Some f"]
      by (auto simp: Claim_def allowAttemptLocked_def failed_def randomHex_def Authorized_iff)
    with won g' c inv show ?thesis
      by (auto simp: gs Authorized_iff Status_def gate_inv_def)
  qed (use assms(2) in auto)
qed

theorem release_revokes_witness:
  "\<exists>tok g st c g' st'. Release no_store tok ''owner'' (Some (\<lambda>_. CHR 0x43)) (g, st) = (Inr c, (g', st')) \<and>
     Authorized g tok \<and> \<not> Authorized g' tok"
proof -
  let ?tok = "hex_encode (map (\<lambda>_. CHR 0x42) [0..<32])"
  let ?g = "sample_gate\<lparr>failureWindow := 5, token := ?tok, claimed := True, ownerID := ''owner'',
      claimedAt := 6, code := ''''\<rparr>"
  have sample: "\<not> disabled sample_gate" "\<not> claimed sample_gate" "failures sample_gate = 0"
    "maxFailures sample_gate = 10" "code sample_gate \<noteq> ''''" "\<not> preauth sample_gate"
    by (simp_all add: sample_gate_def zero_gate_def plain_options_def)
  have claim: "Claim no_store (code sample_gate) ''owner'' 5 6 (Some (\<lambda>_. CHR 0x42))
      (sample_gate, None) = (Inr ?tok, (?g, None))"
    using sample by (simp add: Claim_def allowAttemptLocked_def failed_def randomHex_def
        save_token_opt_def)
  have "gate_reach no_store plain_options (?g, None)"
    by (rule gate_reach.serve [OF gate_reach.boot [OF sample_gate_new],
          of "OpClaim (code sample_gate) ''owner'' 5 6 (Some (\<lambda>_. CHR 0x42))"])
      (simp add: claim)
  moreover obtain c g' st' where rel:
    "Release no_store ?tok ''owner'' (Some (\<lambda>_. CHR 0x43)) (?g, None) = (Inr c, (g', st'))"
    using sample by (simp add: Release_def randomHex_def)
  ultimately have "\<not> Authorized g' ?tok"
    using release_revokes by blast
  moreover have "Authorized ?g ?tok" by (simp add: Authorized_iff)
  ultimately show ?thesis using rel by blast
qed

end
