(* ===== verification/FileStore.thy ===== *)
theory FileStore
  imports Gate
begin

text \<open>
  The persistent state store, \<open>internal/auth/filestore.go\<close>: the enrollment state as one
  JSON file, replaced atomically. The directory is a map from file names to contents and
  mode bits; each system call of \<open>write\<close> is one step on it, and its outcome is an
  argument (\<open>write_env\<close>). A crash may happen between any two steps, so \<open>write_trace\<close>
  lists every intermediate directory.
\<close>

record file_state =
  fs_Token :: string
  fs_OwnerID :: string
  fs_Code :: string

definition no_state :: file_state where
  "no_state = \<lparr>fs_Token = '''', fs_OwnerID = '''', fs_Code = ''''\<rparr>"

text \<open>The encoder and decoder the store uses; \<open>None\<close> is an error.\<close>

record codec =
  marshal :: "file_state \<Rightarrow> bytes option"
  unmarshal :: "bytes \<Rightarrow> file_state option"

text \<open>
  The outcomes of the system calls of one \<open>write\<close>: \<open>temp_name\<close> is the name
  \<open>os.CreateTemp\<close> chose (it never reuses an existing file), \<open>write_stop\<close> the number of
  bytes written before an error (\<open>None\<close>: all of them).
\<close>

record write_env =
  mkdir_ok :: bool
  temp_name :: "string option"
  chmod_ok :: bool
  write_stop :: "nat option"
  close_ok :: bool
  rename_ok :: bool

type_synonym disk = "string \<rightharpoonup> bytes \<times> nat"

record file_store =
  fpath :: string
  disk_of :: disk
  readable :: bool
  fenv :: "nat \<Rightarrow> write_env"
  ftick :: nat

definition NewFileStore :: "string \<Rightarrow> disk \<Rightarrow> bool \<Rightarrow> (nat \<Rightarrow> write_env) \<Rightarrow> file_store" where
  "NewFileStore path d r env =
     \<lparr>fpath = path, disk_of = d, readable = r, fenv = env, ftick = 0\<rparr>"

definition mode_0600 :: nat where
  "mode_0600 = 384"

definition fs_read :: "codec \<Rightarrow> file_store \<Rightarrow> file_state" where
  "fs_read cdc s =
     (if fpath s = '''' then no_state
      else if \<not> readable s then no_state
      else case disk_of s (fpath s) of
          None \<Rightarrow> no_state
        | Some (data, _) \<Rightarrow>
            (case unmarshal cdc data of None \<Rightarrow> no_state | Some st \<Rightarrow> st))"

text \<open>
  The directories \<open>write\<close> passes through, in order: temporary file created, its content
  growing byte by byte, then renamed over the target or given up, and the deferred removal
  of the temporary name.
\<close>

definition write_trace :: "codec \<Rightarrow> write_env \<Rightarrow> string \<Rightarrow> file_state \<Rightarrow> disk \<Rightarrow> disk list" where
  "write_trace cdc env path st d =
     (if path = '''' then []
      else if \<not> mkdir_ok env then []
      else case marshal cdc st of
        None \<Rightarrow> []
      | Some data \<Rightarrow>
          (case temp_name env of
             None \<Rightarrow> []
           | Some tmp \<Rightarrow>
               let created = d(tmp \<mapsto> ([], mode_0600));
                   n = (case write_stop env of None \<Rightarrow> length data | Some k \<Rightarrow> min k (length data));
                   writing = map (\<lambda>k. d(tmp \<mapsto> (take k data, mode_0600))) [0..<Suc n];
                   written = d(tmp \<mapsto> (take n data, mode_0600))
               in created # writing @
                 (if write_stop env \<noteq> None \<or> \<not> close_ok env \<or> \<not> rename_ok env then
                    [written(tmp := None)]
                  else let renamed = (written(tmp := None))(path \<mapsto> (data, mode_0600))
                       in [renamed, renamed(tmp := None)])))"

definition fs_write :: "codec \<Rightarrow> file_state \<Rightarrow> file_store \<Rightarrow> file_store" where
  "fs_write cdc st s =
     s\<lparr>disk_of := last (disk_of s # write_trace cdc (fenv s (ftick s)) (fpath s) st (disk_of s)),
       ftick := Suc (ftick s)\<rparr>"

definition fs_LoadToken :: "codec \<Rightarrow> file_store \<Rightarrow> string \<times> string" where
  "fs_LoadToken cdc s = (let st = fs_read cdc s in (fs_Token st, fs_OwnerID st))"

definition fs_LoadCode :: "codec \<Rightarrow> file_store \<Rightarrow> string" where
  "fs_LoadCode cdc s = fs_Code (fs_read cdc s)"

definition fs_SaveToken :: "codec \<Rightarrow> string \<Rightarrow> string \<Rightarrow> file_store \<Rightarrow> file_store" where
  "fs_SaveToken cdc t w s = fs_write cdc \<lparr>fs_Token = t, fs_OwnerID = w, fs_Code = ''''\<rparr> s"

definition fs_SaveCode :: "codec \<Rightarrow> string \<Rightarrow> file_store \<Rightarrow> file_store" where
  "fs_SaveCode cdc c s = fs_write cdc \<lparr>fs_Token = '''', fs_OwnerID = '''', fs_Code = c\<rparr> s"

definition fs_Clear :: "file_store \<Rightarrow> file_store" where
  "fs_Clear s = (if fpath s = '''' then s else s\<lparr>disk_of := (disk_of s)(fpath s := None)\<rparr>)"

definition file_ops :: "codec \<Rightarrow> file_store state_store" where
  "file_ops cdc =
     \<lparr>LoadToken = fs_LoadToken cdc, LoadCode = fs_LoadCode cdc, SaveToken = fs_SaveToken cdc,
      SaveCode = fs_SaveCode cdc, ClearState = fs_Clear\<rparr>"

subsection \<open>Atomic replacement\<close>

text \<open>
  \<open>os.CreateTemp\<close> opens a file that does not exist yet; the target's own name never is
  a temporary name.
\<close>

definition fresh_temp :: "write_env \<Rightarrow> string \<Rightarrow> disk \<Rightarrow> bool" where
  "fresh_temp env path d \<longleftrightarrow>
     (\<forall>tmp. temp_name env = Some tmp \<longrightarrow> tmp \<noteq> path \<and> d tmp = None)"

definition env_good :: "write_env \<Rightarrow> bool" where
  "env_good env \<longleftrightarrow> mkdir_ok env \<and> temp_name env \<noteq> None \<and> write_stop env = None \<and>
     close_ok env \<and> rename_ok env"

lemma write_trace_disks:
  assumes "d' \<in> set (write_trace cdc env path st d)"
  shows "\<exists>tmp data x. temp_name env = Some tmp \<and> marshal cdc st = Some data \<and>
    (d' = d(tmp := x) \<or> d' = (d(tmp := None))(path \<mapsto> (data, mode_0600)) \<or>
     d' = (d(tmp := None, path \<mapsto> (data, mode_0600)))(tmp := None))"
proof -
  from assms obtain tmp data where t: "temp_name env = Some tmp" "marshal cdc st = Some data"
    by (cases "temp_name env"; cases "marshal cdc st") (auto simp: write_trace_def split: if_splits)
  with assms show ?thesis
    by (auto simp: write_trace_def Let_def simp del: upt_Suc split: if_splits)
qed

lemma write_trace_target:
  assumes "fresh_temp env path d" "d' \<in> set (d # write_trace cdc env path st d)"
  shows "d' path = d path \<or>
    (\<exists>data. marshal cdc st = Some data \<and> d' path = Some (data, mode_0600))"
  using assms write_trace_disks [of d' cdc env path st d] by (auto simp: fresh_temp_def)

lemma write_trace_others:
  assumes "f \<noteq> path" "temp_name env \<noteq> Some f"
    and "d' \<in> set (d # write_trace cdc env path st d)"
  shows "d' f = d f"
  using assms write_trace_disks [of d' cdc env path st d] by auto

lemma write_trace_partial:
  assumes "path \<noteq> ''''" "mkdir_ok env" "marshal cdc st = Some data" "temp_name env = Some tmp"
    and "write_stop env = None" "k \<le> length data"
  shows "d(tmp \<mapsto> (take k data, mode_0600)) \<in> set (write_trace cdc env path st d)"
proof -
  have "k \<in> set [0..<Suc (length data)]" using assms(6) by (simp del: upt_Suc)
  then have "d(tmp \<mapsto> (take k data, mode_0600)) \<in>
      set (map (\<lambda>k. d(tmp \<mapsto> (take k data, mode_0600))) [0..<Suc (length data)])"
    unfolding set_map by (rule imageI)
  with assms(1-5) show ?thesis
    by (simp add: write_trace_def Let_def del: upt_Suc set_map set_upt)
qed

text \<open>However the write ends, the temporary file is gone.\<close>

lemma write_final:
  assumes "fresh_temp env path d"
  shows "last (d # write_trace cdc env path st d) = d \<or>
    (\<exists>data. marshal cdc st = Some data \<and>
       last (d # write_trace cdc env path st d) = d(path \<mapsto> (data, mode_0600)))"
  using assms
  by (auto simp: write_trace_def fresh_temp_def Let_def fun_eq_iff split: option.splits)

lemma write_good:
  assumes "fresh_temp env path d" "env_good env" "marshal cdc st = Some data" "path \<noteq> ''''"
  shows "last (d # write_trace cdc env path st d) = d(path \<mapsto> (data, mode_0600))"
  using assms
  by (auto simp: write_trace_def fresh_temp_def env_good_def Let_def fun_eq_iff)

subsection \<open>The contract of the codec, and the store it gives\<close>

locale json_codec =
  fixes cdc :: codec and storable :: "string \<Rightarrow> bool"
  assumes roundtrip:
      "storable (fs_Token st) \<Longrightarrow> storable (fs_OwnerID st) \<Longrightarrow> storable (fs_Code st) \<Longrightarrow>
       \<exists>data. marshal cdc st = Some data \<and> unmarshal cdc data = Some st"
    and storable_empty: "storable ''''"
    and storable_hex_encode: "storable (hex_encode bs)"

text \<open>A store whose path is set, readable, and whose future writes meet no fault.\<close>

definition fs_healthy :: "file_store \<Rightarrow> bool" where
  "fs_healthy s \<longleftrightarrow> fpath s \<noteq> '''' \<and> readable s \<and>
     (\<forall>n \<ge> ftick s. env_good (fenv s n) \<and> fresh_temp (fenv s n) (fpath s) (disk_of s))"

lemma fs_write_frame [simp]:
  "fpath (fs_write cdc st s) = fpath s" "readable (fs_write cdc st s) = readable s"
  "fenv (fs_write cdc st s) = fenv s" "ftick (fs_write cdc st s) = Suc (ftick s)"
  by (simp_all add: fs_write_def)

lemma fs_healthy_write:
  assumes "fs_healthy s"
  shows "fs_healthy (fs_write cdc st s)"
proof -
  let ?env = "fenv s (ftick s)"
  from assms have "fresh_temp ?env (fpath s) (disk_of s)" by (simp add: fs_healthy_def)
  from write_final [OF this, of cdc st]
  have "disk_of (fs_write cdc st s) = disk_of s \<or>
    (\<exists>data. disk_of (fs_write cdc st s) = (disk_of s)(fpath s \<mapsto> (data, mode_0600)))"
    by (auto simp: fs_write_def)
  with assms show ?thesis
    by (auto simp: fs_healthy_def fresh_temp_def dest: Suc_leD)
qed

context json_codec
begin

lemma fs_read_write:
  assumes "fs_healthy s" "storable (fs_Token st)" "storable (fs_OwnerID st)"
    "storable (fs_Code st)"
  shows "fs_read cdc (fs_write cdc st s) = st"
proof -
  obtain data where data: "marshal cdc st = Some data" "unmarshal cdc data = Some st"
    using roundtrip assms by blast
  from assms(1) have "fpath s \<noteq> ''''" "readable s" "env_good (fenv s (ftick s))"
    "fresh_temp (fenv s (ftick s)) (fpath s) (disk_of s)"
    by (simp_all add: fs_healthy_def)
  with write_good [OF _ _ data(1)] data(2) show ?thesis
    by (simp add: fs_read_def fs_write_def)
qed

end

sublocale json_codec \<subseteq> fstore: state_store_laws "file_ops cdc" fs_healthy storable
  by unfold_locales
    (simp_all add: file_ops_def fs_LoadToken_def fs_LoadCode_def fs_SaveToken_def
      fs_SaveCode_def fs_read_write fs_healthy_write storable_empty storable_hex_encode)

end
