(* ===== verification/StateJson.thy ===== *)
theory StateJson
  imports FileStore
begin

text \<open>
  The JSON encoding of the state file: what \<open>json.Marshal\<close> and \<open>json.Unmarshal\<close> of
  package \<open>encoding/json\<close> do with the struct \<open>fileState\<close> (three string fields with
  \<open>omitempty\<close>). The decoder reads any JSON text: the grammar of values is complete, an
  unknown key is skipped, a key matches a field up to ASCII case, a string is stored, a
  null is ignored and any other value is an error. Bytes from 0x80 on are passed through
  unchanged in both directions, which is what Go does with valid UTF-8 other than U+2028
  and U+2029; the round trip is stated for ASCII strings.
\<close>

subsection \<open>Encoding\<close>

definition quote_char :: char where "quote_char = CHR 0x22"
definition backslash :: char where "backslash = CHR 0x5C"

definition needs_u_escape :: "char \<Rightarrow> bool" where
  "needs_u_escape c \<longleftrightarrow> (of_char c :: nat) < 32 \<or> c = CHR ''<'' \<or> c = CHR ''>'' \<or> c = CHR ''&''"

definition json_escape_char :: "char \<Rightarrow> string" where
  "json_escape_char c =
     (if c = quote_char \<or> c = backslash then [backslash, c]
      else if c = CHR 0x08 then [backslash, CHR ''b'']
      else if c = CHR 0x0C then [backslash, CHR ''f'']
      else if c = CHR 0x0A then [backslash, CHR ''n'']
      else if c = CHR 0x0D then [backslash, CHR ''r'']
      else if c = CHR 0x09 then [backslash, CHR ''t'']
      else if needs_u_escape c then [backslash, CHR ''u'', CHR ''0'', CHR ''0''] @ hex_of_byte c
      else [c])"

definition json_string :: "string \<Rightarrow> string" where
  "json_string s = quote_char # concat (map json_escape_char s) @ [quote_char]"

definition json_field :: "string \<Rightarrow> string \<Rightarrow> string list" where
  "json_field k v = (if v = '''' then [] else [json_string k @ '':'' @ json_string v])"

definition json_marshal :: "file_state \<Rightarrow> bytes option" where
  "json_marshal st =
     Some (''{'' @ join_with '','' (json_field ''token'' (fs_Token st) @
        json_field ''owner_id'' (fs_OwnerID st) @ json_field ''code'' (fs_Code st)) @ ''}'')"

subsection \<open>Decoding\<close>

datatype json =
    JNull
  | JBool bool
  | JNum string
  | JStr string
  | JArr "json list"
  | JObj "(string \<times> json) list"

definition is_json_space :: "char \<Rightarrow> bool" where
  "is_json_space c \<longleftrightarrow> c = CHR 0x20 \<or> c = CHR 0x09 \<or> c = CHR 0x0A \<or> c = CHR 0x0D"

definition skip_space :: "string \<Rightarrow> string" where
  "skip_space s = dropWhile is_json_space s"

definition hex_value :: "char \<Rightarrow> nat option" where
  "hex_value c =
     (let n = of_char c in
      if 48 \<le> n \<and> n \<le> 57 then Some (n - 48)
      else if 97 \<le> n \<and> n \<le> 102 then Some (n - 87)
      else if 65 \<le> n \<and> n \<le> 70 then Some (n - 55) else None)"

definition hex4 :: "char \<Rightarrow> char \<Rightarrow> char \<Rightarrow> char \<Rightarrow> nat option" where
  "hex4 a b c d =
     (case (hex_value a, hex_value b, hex_value c, hex_value d) of
        (Some w, Some x, Some y, Some z) \<Rightarrow> Some (((w * 16 + x) * 16 + y) * 16 + z)
      | _ \<Rightarrow> None)"

definition utf8_encode :: "nat \<Rightarrow> string" where
  "utf8_encode u =
     (if u < 128 then [char_of u]
      else if u < 2048 then [char_of (192 + u div 64), char_of (128 + u mod 64)]
      else if u < 65536 then
        [char_of (224 + u div 4096), char_of (128 + u div 64 mod 64), char_of (128 + u mod 64)]
      else [char_of (240 + u div 262144), char_of (128 + u div 4096 mod 64),
            char_of (128 + u div 64 mod 64), char_of (128 + u mod 64)])"

definition simple_escape :: "char \<Rightarrow> char option" where
  "simple_escape e =
     (if e = quote_char \<or> e = backslash \<or> e = CHR ''/'' then Some e
      else if e = CHR ''b'' then Some (CHR 0x08)
      else if e = CHR ''f'' then Some (CHR 0x0C)
      else if e = CHR ''n'' then Some (CHR 0x0A)
      else if e = CHR ''r'' then Some (CHR 0x0D)
      else if e = CHR ''t'' then Some (CHR 0x09) else None)"

definition is_surrogate :: "nat \<Rightarrow> bool" where
  "is_surrogate u \<longleftrightarrow> 55296 \<le> u \<and> u < 57344"

text \<open>
  A code unit in the surrogate range combines with the escape that follows when the two
  form a pair; otherwise it decodes to the replacement character and the following escape
  is read on its own.
\<close>

definition pair_of :: "nat \<Rightarrow> nat \<Rightarrow> nat option" where
  "pair_of hi lo =
     (if 55296 \<le> hi \<and> hi < 56320 \<and> 56320 \<le> lo \<and> lo < 57344
      then Some ((hi - 55296) * 1024 + (lo - 56320) + 65536) else None)"

definition prepend :: "string \<Rightarrow> (string \<times> string) option \<Rightarrow> (string \<times> string) option" where
  "prepend p r = map_option (\<lambda>(s, rest). (p @ s, rest)) r"

function (sequential) parse_str :: "string \<Rightarrow> (string \<times> string) option" where
  "parse_str [] = None"
| "parse_str (c # cs) =
     (if c = quote_char then Some ('''', cs)
      else if c = backslash then
        (case cs of
           [] \<Rightarrow> None
         | e # es \<Rightarrow>
             if e = CHR ''u'' then
               (case es of
                  h1 # h2 # h3 # h4 # r \<Rightarrow>
                    (case hex4 h1 h2 h3 h4 of
                       None \<Rightarrow> None
                     | Some u \<Rightarrow>
                         if is_surrogate u then
                           (case r of
                              b # v # g1 # g2 # g3 # g4 # r' \<Rightarrow>
                                if b = backslash \<and> v = CHR ''u'' then
                                  (case hex4 g1 g2 g3 g4 of
                                     None \<Rightarrow> None
                                   | Some u' \<Rightarrow>
                                       (case pair_of u u' of
                                          Some p \<Rightarrow> prepend (utf8_encode p) (parse_str r')
                                        | None \<Rightarrow> prepend (utf8_encode 65533) (parse_str r)))
                                else prepend (utf8_encode 65533) (parse_str r)
                            | _ \<Rightarrow> prepend (utf8_encode 65533) (parse_str r))
                         else prepend (utf8_encode u) (parse_str r))
                | _ \<Rightarrow> None)
             else (case simple_escape e of None \<Rightarrow> None | Some x \<Rightarrow> prepend [x] (parse_str es)))
      else if (of_char c :: nat) < 32 then None
      else prepend [c] (parse_str cs))"
  by pat_completeness auto
termination
  by (relation "measure length") auto

definition is_digit :: "char \<Rightarrow> bool" where
  "is_digit c \<longleftrightarrow> 48 \<le> (of_char c :: nat) \<and> (of_char c :: nat) \<le> 57"

text \<open>One or more digits.\<close>

definition digits1 :: "string \<Rightarrow> (string \<times> string) option" where
  "digits1 s = (let ds = takeWhile is_digit s in
     if ds = [] then None else Some (ds, dropWhile is_digit s))"

definition scan_int :: "string \<Rightarrow> (string \<times> string) option" where
  "scan_int s =
     (case s of [] \<Rightarrow> None
      | c # cs \<Rightarrow> if c = CHR ''0'' then Some ([c], cs) else digits1 s)"

definition scan_frac :: "string \<Rightarrow> (string \<times> string) option" where
  "scan_frac s =
     (case s of [] \<Rightarrow> Some ('''', s)
      | c # cs \<Rightarrow> if c = CHR ''.'' then map_option (apfst (Cons c)) (digits1 cs)
                  else Some ('''', s))"

definition scan_exp :: "string \<Rightarrow> (string \<times> string) option" where
  "scan_exp s =
     (case s of [] \<Rightarrow> Some ('''', s)
      | c # cs \<Rightarrow>
          if c = CHR ''e'' \<or> c = CHR ''E'' then
            (case cs of [] \<Rightarrow> None
             | d # ds \<Rightarrow>
                 if d = CHR ''+'' \<or> d = CHR ''-'' then
                   map_option (apfst (\<lambda>x. c # d # x)) (digits1 ds)
                 else map_option (apfst (Cons c)) (digits1 cs))
          else Some ('''', s))"

definition scan_num :: "string \<Rightarrow> (string \<times> string) option" where
  "scan_num s =
     (let (sign, s1) = (case s of [] \<Rightarrow> ('''', s)
                        | c # cs \<Rightarrow> if c = CHR ''-'' then ([c], cs) else ('''', s)) in
      case scan_int s1 of None \<Rightarrow> None
      | Some (i, s2) \<Rightarrow>
          (case scan_frac s2 of None \<Rightarrow> None
           | Some (f, s3) \<Rightarrow>
               (case scan_exp s3 of None \<Rightarrow> None
                | Some (x, s4) \<Rightarrow> Some (sign @ i @ f @ x, s4))))"

text \<open>
  Values, the elements of an array and the members of an object. Every call spends one
  unit of fuel; the length of the text is enough, since every level of nesting reads at
  least one character.
\<close>

fun parse_val :: "nat \<Rightarrow> string \<Rightarrow> (json \<times> string) option"
  and parse_elems :: "nat \<Rightarrow> string \<Rightarrow> (json list \<times> string) option"
  and parse_members :: "nat \<Rightarrow> string \<Rightarrow> ((string \<times> json) list \<times> string) option"
where
  "parse_val 0 s = None"
| "parse_val (Suc n) s =
     (case skip_space s of
        [] \<Rightarrow> None
      | c # cs \<Rightarrow>
          if c = quote_char then map_option (apfst JStr) (parse_str cs)
          else if c = CHR ''{'' then
            (case skip_space cs of
               d # ds \<Rightarrow> if d = CHR ''}'' then Some (JObj [], ds)
                         else map_option (apfst JObj) (parse_members n (d # ds))
             | [] \<Rightarrow> None)
          else if c = CHR ''['' then
            (case skip_space cs of
               d # ds \<Rightarrow> if d = CHR '']'' then Some (JArr [], ds)
                         else map_option (apfst JArr) (parse_elems n (d # ds))
             | [] \<Rightarrow> None)
          else if has_prefix ''null'' (c # cs) then Some (JNull, drop 4 (c # cs))
          else if has_prefix ''true'' (c # cs) then Some (JBool True, drop 4 (c # cs))
          else if has_prefix ''false'' (c # cs) then Some (JBool False, drop 5 (c # cs))
          else map_option (apfst JNum) (scan_num (c # cs)))"
| "parse_elems 0 s = None"
| "parse_elems (Suc n) s =
     (case parse_val n s of
        None \<Rightarrow> None
      | Some (v, r) \<Rightarrow>
          (case skip_space r of
             [] \<Rightarrow> None
           | c # cs \<Rightarrow>
               if c = CHR '','' then map_option (apfst (Cons v)) (parse_elems n cs)
               else if c = CHR '']'' then Some ([v], cs) else None))"
| "parse_members 0 s = None"
| "parse_members (Suc n) s =
     (case skip_space s of
        [] \<Rightarrow> None
      | q # qs \<Rightarrow>
          if q \<noteq> quote_char then None
          else case parse_str qs of
            None \<Rightarrow> None
          | Some (k, r) \<Rightarrow>
              (case skip_space r of
                 [] \<Rightarrow> None
               | c # cs \<Rightarrow>
                   if c \<noteq> CHR '':'' then None
                   else case parse_val n cs of
                     None \<Rightarrow> None
                   | Some (v, r2) \<Rightarrow>
                       (case skip_space r2 of
                          [] \<Rightarrow> None
                        | d # ds \<Rightarrow>
                            if d = CHR '','' then
                              map_option (apfst (Cons (k, v))) (parse_members n ds)
                            else if d = CHR ''}'' then Some ([(k, v)], ds) else None)))"

definition json_decode :: "string \<Rightarrow> json option" where
  "json_decode s =
     (case parse_val (Suc (length s)) s of
        None \<Rightarrow> None
      | Some (v, r) \<Rightarrow> if skip_space r = [] then Some v else None)"

definition lower_ascii :: "char \<Rightarrow> char" where
  "lower_ascii c = (let n = (of_char c :: nat) in if 65 \<le> n \<and> n \<le> 90 then char_of (n + 32) else c)"

definition same_key :: "string \<Rightarrow> string \<Rightarrow> bool" where
  "same_key k f \<longleftrightarrow> map lower_ascii k = f"

text \<open>One member of the object, stored into the struct; \<open>None\<close> is a type error.\<close>

definition store_member :: "string \<times> json \<Rightarrow> file_state \<Rightarrow> file_state option" where
  "store_member kv st =
     (case kv of (k, v) \<Rightarrow>
       if same_key k ''token'' \<or> same_key k ''owner_id'' \<or> same_key k ''code'' then
         (case v of
            JNull \<Rightarrow> Some st
          | JStr s \<Rightarrow>
              Some (if same_key k ''token'' then st\<lparr>fs_Token := s\<rparr>
                    else if same_key k ''owner_id'' then st\<lparr>fs_OwnerID := s\<rparr>
                    else st\<lparr>fs_Code := s\<rparr>)
          | _ \<Rightarrow> None)
       else Some st)"

fun store_members :: "(string \<times> json) list \<Rightarrow> file_state \<Rightarrow> file_state option" where
  "store_members [] st = Some st"
| "store_members (m # ms) st =
     (case store_member m st of None \<Rightarrow> None | Some st' \<Rightarrow> store_members ms st')"

definition json_unmarshal :: "bytes \<Rightarrow> file_state option" where
  "json_unmarshal data =
     (case json_decode data of
        None \<Rightarrow> None
      | Some v \<Rightarrow>
          (case v of
             JObj ms \<Rightarrow> store_members ms no_state
           | JNull \<Rightarrow> Some no_state
           | _ \<Rightarrow> None))"

definition go_json :: codec where
  "go_json = \<lparr>marshal = json_marshal, unmarshal = json_unmarshal\<rparr>"

definition ascii :: "string \<Rightarrow> bool" where
  "ascii s \<longleftrightarrow> (\<forall>c \<in> set s. (of_char c :: nat) < 128)"

subsection \<open>The round trip\<close>

declare parse_str.simps [simp del]
declare parse_val.simps [simp del] parse_elems.simps [simp del] parse_members.simps [simp del]

lemma prepend_Some [simp]: "prepend p (Some (s, r)) = Some (p @ s, r)"
  by (simp add: prepend_def)

lemma hex_value_digit: "n < 16 \<Longrightarrow> hex_value (hex_digits ! n) = Some n"
proof -
  assume "n < 16"
  then have "n \<in> set [0..<16]" by simp
  then show ?thesis
    by (auto simp: upt_rec hex_value_def hex_digits_def)
qed

lemma hex4_byte:
  "hex4 (CHR ''0'') (CHR ''0'') (hex_digits ! (of_char c div 16)) (hex_digits ! (of_char c mod 16))
     = Some (of_char (c :: char))"
proof -
  have "hex_value (CHR ''0'') = Some 0" by (simp add: hex_value_def)
  then show ?thesis
    using high_nibble [of c] by (simp add: hex4_def hex_value_digit)
qed

lemma parse_str_escape:
  assumes "(of_char c :: nat) < 128"
  shows "parse_str (json_escape_char c @ rest) = prepend [c] (parse_str rest)"
proof (cases "needs_u_escape c \<and> json_escape_char c =
    [backslash, CHR ''u'', CHR ''0'', CHR ''0''] @ hex_of_byte c")
  case True
  have "\<not> is_surrogate (of_char c)" "utf8_encode (of_char c) = [c]"
    using assms by (simp_all add: is_surrogate_def utf8_encode_def)
  with True show ?thesis
    by (simp add: hex_of_byte_def parse_str.simps(2) [of "CHR 0x5C"] backslash_def
        quote_char_def hex4_byte)
next
  case False
  then show ?thesis
    by (auto simp: json_escape_char_def parse_str.simps(2) backslash_def quote_char_def
        simple_escape_def needs_u_escape_def split: if_splits)
qed

lemma parse_str_json:
  "ascii s \<Longrightarrow> parse_str (concat (map json_escape_char s) @ quote_char # rest) = Some (s, rest)"
proof (induction s)
  case Nil
  then show ?case by (simp add: parse_str.simps)
next
  case (Cons c s)
  then have "(of_char c :: nat) < 128" "ascii s" by (simp_all add: ascii_def)
  with Cons.IH show ?case by (simp add: parse_str_escape)
qed

lemma skip_space_Cons: "\<not> is_json_space c \<Longrightarrow> skip_space (c # s) = c # s"
  by (simp add: skip_space_def)

lemma parse_val_json_string:
  "ascii s \<Longrightarrow> parse_val (Suc n) (json_string s @ rest) = Some (JStr s, rest)"
  by (simp add: parse_val.simps json_string_def skip_space_Cons is_json_space_def quote_char_def
      parse_str_json [unfolded quote_char_def])

definition json_pair :: "string \<times> string \<Rightarrow> string" where
  "json_pair kv = json_string (fst kv) @ '':'' @ json_string (snd kv)"

definition ascii_pairs :: "(string \<times> string) list \<Rightarrow> bool" where
  "ascii_pairs kvs \<longleftrightarrow> (\<forall>kv \<in> set kvs. ascii (fst kv) \<and> ascii (snd kv))"

lemma json_string_Cons: "json_string s = quote_char # tl (json_string s)"
  by (simp add: json_string_def)

lemma parse_members_step:
  assumes "ascii k" "ascii v" "\<not> is_json_space d"
  shows "parse_members (Suc (Suc n)) (json_pair (k, v) @ d # ds) =
    (if d = CHR '','' then map_option (apfst (Cons (k, JStr v))) (parse_members (Suc n) ds)
     else if d = CHR ''}'' then Some ([(k, JStr v)], ds) else None)"
proof -
  have k: "json_string k @ r = quote_char # concat (map json_escape_char k) @ quote_char # r" for r
    by (simp add: json_string_def)
  have v: "parse_val (Suc n) (json_string v @ d # ds) = Some (JStr v, d # ds)"
    using assms(2) by (rule parse_val_json_string)
  show ?thesis
    using assms(1,3) v
    by (simp add: parse_members.simps json_pair_def k skip_space_Cons is_json_space_def quote_char_def
        parse_str_json [unfolded quote_char_def])
qed

lemma parse_members_json:
  "kvs \<noteq> [] \<Longrightarrow> ascii_pairs kvs \<Longrightarrow> length kvs < n \<Longrightarrow>
   parse_members n (join_with '','' (map json_pair kvs) @ CHR ''}'' # rest) =
     Some (map (\<lambda>(k, v). (k, JStr v)) kvs, rest)"
proof (induction kvs arbitrary: n)
  case Nil
  then show ?case by simp
next
  case (Cons kv kvs)
  obtain k v where kv: "kv = (k, v)" by fastforce
  from Cons.prems have a: "ascii k" "ascii v" "ascii_pairs kvs"
    by (simp_all add: ascii_pairs_def kv)
  have n: "n = Suc (Suc (n - 2))" "length kvs < Suc (n - 2)"
    using Cons.prems(3) by auto
  note step = parse_members_step [OF a(1,2), where n = "n - 2", folded n(1)]
  show ?case
  proof (cases kvs)
    case Nil
    then show ?thesis
      by (simp add: kv step is_json_space_def)
  next
    case (Cons kv' kvs')
    then have j: "join_with '','' (map json_pair (kv # kvs)) @ r =
        json_pair (k, v) @ CHR '','' # (join_with '','' (map json_pair kvs) @ r)" for r
      by (simp add: kv)
    have "kvs \<noteq> []" by (simp add: Cons)
    from Cons.IH [OF this a(3) n(2)] show ?thesis
      by (simp add: j step is_json_space_def del: list.map) (simp add: kv)
  qed
qed

text \<open>The fields \<open>omitempty\<close> keeps, in the struct's order.\<close>

definition kept_fields :: "file_state \<Rightarrow> (string \<times> string) list" where
  "kept_fields st = filter (\<lambda>kv. snd kv \<noteq> '''')
     [(''token'', fs_Token st), (''owner_id'', fs_OwnerID st), (''code'', fs_Code st)]"

lemma json_marshal_kept:
  "json_marshal st = Some (CHR ''{'' # join_with '','' (map json_pair (kept_fields st)) @ ''}'')"
  by (simp add: json_marshal_def kept_fields_def json_field_def json_pair_def)

lemma ascii_kept:
  "ascii (fs_Token st) \<Longrightarrow> ascii (fs_OwnerID st) \<Longrightarrow> ascii (fs_Code st) \<Longrightarrow>
   ascii_pairs (kept_fields st)"
  by (auto simp: ascii_pairs_def kept_fields_def ascii_def of_char_def)

lemma kept_fields_fuel:
  "length (kept_fields st) < length (CHR ''{'' # join_with '','' (map json_pair (kept_fields st)) @ ''}'')"
  by (auto simp: kept_fields_def json_pair_def json_string_def)

lemma store_kept_fields:
  "store_members (map (\<lambda>(k, v). (k, JStr v)) (kept_fields st)) no_state = Some st"
  by (auto simp: kept_fields_def store_member_def same_key_def lower_ascii_def no_state_def
      of_char_def)

lemma json_roundtrip:
  assumes "ascii (fs_Token st)" "ascii (fs_OwnerID st)" "ascii (fs_Code st)"
  shows "\<exists>data. json_marshal st = Some data \<and> json_unmarshal data = Some st"
proof -
  let ?kvs = "kept_fields st"
  let ?data = "CHR ''{'' # join_with '','' (map json_pair ?kvs) @ ''}''"
  have "parse_val (Suc (length ?data)) ?data = Some (JObj (map (\<lambda>(k, v). (k, JStr v)) ?kvs), '''')"
  proof (cases "?kvs = []")
    case True
    then show ?thesis
      by (simp add: parse_val.simps skip_space_Cons is_json_space_def quote_char_def)
  next
    case False
    then obtain q qs where q: "join_with '','' (map json_pair ?kvs) @ ''}'' = quote_char # qs"
      by (cases ?kvs; cases "tl ?kvs") (simp_all add: json_pair_def json_string_def)
    from parse_members_json [OF False ascii_kept [OF assms] kept_fields_fuel, of "''''"]
    show ?thesis
      unfolding q
      by (simp add: parse_val.simps skip_space_Cons is_json_space_def quote_char_def)
  qed
  then have "json_unmarshal ?data = Some st"
    unfolding json_unmarshal_def json_decode_def
    by (simp only: store_kept_fields option.case prod.case json.case skip_space_def
        dropWhile.simps refl if_True)
  with json_marshal_kept show ?thesis by blast
qed

lemma ascii_hex: "ascii (hex_encode bs)"
proof -
  have "ascii (hex_of_byte b)" for b
  proof -
    have "hex_digits ! n \<in> set hex_digits" if "n < 16" for n
      using that by (intro nth_mem) (simp add: hex_digits_def)
    then have "(of_char (hex_digits ! n) :: nat) < 128" if "n < 16" for n
      using that by (fastforce simp: hex_digits_def of_char_def)
    then show ?thesis
      using high_nibble [of b] by (simp add: ascii_def hex_of_byte_def)
  qed
  then show ?thesis by (auto simp: ascii_def hex_encode_def)
qed

interpretation state_json: json_codec go_json ascii
  by unfold_locales
    (use json_roundtrip ascii_hex in \<open>auto simp: go_json_def ascii_def\<close>)

subsection \<open>Restarts over the state file\<close>

lemma NewGate_store: "NewGate ops opts (Some s) e = (Inr g, st) \<Longrightarrow> st \<noteq> None"
  by (auto simp: NewGate_def mint_code_def save_code_opt_def Let_def
      split: if_splits option.splits prod.splits sum.splits)

lemma gate_step_store: "gate_step ops x (g, Some s) = (r, (g', st')) \<Longrightarrow> st' \<noteq> None"
proof (cases x)
  case (OpClaim c w n n' e)
  assume "gate_step ops x (g, Some s) = (r, (g', st'))"
  with OpClaim have "Claim ops c w n n' e (g, Some s) = (r, (g', st'))" by simp
  then show ?thesis by (cases rule: Claim_cases) (simp_all add: save_token_opt_def)
next
  case (OpRelease b w e)
  assume "gate_step ops x (g, Some s) = (r, (g', st'))"
  with OpRelease have "Release ops b w e (g, Some s) = (r, (g', st'))" by simp
  then show ?thesis by (cases rule: Release_cases) (simp_all add: save_code_opt_def)
qed

lemma gate_run_store:
  "gate_run ops xs (g, Some s) = (rs, (g', st')) \<Longrightarrow> st' \<noteq> None"
proof (induction xs arbitrary: g s rs)
  case (Cons x xs)
  obtain r g1 st1 where step: "gate_step ops x (g, Some s) = (r, (g1, st1))" by (metis surj_pair)
  from gate_step_store [OF step] obtain s1 where "st1 = Some s1" by blast
  with Cons step show ?case by (auto split: prod.splits)
qed auto

subsection \<open>Properties\<close>

text \<open>
  C16. A restart resumes the enrollment. A gate that booted over the JSON state file and
  served any claims and releases, every write of the file succeeding, can be restarted
  with any new boot id and entropy: the new process accepts exactly the bearers the old one
  accepted, waits for the same one-time code, is claimed by the same owner, and does not
  touch the file.
\<close>

theorem restart_resumes_enrollment:
  assumes "NewGate (file_ops go_json) opts (Some s0) e = (Inr g0, st0)" and "fs_healthy s0"
    and "gate_run (file_ops go_json) xs (g0, st0) = (rs, (g, st))"
    and "\<forall>x \<in> set xs. ascii (op_owner x)" and "\<not> disabled g" and "\<not> preauth g"
  shows "\<exists>g'. NewGate (file_ops go_json) (opts\<lparr>OptBootID := b\<rparr>) st e' = (Inr g', st) \<and>
    (\<forall>t. Authorized g' t \<longleftrightarrow> Authorized g t) \<and> code g' = code g \<and> claimed g' = claimed g \<and>
    resumed g' = claimed g \<and> (claimed g \<longrightarrow> ownerID g' = ownerID g)"
proof -
  have boot: "persisted (file_ops go_json) (g0, st0)" "state_json.fstore.healthy_opt st0"
    using state_json.fstore.NewGate_persisted [OF assms(1)] assms(2)
    by (simp_all add: state_json.fstore.healthy_opt_def)
  from NewGate_store [OF assms(1)] obtain s1 where "st0 = Some s1" by blast
  with assms(3) have "gate_run (file_ops go_json) xs (g0, Some s1) = (rs, (g, st))" by simp
  then have "st \<noteq> None" by (rule gate_run_store)
  then obtain s where st: "st = Some s" by blast
  have per: "persisted (file_ops go_json) (g, Some s)"
    using state_json.fstore.gate_run_persisted [OF assms(3)] boot assms(4) st by simp
  have inv: "gate_inv opts g"
    using gate_run_inv [OF assms(3)] NewGate_inv [OF assms(1)] by simp
  from restart_same_credential [OF inv per assms(5,6), of b e'] obtain g' where
    g': "NewGate (file_ops go_json) (opts\<lparr>OptBootID := b\<rparr>) (Some s) e' = (Inr g', Some s)"
      "token g' = token g" "code g' = code g" "claimed g' = claimed g" "resumed g' = claimed g"
    by blast
  have "gate_inv (opts\<lparr>OptBootID := b\<rparr>) g'" using NewGate_inv [OF g'(1)] .
  then have "disabled g' = disabled g" using inv by (simp add: gate_inv_def)
  moreover have "claimed g \<longrightarrow> ownerID g' = ownerID g"
    using g' per inv assms(5,6)
    by (auto simp: NewGate_def persisted_def gate_inv_defs Let_def split: if_splits prod.splits)
  ultimately show ?thesis using g' st by (auto simp: Authorized_iff)
qed

definition calm_env :: write_env where
  "calm_env = \<lparr>mkdir_ok = True, temp_name = Some ''.worker-state-1'', chmod_ok = True,
               write_stop = None, close_ok = True, rename_ok = True\<rparr>"

definition fresh_store :: file_store where
  "fresh_store = NewFileStore ''state.json'' Map.empty True (\<lambda>_. calm_env)"

lemma fresh_store_healthy: "fs_healthy fresh_store"
  by (simp add: fs_healthy_def fresh_store_def NewFileStore_def env_good_def fresh_temp_def
      calm_env_def)

theorem restart_resumes_enrollment_witness:
  "\<exists>g st rs g'. gate_run (file_ops go_json) [OpClaim ''x'' ''o'' 0 0 None]
      (the (case fst (NewGate (file_ops go_json) plain_options (Some fresh_store)
         (Some (\<lambda>_. CHR 0x41))) of Inr g \<Rightarrow> Some g | _ \<Rightarrow> None),
       snd (NewGate (file_ops go_json) plain_options (Some fresh_store) (Some (\<lambda>_. CHR 0x41))))
      = (rs, (g, st)) \<and>
    NewGate (file_ops go_json) (plain_options\<lparr>OptBootID := ''second''\<rparr>) st None = (Inr g', st) \<and>
    code g' = code g \<and> code g' \<noteq> ''''"
proof -
  let ?ops = "file_ops go_json" and ?e = "Some (\<lambda>_ :: nat. CHR 0x41)"
  have load: "fs_LoadToken go_json fresh_store = ('''', '''')" "fs_LoadCode go_json fresh_store = ''''"
    by (simp_all add: fs_LoadToken_def fs_LoadCode_def fs_read_def fresh_store_def
        NewFileStore_def no_state_def)
  obtain g0 st0 where boot: "NewGate ?ops plain_options (Some fresh_store) ?e = (Inr g0, st0)"
    by (auto simp: NewGate_def plain_options_def file_ops_def load mint_code_def randomHex_def
        Let_def)
  obtain rs g st where run: "gate_run ?ops [OpClaim ''x'' ''o'' 0 0 None] (g0, st0) = (rs, (g, st))"
    by (metis surj_pair)
  have inv: "gate_inv plain_options g"
    using gate_run_inv [OF run] NewGate_inv [OF boot] by simp
  then have open_gate: "\<not> disabled g" "\<not> preauth g"
    by (auto simp: gate_inv_def plain_options_def split: if_splits)
  from gate_run_account [OF run] have "\<not> claimed g \<or> claimed g0 \<or> claim_won (OpClaim ''x'' ''o'' 0 0 None, fst (Claim ?ops ''x'' ''o'' 0 0 None (g0, st0)))"
    using run by (auto split: prod.splits if_splits)
  moreover have "\<not> claimed g0"
    using boot by (auto simp: NewGate_def plain_options_def file_ops_def load mint_code_def
        randomHex_def Let_def)
  moreover have "\<not> claim_won (OpClaim ''x'' ''o'' 0 0 None, fst (Claim ?ops ''x'' ''o'' 0 0 None (g0, st0)))"
    by (auto simp: Claim_def randomHex_def Let_def split: prod.splits)
  ultimately have "code g \<noteq> ''''"
    using inv open_gate by (simp add: gate_inv_defs)
  with restart_resumes_enrollment [OF boot fresh_store_healthy run _ open_gate, of "''second''" None]
    run boot
  show ?thesis by (fastforce simp: ascii_def)
qed

text \<open>
  C22. A crash never corrupts the state file. Whatever system call of a save fails, and
  wherever the process is stopped, the directory left behind reads as the old state or as
  the complete new one, and no other file than the temporary one is touched; a save that
  runs to its end, faults included, leaves no temporary file, and the file it leaves is
  mode 0600 or the old one.
\<close>

theorem crash_keeps_old_or_new_state:
  assumes "fresh_temp env (fpath s) (disk_of s)"
    and "d \<in> set (disk_of s # write_trace go_json env (fpath s) st (disk_of s))"
    and "ascii (fs_Token st)" and "ascii (fs_OwnerID st)" and "ascii (fs_Code st)"
    and "fpath s \<noteq> ''''" and "readable s"
  shows "fs_read go_json (s\<lparr>disk_of := d\<rparr>) \<in> {fs_read go_json s, st} \<and>
    (\<forall>f. f \<noteq> fpath s \<longrightarrow> temp_name env \<noteq> Some f \<longrightarrow> d f = disk_of s f) \<and>
    (\<exists>x. last (disk_of s # write_trace go_json env (fpath s) st (disk_of s)) =
       (disk_of s)(fpath s := x) \<and> (x = disk_of s (fpath s) \<or> map_option snd x = Some mode_0600))"
proof -
  obtain data where data: "marshal go_json st = Some data" "unmarshal go_json data = Some st"
    using state_json.roundtrip assms(3-5) by blast
  from write_trace_target [OF assms(1,2)] data(1)
  have "d (fpath s) = disk_of s (fpath s) \<or> d (fpath s) = Some (data, mode_0600)" by auto
  then have "fs_read go_json (s\<lparr>disk_of := d\<rparr>) \<in> {fs_read go_json s, st}"
    using data(2) assms(6,7) by (auto simp: fs_read_def)
  moreover have "\<exists>x. last (disk_of s # write_trace go_json env (fpath s) st (disk_of s)) =
       (disk_of s)(fpath s := x) \<and> (x = disk_of s (fpath s) \<or> map_option snd x = Some mode_0600)"
    using write_final [OF assms(1), of go_json st]
  proof
    assume "last (disk_of s # write_trace go_json env (fpath s) st (disk_of s)) = disk_of s"
    then show ?thesis by (intro exI [of _ "disk_of s (fpath s)"]) simp
  qed auto
  ultimately show ?thesis using write_trace_others [OF _ _ assms(2)] by blast
qed

theorem crash_keeps_old_or_new_state_witness:
  "fs_read go_json (fresh_store\<lparr>disk_of := [''.worker-state-1'' \<mapsto> (''{'', mode_0600)]\<rparr>)
     \<in> {fs_read go_json fresh_store, \<lparr>fs_Token = ''t'', fs_OwnerID = '''', fs_Code = ''''\<rparr>}"
proof -
  let ?st = "\<lparr>fs_Token = ''t'', fs_OwnerID = '''', fs_Code = ''''\<rparr>"
  let ?d = "[''.worker-state-1'' \<mapsto> (''{'', mode_0600)] :: disk"
  let ?data = "the (json_marshal ?st)"
  have data: "json_marshal ?st = Some ?data" "take 1 ?data = ''{''" "1 \<le> length ?data"
    by (simp_all add: json_marshal_def)
  have "Map.empty(''.worker-state-1'' \<mapsto> (take 1 ?data, mode_0600)) \<in>
      set (write_trace go_json calm_env ''state.json'' ?st Map.empty)"
    by (rule write_trace_partial) (use data in \<open>simp_all add: calm_env_def go_json_def\<close>)
  then have "?d \<in> set (write_trace go_json calm_env ''state.json'' ?st Map.empty)"
    by (simp only: data(2))
  with crash_keeps_old_or_new_state [of calm_env fresh_store ?d ?st] fresh_store_healthy
  show ?thesis
    by (simp add: fresh_store_def NewFileStore_def fs_healthy_def ascii_def of_char_def)
qed

text \<open>
  The state file round-trips: whatever ASCII token, owner and code the gate saves, the
  reader of the next process decodes the same three strings from the bytes written.
\<close>

theorem state_file_roundtrip:
  assumes "ascii (fs_Token st)" and "ascii (fs_OwnerID st)" and "ascii (fs_Code st)"
  shows "Option.bind (json_marshal st) json_unmarshal = Some st"
  using json_roundtrip [OF assms] by auto

theorem state_file_roundtrip_witness:
  "Option.bind (json_marshal \<lparr>fs_Token = ''a\"'', fs_OwnerID = [CHR 0x0A], fs_Code = ''''\<rparr>) json_unmarshal =
     Some \<lparr>fs_Token = ''a\"'', fs_OwnerID = [CHR 0x0A], fs_Code = ''''\<rparr>"
  by (rule state_file_roundtrip) (simp_all add: ascii_def of_char_def)

end
