(* ===== verification/Access.thy ===== *)
theory Access
  imports StateJson
begin

text \<open>
  Who may call what: the server-side interceptor (\<open>internal/auth/interceptor.go\<close>), the
  enrollment service (\<open>internal/enroll.go\<close>) and the client side of both
  (\<open>client/client.go\<close>). A handler is a function from the request and the state of the
  world to a result and a new state, so "the handler did not run" is "the state is
  unchanged". The Connect transport is a parameter: the client functions take the call
  they make as an argument.
\<close>

subsection \<open>Connect errors, headers and handlers\<close>

datatype rpc_code =
    CodeInvalidArgument
  | CodeNotFound
  | CodeInternal
  | CodeUnauthenticated
  | CodeAlreadyExists
  | CodeResourceExhausted
  | CodePermissionDenied
  | CodeFailedPrecondition
  | CodeCanceled
  | CodeUnimplemented

datatype rpc_error = RpcError (CodeOf: rpc_code) (ErrText: string)

type_synonym headers = "string \<rightharpoonup> string"

definition header_get :: "headers \<Rightarrow> string \<Rightarrow> string" where
  "header_get h k = (case h k of None \<Rightarrow> '''' | Some v \<Rightarrow> v)"

definition authorization :: string where
  "authorization = ''Authorization''"

record 'm request =
  req_header :: headers
  req_msg :: 'm

type_synonym ('m, 'w, 'r) handler = "'m request \<Rightarrow> 'w \<Rightarrow> (rpc_error + 'r) \<times> 'w"

subsection \<open>The server's interceptor\<close>

definition bearer_prefix :: string where
  "bearer_prefix = ''Bearer ''"

definition bearer :: "string \<Rightarrow> string" where
  "bearer header =
     (if has_prefix bearer_prefix header then trim_space (trim_prefix bearer_prefix header)
      else '''')"

definition unauthenticated_text :: string where
  "unauthenticated_text = ''worker: unauthenticated (missing or invalid bearer token)''"

definition auth_check :: "gate \<Rightarrow> headers \<Rightarrow> rpc_error option" where
  "auth_check g h =
     (if disabled g then None
      else let tok = bearer (header_get h authorization) in
        if Authorized g tok then None
        else Some (RpcError CodeUnauthenticated unauthenticated_text))"

definition WrapUnary :: "gate \<Rightarrow> ('m, 'w, 'r) handler \<Rightarrow> ('m, 'w, 'r) handler" where
  "WrapUnary g nxt req w =
     (case auth_check g (req_header req) of Some e \<Rightarrow> (Inl e, w) | None \<Rightarrow> nxt req w)"

text \<open>
  A streaming handler sees the connection (its request header, and the messages sent so
  far as part of the state); the check runs before the first message.
\<close>

definition WrapStreamingHandler ::
  "gate \<Rightarrow> (headers \<Rightarrow> 'w \<Rightarrow> rpc_error option \<times> 'w) \<Rightarrow> headers \<Rightarrow> 'w \<Rightarrow> rpc_error option \<times> 'w"
where
  "WrapStreamingHandler g nxt conn w =
     (case auth_check g conn of Some e \<Rightarrow> (Some e, w) | None \<Rightarrow> nxt conn w)"

definition WrapStreamingClient :: "'a \<Rightarrow> 'a" where
  "WrapStreamingClient nxt = nxt"

subsection \<open>The enrollment service\<close>

record enroll_status_response =
  es_Claimed :: bool
  es_NeedsCode :: bool
  es_Preauthorized :: bool
  es_BootId :: string

definition EnrollStatus :: "'s gate_state \<Rightarrow> enroll_status_response" where
  "EnrollStatus gs =
     (let st = Status (fst gs) in
      \<lparr>es_Claimed = st_Claimed st, es_NeedsCode = st_NeedsCode st,
       es_Preauthorized = st_Preauthorized st, es_BootId = st_BootID st\<rparr>)"

definition auth_error_text :: "auth_error \<Rightarrow> string" where
  "auth_error_text e =
     (case e of
        ErrAlreadyClaimed \<Rightarrow> ''worker already claimed''
      | ErrBadCode \<Rightarrow> ''invalid enrollment code''
      | ErrRateLimited \<Rightarrow> ''too many failed claims; slow down''
      | ErrReleaseForbidden \<Rightarrow> ''worker release forbidden''
      | ErrMint m \<Rightarrow> m)"

definition EnrollClaim ::
  "'s state_store \<Rightarrow> string \<Rightarrow> string \<Rightarrow> time \<Rightarrow> time \<Rightarrow> entropy \<Rightarrow> 's gate_state
     \<Rightarrow> (rpc_error + string) \<times> 's gate_state" where
  "EnrollClaim ops c owner n n' e gs =
     (case Claim ops c owner n n' e gs of
        (Inr tok, gs') \<Rightarrow> (Inr tok, gs')
      | (Inl ErrAlreadyClaimed, gs') \<Rightarrow>
          (Inl (RpcError CodeAlreadyExists (auth_error_text ErrAlreadyClaimed)), gs')
      | (Inl ErrRateLimited, gs') \<Rightarrow>
          (Inl (RpcError CodeResourceExhausted (auth_error_text ErrRateLimited)), gs')
      | (Inl err, gs') \<Rightarrow> (Inl (RpcError CodeUnauthenticated (auth_error_text err)), gs'))"

definition bearerOf :: "string \<Rightarrow> string" where
  "bearerOf header =
     (if length header > length bearer_prefix \<and> take (length bearer_prefix) header = bearer_prefix
      then drop (length bearer_prefix) header else '''')"

definition Unrelease ::
  "'s state_store \<Rightarrow> headers \<Rightarrow> string \<Rightarrow> entropy \<Rightarrow> 's gate_state
     \<Rightarrow> (rpc_error + string) \<times> 's gate_state" where
  "Unrelease ops h owner e gs =
     (let b = bearerOf (header_get h authorization) in
      case Release ops b owner e gs of
        (Inl err, gs') \<Rightarrow> (Inl (RpcError CodePermissionDenied (auth_error_text err)), gs')
      | (Inr c, gs') \<Rightarrow> (Inr c, gs'))"

subsection \<open>The client\<close>

datatype client_error =
    ClientAlreadyClaimed
  | ClientNoToken
  | ClientRpc rpc_error

text \<open>The call is a parameter; a nil response message is \<open>None\<close>.\<close>

definition client_Enroll ::
  "(string \<Rightarrow> string \<Rightarrow> rpc_error + string option) \<Rightarrow> string \<Rightarrow> string \<Rightarrow> client_error + string"
where
  "client_Enroll call c owner =
     (case call c owner of
        Inl err \<Rightarrow>
          if CodeOf err = CodeAlreadyExists then Inl ClientAlreadyClaimed else Inl (ClientRpc err)
      | Inr msg \<Rightarrow>
          (case msg of
             None \<Rightarrow> Inl ClientNoToken
           | Some tok \<Rightarrow> if tok = '''' then Inl ClientNoToken else Inr tok))"

definition client_Status ::
  "(unit \<Rightarrow> rpc_error + enroll_status_response) \<Rightarrow> client_error + enroll_status_response" where
  "client_Status call = (case call () of Inl err \<Rightarrow> Inl (ClientRpc err) | Inr r \<Rightarrow> Inr r)"

definition set_bearer :: "string \<Rightarrow> headers \<Rightarrow> headers" where
  "set_bearer tok h = (if tok \<noteq> '''' then h(authorization \<mapsto> bearer_prefix @ tok) else h)"

definition client_WrapUnary :: "string \<Rightarrow> ('m, 'w, 'r) handler \<Rightarrow> ('m, 'w, 'r) handler" where
  "client_WrapUnary tok nxt req w = nxt (req\<lparr>req_header := set_bearer tok (req_header req)\<rparr>) w"

text \<open>For a stream, the header is set on the connection the next function opened.\<close>

definition client_WrapStreamingClient :: "string \<Rightarrow> ('spec \<Rightarrow> headers) \<Rightarrow> 'spec \<Rightarrow> headers" where
  "client_WrapStreamingClient tok nxt spec = (let conn = nxt spec in set_bearer tok conn)"

definition client_WrapStreamingHandler :: "'a \<Rightarrow> 'a" where
  "client_WrapStreamingHandler nxt = nxt"

function (sequential) trimSlash :: "string \<Rightarrow> string" where
  "trimSlash s =
     (if length s > 0 \<and> s ! (length s - 1) = CHR ''/'' then trimSlash (take (length s - 1) s) else s)"
  by pat_completeness auto
termination
  by (relation "measure length") auto

declare trimSlash.simps [simp del]

definition client_Release ::
  "(headers \<Rightarrow> string \<Rightarrow> rpc_error + string) \<Rightarrow> string \<Rightarrow> string \<Rightarrow> client_error + string" where
  "client_Release call b owner =
     (let h = (if b \<noteq> '''' then set_bearer b Map.empty else Map.empty) in
      case call h owner of Inl err \<Rightarrow> Inl (ClientRpc err) | Inr c \<Rightarrow> Inr c)"

subsection \<open>Lemmas\<close>

definition no_spaces :: "string \<Rightarrow> bool" where
  "no_spaces s \<longleftrightarrow> (\<forall>c \<in> set s. \<not> is_space c)"

lemma no_spaces_hex [simp]: "no_spaces (hex_encode bs)"
  by (auto simp: no_spaces_def dest: hex_encode_no_space)

lemma bearer_of_token: "no_spaces t \<Longrightarrow> bearer (bearer_prefix @ t) = t"
  by (simp add: bearer_def no_spaces_def trim_space_id)

lemma bearerOf_token: "bearerOf (bearer_prefix @ t) = t"
  by (simp add: bearerOf_def)

lemma header_set_bearer:
  "t \<noteq> '''' \<Longrightarrow> header_get (set_bearer t h) authorization = bearer_prefix @ t"
  by (simp add: header_get_def set_bearer_def)

lemma auth_check_iff:
  "auth_check g h = None \<longleftrightarrow> Authorized g (bearer (header_get h authorization))"
  by (auto simp: auth_check_def Let_def Authorized_iff)

lemma auth_check_code: "auth_check g h = Some e \<Longrightarrow> CodeOf e = CodeUnauthenticated"
  by (auto simp: auth_check_def Let_def split: if_splits)

lemma auth_check_client:
  assumes "no_spaces t" "t \<noteq> ''''" "\<not> disabled g" "token g \<noteq> ''''"
  shows "auth_check g (set_bearer t h) = None \<longleftrightarrow> t = token g"
  using assms by (simp add: auth_check_iff header_set_bearer bearer_of_token Authorized_iff)

lemma trimSlash_decomp:
  "\<exists>n. s = trimSlash s @ replicate n (CHR ''/'') \<and>
       (trimSlash s = '''' \<or> last (trimSlash s) \<noteq> CHR ''/'')"
proof (induction s rule: trimSlash.induct)
  case (1 s)
  show ?case
  proof (cases "length s > 0 \<and> s ! (length s - 1) = CHR ''/''")
    case True
    then have split: "s = take (length s - 1) s @ [CHR ''/'']"
      by (metis append_butlast_last_id butlast_conv_take last_conv_nth length_greater_0_conv)
    from "1.IH" [OF True] obtain n where
      n: "take (length s - 1) s = trimSlash (take (length s - 1) s) @ replicate n (CHR ''/'')"
        "trimSlash (take (length s - 1) s) = '''' \<or>
         last (trimSlash (take (length s - 1) s)) \<noteq> CHR ''/''"
      by blast
    from True have eq: "trimSlash s = trimSlash (take (length s - 1) s)"
      by (subst trimSlash.simps) simp
    have "s = trimSlash s @ replicate (Suc n) (CHR ''/'')"
      unfolding eq using split n(1) by (metis append_assoc replicate_append_same replicate_Suc)
    with n(2) show ?thesis unfolding eq [symmetric] by blast
  next
    case False
    then have "trimSlash s = s" by (subst trimSlash.simps) auto
    with False show ?thesis by (intro exI [of _ 0]) (auto simp: last_conv_nth)
  qed
qed

subsection \<open>Properties\<close>

text \<open>
  The interceptor fails closed. In every reachable state of the gate, a unary or
  streaming handler runs exactly when access control is disabled or the gate is claimed
  and the request's bearer is its token; otherwise the call ends with Unauthenticated and
  nothing else happens.
\<close>

theorem interceptor_fails_closed:
  assumes "gate_reach ops opts gs"
  shows "let g = fst gs;
             ok = (\<lambda>h. OptDisabled opts \<or> (claimed g \<and> bearer (header_get h authorization) = token g));
             refused = RpcError CodeUnauthenticated unauthenticated_text
         in WrapUnary g nxt req w = (if ok (req_header req) then nxt req w else (Inl refused, w)) \<and>
            WrapStreamingHandler g snxt conn w' = (if ok conn then snxt conn w' else (Some refused, w'))"
proof -
  obtain g st where gs: "gs = (g, st)" by (metis surj_pair)
  from gate_reach_inv [OF assms] have "Authorized g b \<longleftrightarrow> OptDisabled opts \<or> (claimed g \<and> b = token g)" for b
    by (auto simp: gs gate_inv_defs Authorized_iff split: if_splits)
  moreover have "disabled g \<Longrightarrow> Authorized g b" for b by (simp add: Authorized_iff)
  ultimately show ?thesis
    by (auto simp: gs WrapUnary_def WrapStreamingHandler_def auth_check_def Let_def
        split: option.splits)
qed

theorem interceptor_fails_closed_witness:
  "WrapUnary sample_gate (\<lambda>req n. (Inr (), Suc n)) \<lparr>req_header = Map.empty, req_msg = ()\<rparr> (0 :: nat) =
     (Inl (RpcError CodeUnauthenticated unauthenticated_text), 0)"
  using interceptor_fails_closed [OF gate_reach.boot [OF sample_gate_new], of "\<lambda>req n. (Inr (), Suc n)"
      "\<lparr>req_header = Map.empty, req_msg = ()\<rparr>" 0 "\<lambda>_ w. (None, w)" Map.empty "()"]
  by (simp add: Let_def plain_options_def sample_gate_def zero_gate_def)

text \<open>
  C29. Enrolling gives access, to the winner only. When the client's \<open>Enroll\<close> returns a
  token, a client dialling with that token has its calls served; a client with any other
  white-space-free token is refused without the handler running; a second enrollment ends
  with the client's \<open>ErrAlreadyClaimed\<close> and changes nothing; and releasing with the token
  succeeds as long as the random source works.
\<close>

theorem enroll_then_call:
  assumes "gate_reach ops opts gs"
    and "EnrollClaim ops c owner n n' e gs = (r, gs')"
    and "client_Enroll (\<lambda>_ _. map_sum id Some r) c owner = Inr tok"
  shows "client_WrapUnary tok (WrapUnary (fst gs') nxt) req w =
      nxt (req\<lparr>req_header := set_bearer tok (req_header req)\<rparr>) w \<and>
    (no_spaces t \<and> t \<notin> {'''', tok} \<longrightarrow> client_WrapUnary t (WrapUnary (fst gs') nxt) req w =
      (Inl (RpcError CodeUnauthenticated unauthenticated_text), w)) \<and>
    (\<exists>r2. EnrollClaim ops c2 o2 m m' e2 gs' = (r2, gs') \<and>
      client_Enroll (\<lambda>_ _. map_sum id Some r2) c2 o2 = Inl ClientAlreadyClaimed) \<and>
    (\<exists>c3 gs3. Unrelease ops (set_bearer tok Map.empty) o3 (Some f) gs' = (Inr c3, gs3))"
proof -
  obtain g st g' st' where gs: "gs = (g, st)" "gs' = (g', st')" by (metis surj_pair)
  from gate_reach_inv [OF assms(1)] have inv: "gate_inv opts g" by (simp add: gs)
  from assms(3) have r: "r = Inr tok" "tok \<noteq> ''''"
    by (cases r; auto simp: client_Enroll_def split: sum.splits option.splits if_splits)+
  with assms(2) have cl: "Claim ops c owner n n' e (g, st) = (Inr tok, (g', st'))"
    by (auto simp: EnrollClaim_def gs split: sum.splits auth_error.splits prod.splits)
  from cl obtain bs where won: "\<not> disabled g'" "claimed g'" "token g' = tok" "\<not> claimed g"
    "tok = hex_encode bs" "preauth g' = preauth g"
  proof (cases rule: Claim_cases)
    case (won g1 tok')
    with randomHex_Inr [OF won(6)] allowAttemptLocked_frame [OF won(3)] that show ?thesis by auto
  qed auto
  from inv won(4) have "\<not> preauth g" by (auto simp: gate_inv_def split: if_splits)
  with won(6) have "\<not> preauth g'" by simp
  moreover have "no_spaces tok" by (simp add: won(5))
  then have "auth_check g' (set_bearer tok h) = None" for h
    using auth_check_client [of tok g' h] won(1,3) r(2) by simp
  moreover have "\<exists>e. auth_check g' (set_bearer t h) = Some e \<and>
      e = RpcError CodeUnauthenticated unauthenticated_text"
    if "no_spaces t" "t \<notin> {'''', tok}" for t h
    using that won(1-3) by (auto simp: auth_check_def Let_def header_set_bearer bearer_of_token
        Authorized_iff)
  ultimately show ?thesis
    using won(1-3) r(2)
    by (auto simp: gs client_WrapUnary_def WrapUnary_def auth_check_client EnrollClaim_def Claim_def
        client_Enroll_def Unrelease_def header_set_bearer bearerOf_token Release_def randomHex_def)
qed

theorem enroll_then_call_witness:
  "\<exists>tok gs'. EnrollClaim no_store (code sample_gate) ''me'' 0 0 (Some (\<lambda>_. CHR 0x42)) (sample_gate, None) =
      (Inr tok, gs') \<and>
    client_WrapUnary tok (WrapUnary (fst gs') (\<lambda>req n. (Inr (), Suc n)))
      \<lparr>req_header = Map.empty, req_msg = ()\<rparr> (0 :: nat) = (Inr (), Suc 0)"
proof -
  have sample: "\<not> disabled sample_gate" "\<not> claimed sample_gate" "failures sample_gate = 0"
    "maxFailures sample_gate = 10" "code sample_gate \<noteq> ''''"
    by (simp_all add: sample_gate_def zero_gate_def plain_options_def)
  then obtain tok gs' where cl: "EnrollClaim no_store (code sample_gate) ''me'' 0 0
      (Some (\<lambda>_. CHR 0x42)) (sample_gate, None) = (Inr tok, gs')" "tok \<noteq> ''''"
    by (auto simp: EnrollClaim_def Claim_def allowAttemptLocked_def failed_def randomHex_def)
  have "client_Enroll (\<lambda>_ _. map_sum id Some (Inr tok)) (code sample_gate) ''me'' = Inr tok"
    using cl(2) by (simp add: client_Enroll_def)
  from enroll_then_call [OF gate_reach.boot [OF sample_gate_new] cl(1) this,
      of "\<lambda>req n. (Inr (), Suc n)" "\<lparr>req_header = Map.empty, req_msg = ()\<rparr>" 0] cl(1)
  show ?thesis by auto
qed

end
