(* ===== verification/Paths.thy ===== *)
theory Paths
  imports Prelude "HOL-Library.Sublist"
begin

text \<open>
  The lexical part of package \<open>path/filepath\<close> on unix, as \<open>internal/filesvc\<close> and
  \<open>internal/shellh\<close> use it: \<open>IsAbs\<close>, \<open>Clean\<close>, \<open>Join\<close> and \<open>Dir\<close> on strings, and
  the list of components of an absolute path. \<open>FromSlash\<close> and \<open>ToSlash\<close> are the identity
  there.
\<close>

definition slash :: char where "slash = CHR ''/''"

fun split_slash :: "string \<Rightarrow> string list" where
  "split_slash [] = [[]]"
| "split_slash (c # s) =
     (if c = slash then [] # split_slash s
      else (case split_slash s of [] \<Rightarrow> [[c]] | x # xs \<Rightarrow> (c # x) # xs))"

definition is_abs :: "string \<Rightarrow> bool" where
  "is_abs p \<longleftrightarrow> has_prefix [slash] p"

text \<open>The components kept so far are a stack, the last one on top.\<close>

fun clean_comps :: "bool \<Rightarrow> string list \<Rightarrow> string list \<Rightarrow> string list" where
  "clean_comps rooted st [] = rev st"
| "clean_comps rooted st (c # cs) =
     (if c = '''' \<or> c = ''.'' then clean_comps rooted st cs
      else if c = ''..'' then
        (case st of
           [] \<Rightarrow> if rooted then clean_comps rooted [] cs else clean_comps rooted [''..''] cs
         | x # xs \<Rightarrow> if x = ''..'' then clean_comps rooted (''..'' # st) cs
                     else clean_comps rooted xs cs)
      else clean_comps rooted (c # st) cs)"

definition Clean :: "string \<Rightarrow> string" where
  "Clean p =
     (if p = '''' then ''.''
      else let s = join_with [slash] (clean_comps (is_abs p) [] (split_slash p))
        in if is_abs p then [slash] @ s else if s = '''' then ''.'' else s)"

definition Join :: "string list \<Rightarrow> string" where
  "Join es = (let es' = filter (\<lambda>e. e \<noteq> '''') es in
     if es' = [] then '''' else Clean (join_with [slash] es'))"

definition Dir :: "string \<Rightarrow> string" where
  "Dir p = (let cs = split_slash p in
     if length cs \<le> 1 then ''.'' else Clean (join_with [slash] (butlast cs) @ [slash]))"

subsection \<open>Splitting and joining\<close>

lemma split_slash_nonempty [simp]: "split_slash s \<noteq> []"
  by (induction s) (auto split: list.splits)

lemma split_slash_append: "split_slash (a @ slash # b) = split_slash a @ split_slash b"
  by (induction a) (auto split: list.splits)

lemma split_slash_single: "slash \<notin> set c \<Longrightarrow> split_slash c = [c]"
  by (induction c) auto

lemma split_slash_no_slash: "c \<in> set (split_slash s) \<Longrightarrow> slash \<notin> set c"
  by (induction s arbitrary: c) (auto split: if_splits list.splits)

lemma join_split: "join_with [slash] (split_slash s) = s"
proof (induction s)
  case (Cons c s)
  obtain x xs where x: "split_slash s = x # xs" by (cases "split_slash s") simp_all
  with Cons show ?case by (cases xs) auto
qed simp

lemma split_join:
  "cs \<noteq> [] \<Longrightarrow> list_all (\<lambda>c. slash \<notin> set c) cs \<Longrightarrow> split_slash (join_with [slash] cs) = cs"
proof (induction cs)
  case (Cons x xs)
  then show ?case
    by (cases xs) (simp_all add: split_slash_append split_slash_single)
qed simp

subsection \<open>Absolute paths and their components\<close>

definition abs_path :: "string list \<Rightarrow> string" where
  "abs_path cs = slash # join_with [slash] cs"

definition plain_comp :: "string \<Rightarrow> bool" where
  "plain_comp c \<longleftrightarrow> c \<noteq> '''' \<and> c \<noteq> ''.'' \<and> c \<noteq> ''..'' \<and> slash \<notin> set c"

definition plain :: "string list \<Rightarrow> bool" where
  "plain cs \<longleftrightarrow> list_all plain_comp cs"

lemma plain_simps [simp]:
  "plain []" "plain (c # cs) \<longleftrightarrow> plain_comp c \<and> plain cs" "plain (xs @ ys) \<longleftrightarrow> plain xs \<and> plain ys"
  by (simp_all add: plain_def)

lemma plain_rev [simp]: "plain (rev cs) = plain cs"
  by (simp add: plain_def)

lemma plain_no_slash: "plain cs \<Longrightarrow> list_all (\<lambda>c. slash \<notin> set c) cs"
  by (auto simp: plain_def plain_comp_def list_all_iff)

lemma is_abs_Cons [simp]: "is_abs (slash # s)"
  by (simp add: is_abs_def has_prefix_def)

lemma is_abs_abs_path [simp]: "is_abs (abs_path cs)"
  by (simp add: abs_path_def)

lemma split_abs_path:
  "plain cs \<Longrightarrow> split_slash (abs_path cs) = [] # (if cs = [] then [[]] else cs)"
  by (simp add: abs_path_def split_join plain_no_slash)

definition norm_comps :: "string \<Rightarrow> string list" where
  "norm_comps p = clean_comps True [] (split_slash p)"

lemma clean_comps_plain:
  "plain st \<Longrightarrow> list_all (\<lambda>c. slash \<notin> set c) cs \<Longrightarrow> plain (clean_comps True st cs)"
proof (induction "True" st cs rule: clean_comps.induct)
  case (2 st c cs)
  then show ?case by (cases st) (auto simp: plain_comp_def)
qed simp

lemma norm_comps_plain: "plain (norm_comps p)"
  unfolding norm_comps_def
  by (rule clean_comps_plain) (auto simp: list_all_iff dest: split_slash_no_slash)

lemma clean_comps_id: "plain cs \<Longrightarrow> clean_comps r st cs = rev st @ cs"
  by (induction cs arbitrary: st) (simp_all add: plain_comp_def)

lemma norm_comps_abs_path: "plain cs \<Longrightarrow> norm_comps (abs_path cs) = cs"
  by (cases cs) (auto simp: norm_comps_def split_abs_path clean_comps_id plain_comp_def)

lemma abs_path_inj: "plain as \<Longrightarrow> plain bs \<Longrightarrow> abs_path as = abs_path bs \<Longrightarrow> as = bs"
  by (metis norm_comps_abs_path)

lemma Clean_abs: "is_abs p \<Longrightarrow> Clean p = abs_path (norm_comps p)"
  by (cases p) (simp_all add: Clean_def is_abs_def has_prefix_def abs_path_def norm_comps_def Let_def)

lemma Clean_abs_path: "plain cs \<Longrightarrow> Clean (abs_path cs) = abs_path cs"
  by (simp add: Clean_abs norm_comps_abs_path)

lemma clean_comps_append:
  "clean_comps r st (xs @ ys) = clean_comps r (rev (clean_comps r st xs)) ys"
  by (induction r st xs rule: clean_comps.induct) (auto split: list.splits)

lemma Join_abs:
  assumes "plain rc" "p \<noteq> ''''"
  shows "Join [abs_path rc, p] = abs_path (clean_comps True (rev rc) (split_slash p))"
proof -
  have "abs_path rc \<noteq> ''''" by (simp add: abs_path_def)
  with assms(2) have "Join [abs_path rc, p] = Clean (abs_path rc @ slash # p)"
    by (simp add: Join_def)
  also have "is_abs (abs_path rc @ slash # p)" by (simp add: abs_path_def)
  then have "Clean (abs_path rc @ slash # p) = abs_path (norm_comps (abs_path rc @ slash # p))"
    by (rule Clean_abs)
  also have "norm_comps (abs_path rc @ slash # p) = clean_comps True (rev rc) (split_slash p)"
    using norm_comps_abs_path [OF assms(1)]
    by (simp add: norm_comps_def split_slash_append clean_comps_append)
  finally show ?thesis .
qed

lemma Join_abs_plain:
  assumes "plain rc" "plain cs" "cs \<noteq> []"
  shows "Join [abs_path rc, join_with [slash] cs] = abs_path (rc @ cs)"
proof -
  have "split_slash (join_with [slash] cs) = cs"
    using assms(2,3) by (simp add: split_join plain_no_slash)
  moreover from this have "join_with [slash] cs \<noteq> ''''"
    using assms(2) by (auto simp: plain_comp_def)
  ultimately show ?thesis
    using assms by (simp add: Join_abs clean_comps_id)
qed

lemma Dir_abs_path: "plain cs \<Longrightarrow> Dir (abs_path cs) = abs_path (butlast cs)"
proof -
  assume p: "plain cs"
  then have "plain (butlast cs)" by (metis append_butlast_last_id butlast.simps(1) plain_simps(3))
  have "join_with [slash] ([] # butlast cs) @ [slash] = abs_path (butlast cs) @ (if length cs > 1 then [slash] else [])"
    by (cases cs; cases "tl cs") (auto simp: abs_path_def)
  moreover have "Clean (abs_path (butlast cs) @ [slash]) = abs_path (butlast cs)"
  proof -
    have "is_abs (abs_path (butlast cs) @ [slash])" by (simp add: abs_path_def)
    moreover have "norm_comps (abs_path (butlast cs) @ [slash]) = butlast cs"
      using norm_comps_abs_path [OF \<open>plain (butlast cs)\<close>]
      by (simp add: norm_comps_def split_slash_append [of _ "[]", simplified] clean_comps_append)
    ultimately show ?thesis by (simp add: Clean_abs)
  qed
  ultimately show ?thesis
    using p Clean_abs_path [OF \<open>plain (butlast cs)\<close>]
    by (cases cs) (auto simp: Dir_def split_abs_path Let_def)
qed

end
