(* ===== verification/Files.thy ===== *)
theory Files
  imports Paths "HOL-Library.AList" "HOL-Library.Char_ord" "HOL-Library.List_Lexorder"
begin

text \<open>
  The file service on unix, \<open>internal/filesvc/service.go\<close> and \<open>sync.go\<close> with
  \<open>fold_unix.go\<close>. The file system is a list of nodes keyed by the components of their
  absolute path, symbolic links included; \<open>walk\<close> is path resolution, by the kernel and by
  \<open>filepath.EvalSymlinks\<close>. A path the service hands to the system is a string, as in the
  code. What a relative path means depends on the working directory of the process, which
  is a field of the file system; the outcome of \<open>EvalSymlinks\<close> on a relative path is a
  parameter. The tar and gzip readers are libraries: the entries they yield are arguments.
\<close>

subsection \<open>The file system\<close>

datatype node =
    NDir
  | NFile bytes nat
  | NLink string

type_synonym loc = "string list"

record file_sys =
  nodes :: "(loc \<times> node) list"
  cwd :: loc
  eval_relative :: "string \<Rightarrow> string option"
  other_size :: "node \<Rightarrow> int"

definition node_at :: "file_sys \<Rightarrow> loc \<Rightarrow> node option" where
  "node_at fs l = (if l = [] then Some NDir else map_of (nodes fs) l)"

definition put_node :: "loc \<Rightarrow> node \<Rightarrow> file_sys \<Rightarrow> file_sys" where
  "put_node l n fs = fs\<lparr>nodes := AList.update l n (nodes fs)\<rparr>"

text \<open>
  Where a path leads, following at most \<open>n\<close> links: an existing object, or a name that does
  not exist in an existing directory.
\<close>

datatype found = Found loc | Missing loc | Fails

function (sequential) walk :: "file_sys \<Rightarrow> nat \<Rightarrow> loc \<Rightarrow> string list \<Rightarrow> found" where
  "walk fs n d [] = Found d"
| "walk fs n d (c # cs) =
     (if c = '''' \<or> c = ''.'' then walk fs n d cs
      else if c = ''..'' then walk fs n (butlast d) cs
      else case node_at fs (d @ [c]) of
        None \<Rightarrow> if cs = [] then Missing (d @ [c]) else Fails
      | Some NDir \<Rightarrow> walk fs n (d @ [c]) cs
      | Some (NFile _ _) \<Rightarrow> if cs = [] then Found (d @ [c]) else Fails
      | Some (NLink t) \<Rightarrow>
          (case n of
             0 \<Rightarrow> Fails
           | Suc m \<Rightarrow> walk fs m (if is_abs t then [] else d) (split_slash t @ cs)))"
  by pat_completeness auto
termination
  by (relation "measures [\<lambda>(fs, n, d, cs). n, \<lambda>(fs, n, d, cs). length cs]") auto

declare walk.simps(2) [simp del]

definition kernel_links :: nat where "kernel_links = 40"
definition eval_links :: nat where "eval_links = 255"

definition kernel_walk :: "file_sys \<Rightarrow> string \<Rightarrow> found" where
  "kernel_walk fs p = walk fs kernel_links (if is_abs p then [] else cwd fs) (split_slash p)"

definition EvalSymlinks :: "file_sys \<Rightarrow> string \<Rightarrow> string option" where
  "EvalSymlinks fs p =
     (if is_abs p then
        (case walk fs eval_links [] (split_slash p) of Found d \<Rightarrow> Some (abs_path d) | _ \<Rightarrow> None)
      else eval_relative fs p)"

datatype file_error = ErrEscapes | ErrNotExist | ErrNotDir | ErrIsDir | ErrIO

text \<open>System calls. A write may stop early (\<open>Some k\<close>: after \<open>k\<close> bytes) with an error.\<close>

definition ReadFile :: "file_sys \<Rightarrow> string \<Rightarrow> file_error + bytes" where
  "ReadFile fs p =
     (case kernel_walk fs p of
        Found l \<Rightarrow> (case node_at fs l of Some (NFile b _) \<Rightarrow> Inr b | Some NDir \<Rightarrow> Inl ErrIsDir | _ \<Rightarrow> Inl ErrNotExist)
      | _ \<Rightarrow> Inl ErrNotExist)"

definition open_write :: "nat \<Rightarrow> bytes \<Rightarrow> nat option \<Rightarrow> string \<Rightarrow> file_sys \<Rightarrow> file_error option \<times> file_sys" where
  "open_write mode data stop p fs =
     (let kept = (case stop of None \<Rightarrow> data | Some k \<Rightarrow> take k data);
          err = (if stop = None then None else Some ErrIO)
      in case kernel_walk fs p of
        Found l \<Rightarrow>
          (case node_at fs l of
             Some (NFile _ m) \<Rightarrow> (err, put_node l (NFile kept m) fs)
           | _ \<Rightarrow> (Some ErrIsDir, fs))
      | Missing l \<Rightarrow> (err, put_node l (NFile kept mode) fs)
      | Fails \<Rightarrow> (Some ErrNotExist, fs))"

definition WriteFile :: "bytes \<Rightarrow> nat \<Rightarrow> nat option \<Rightarrow> string \<Rightarrow> file_sys \<Rightarrow> file_error option \<times> file_sys" where
  "WriteFile data mode stop p fs = open_write mode data stop p fs"

definition Stat :: "file_sys \<Rightarrow> string \<Rightarrow> (loc \<times> node) option" where
  "Stat fs p =
     (case kernel_walk fs p of
        Found l \<Rightarrow> map_option (\<lambda>n. (l, n)) (node_at fs l)
      | _ \<Rightarrow> None)"

text \<open>\<open>mkdir(2)\<close> does not follow a link in the last component.\<close>

definition mkdir :: "file_sys \<Rightarrow> loc \<Rightarrow> file_sys option" where
  "mkdir fs cs =
     (case walk fs kernel_links [] (butlast cs) of
        Found d \<Rightarrow>
          if node_at fs d = Some NDir \<and> node_at fs (d @ [last cs]) = None
          then Some (put_node (d @ [last cs]) NDir fs) else None
      | _ \<Rightarrow> None)"

text \<open>
  \<open>os.MkdirAll\<close> of an absolute path, by its components: nothing if it is a directory,
  else its parent first. After a failing \<open>mkdir\<close> an existing directory is accepted.
\<close>

function mkdir_all :: "file_sys \<Rightarrow> loc \<Rightarrow> file_error option \<times> file_sys" where
  "mkdir_all fs cs =
     (case Stat fs (abs_path cs) of
        Some (_, NDir) \<Rightarrow> (None, fs)
      | Some _ \<Rightarrow> (Some ErrNotDir, fs)
      | None \<Rightarrow>
          if cs = [] then (Some ErrNotExist, fs)
          else (case mkdir_all fs (butlast cs) of
            (Some e, fs1) \<Rightarrow> (Some e, fs1)
          | (None, fs1) \<Rightarrow>
              (case mkdir fs1 cs of
                 Some fs2 \<Rightarrow> (None, fs2)
               | None \<Rightarrow>
                   (case walk fs1 kernel_links [] (butlast cs) of
                      Found d \<Rightarrow> if node_at fs1 (d @ [last cs]) = Some NDir then (None, fs1)
                                 else (Some ErrNotExist, fs1)
                    | _ \<Rightarrow> (Some ErrNotExist, fs1)))))"
  by pat_completeness auto
termination
  by (relation "measure (\<lambda>(fs, cs). length cs)") auto

declare mkdir_all.simps [simp del]

definition abs_comps :: "file_sys \<Rightarrow> string \<Rightarrow> loc" where
  "abs_comps fs p = (if is_abs p then norm_comps p else norm_comps (abs_path (cwd fs) @ slash # p))"

definition MkdirAll :: "string \<Rightarrow> file_sys \<Rightarrow> file_error option \<times> file_sys" where
  "MkdirAll p fs = mkdir_all fs (abs_comps fs p)"

text \<open>The names in a directory, in the order of \<open>os.ReadDir\<close>.\<close>

definition children :: "file_sys \<Rightarrow> loc \<Rightarrow> string list" where
  "children fs d = sort (remdups (map last (filter (\<lambda>l. l \<noteq> [] \<and> butlast l = d) (map fst (nodes fs)))))"

definition remove_tree :: "loc \<Rightarrow> file_sys \<Rightarrow> file_sys" where
  "remove_tree l fs = fs\<lparr>nodes := filter (\<lambda>(k, _). \<not> prefix l k) (nodes fs)\<rparr>"

subsection \<open>The service\<close>

definition trimDevicePrefix :: "string \<Rightarrow> string" where
  "trimDevicePrefix p = p"

definition pathEqual :: "string \<Rightarrow> string \<Rightarrow> bool" where
  "pathEqual a b \<longleftrightarrow> a = b"

definition hasRootPrefix :: "string \<Rightarrow> string \<Rightarrow> bool" where
  "hasRootPrefix p root \<longleftrightarrow>
     length p > length root \<and> take (length root) p = root \<and> p ! length root = slash"

text \<open>
  The same three on Windows (\<open>fold_windows.go\<close>); \<open>strings.EqualFold\<close> and \<open>strings.ToLower\<close>
  are parameters.
\<close>

definition backslash :: char where "backslash = CHR 0x5C"

definition win_trimDevicePrefix :: "string \<Rightarrow> string" where
  "win_trimDevicePrefix p =
     (if has_prefix [backslash, backslash, CHR 0x3F, backslash] p \<or>
         has_prefix [backslash, backslash, CHR 0x2E, backslash] p then drop 4 p else p)"

definition win_pathEqual :: "(string \<Rightarrow> string \<Rightarrow> bool) \<Rightarrow> string \<Rightarrow> string \<Rightarrow> bool" where
  "win_pathEqual equalFold a b \<longleftrightarrow> equalFold a b"

definition win_hasRootPrefix :: "(string \<Rightarrow> string) \<Rightarrow> string \<Rightarrow> string \<Rightarrow> bool" where
  "win_hasRootPrefix toLower p root \<longleftrightarrow> has_prefix (toLower (root @ [backslash])) (toLower p)"

text \<open>
  With a per-character lower case that maps backslashes to backslashes, the Windows check
  is the unix check of the lower-cased paths, the separator apart.
\<close>

lemma win_hasRootPrefix_map:
  assumes "lo backslash = backslash"
  shows "win_hasRootPrefix (map lo) p root \<longleftrightarrow>
    length p > length root \<and> take (length root) (map lo p) = map lo root \<and> map lo p ! length root = backslash"
proof -
  have "length root < length p \<Longrightarrow>
      take (Suc (length root)) (map lo p) = take (length root) (map lo p) @ [map lo p ! length root]"
    by (simp add: take_Suc_conv_app_nth)
  then show ?thesis
    by (auto simp: win_hasRootPrefix_def has_prefix_def assms)
qed

definition resolve :: "file_sys \<Rightarrow> string \<Rightarrow> string \<Rightarrow> file_error + string" where
  "resolve fs sroot path =
     (let p = path;
          p = (if \<not> is_abs p then Join [sroot, p] else Clean p);
          p = (case EvalSymlinks fs p of Some a \<Rightarrow> a | None \<Rightarrow> p);
          root = (case EvalSymlinks fs sroot of Some a \<Rightarrow> a | None \<Rightarrow> sroot);
          root = trimDevicePrefix root;
          p = trimDevicePrefix p
      in if \<not> pathEqual p root \<and> \<not> hasRootPrefix p root then Inl ErrEscapes else Inr p)"

definition fRead :: "file_sys \<Rightarrow> string \<Rightarrow> string \<Rightarrow> file_error + bytes" where
  "fRead fs sroot path =
     (case resolve fs sroot path of Inl e \<Rightarrow> Inl e | Inr p \<Rightarrow> ReadFile fs p)"

definition fWrite :: "string \<Rightarrow> string \<Rightarrow> bytes \<Rightarrow> nat option \<Rightarrow> file_sys \<Rightarrow> file_error option \<times> file_sys" where
  "fWrite sroot path data stop fs =
     (case resolve fs sroot path of
        Inl e \<Rightarrow> (Some e, fs)
      | Inr p \<Rightarrow>
          (case MkdirAll (Dir p) fs of
             (Some e, fs1) \<Rightarrow> (Some e, fs1)
           | (None, fs1) \<Rightarrow> WriteFile data 420 stop p fs1))"

record entry =
  e_Path :: string
  e_Size :: int
  e_IsDir :: bool

definition rel :: "string \<Rightarrow> string \<Rightarrow> string" where
  "rel sroot p0 =
     (let bs = CHR 0x5C; d1 = [bs, bs, CHR ''?'', bs]; d2 = [bs, bs, CHR ''.'', bs];
          r = trim_prefix d2 (trim_prefix d1 sroot);
          p = trim_prefix d2 (trim_prefix d1 p0);
          rl = trim_prefix [slash] (trim_prefix r p)
      in if rl = '''' then ''.'' else rl)"

definition node_size :: "file_sys \<Rightarrow> node \<Rightarrow> int" where
  "node_size fs n = (case n of NFile b _ \<Rightarrow> int (length b) | _ \<Rightarrow> other_size fs n)"

definition fList :: "file_sys \<Rightarrow> string \<Rightarrow> string \<Rightarrow> file_error + bool \<times> entry list" where
  "fList fs sroot path =
     (case resolve fs sroot path of
        Inl e \<Rightarrow> Inl e
      | Inr p \<Rightarrow>
          (case Stat fs p of
             None \<Rightarrow> Inl ErrNotExist
           | Some (l, n) \<Rightarrow>
               if n \<noteq> NDir then
                 Inr (False, [\<lparr>e_Path = rel sroot p, e_Size = node_size fs n, e_IsDir = False\<rparr>])
               else
                 Inr (True, sort_key e_Path (map (\<lambda>(c, n). \<lparr>e_Path = rel sroot (Join [p, c]),
                     e_Size = node_size fs n, e_IsDir = (n = NDir)\<rparr>)
                   (List.map_filter (\<lambda>c. map_option (\<lambda>n. (c, n)) (node_at fs (l @ [c])))
                     (children fs l))))))"

subsection \<open>Unpacking a tree\<close>

datatype tar_type = TypeDir | TypeReg | TypeSymlink | TypeLink | TypeOther

text \<open>
  What the reader yields before the end of the archive: a header with the content that
  follows it and the number of bytes after which copying it fails, or a read error.
\<close>

record tar_entry =
  t_Name :: string
  t_Type :: tar_type
  t_Mode :: nat
  t_Content :: bytes
  t_stop :: "nat option"
  t_open_ok :: bool

datatype tar_item = Header tar_entry | ReadError

definition is_gzip :: "bytes \<Rightarrow> bool" where
  "is_gzip data \<longleftrightarrow> length data \<ge> 2 \<and> data ! 0 = CHR 0x1F \<and> data ! 1 = CHR 0x8B"

text \<open>The two readers are parameters; \<open>None\<close> is an invalid gzip header.\<close>

definition tarReader ::
  "(bytes \<Rightarrow> tar_item list option) \<Rightarrow> (bytes \<Rightarrow> tar_item list) \<Rightarrow> bytes \<Rightarrow> tar_item list option" where
  "tarReader gz tar data = (if is_gzip data then gz data else Some (tar data))"

definition trimDot :: "string \<Rightarrow> string" where
  "trimDot p = (let p = trim_prefix ''./'' p in if p = ''.'' then '''' else p)"

definition clearDirContents :: "loc \<Rightarrow> file_sys \<Rightarrow> file_sys" where
  "clearDirContents d fs = fold (\<lambda>c. remove_tree (d @ [c])) (children fs d) fs"

definition file_mode :: "nat \<Rightarrow> nat" where
  "file_mode m = (let b = m mod 512 in if (b div 256) mod 2 = 1 then b else b + 256)"

fun sync_entry :: "string \<Rightarrow> string \<Rightarrow> tar_entry \<Rightarrow> file_sys \<Rightarrow> (file_error option \<times> nat) \<times> file_sys" where
  "sync_entry sroot dest h fs =
     (let name = trim_prefix [slash] (t_Name h) in
      if name = '''' \<or> name = ''.'' then ((None, 0), fs)
      else case resolve fs sroot (Join [trimDot dest, name]) of
        Inl e \<Rightarrow> ((Some e, 0), fs)
      | Inr target \<Rightarrow>
          (case t_Type h of
             TypeDir \<Rightarrow> (let (e, fs1) = MkdirAll target fs in ((e, 0), fs1))
           | TypeReg \<Rightarrow>
               (case MkdirAll (Dir target) fs of
                  (Some e, fs1) \<Rightarrow> ((Some e, 0), fs1)
                | (None, fs1) \<Rightarrow>
                    if \<not> t_open_ok h then ((Some ErrIO, 0), fs1)
                    else (let (e, fs2) = open_write (file_mode (t_Mode h)) (t_Content h) (t_stop h) target fs1
                          in ((e, if e = None then 1 else 0), fs2)))
           | _ \<Rightarrow> ((None, 0), fs)))"

fun sync_loop ::
  "string \<Rightarrow> string \<Rightarrow> tar_item list \<Rightarrow> nat \<Rightarrow> file_sys \<Rightarrow> (nat \<times> file_error option) \<times> file_sys" where
  "sync_loop sroot dest [] files fs = ((files, None), fs)"
| "sync_loop sroot dest (ReadError # _) files fs = ((files, Some ErrIO), fs)"
| "sync_loop sroot dest (Header h # items) files fs =
     (let ((e, n), fs1) = sync_entry sroot dest h fs in
      if e \<noteq> None then ((files, e), fs1) else sync_loop sroot dest items (files + n) fs1)"

definition SyncFolder ::
  "(bytes \<Rightarrow> tar_item list option) \<Rightarrow> (bytes \<Rightarrow> tar_item list) \<Rightarrow> string \<Rightarrow> bytes \<Rightarrow> string \<Rightarrow> bool
     \<Rightarrow> file_sys \<Rightarrow> (nat \<times> file_error option) \<times> file_sys" where
  "SyncFolder gz tar sroot tarball dest0 clean fs =
     (let dest = (if dest0 = '''' then ''.'' else dest0) in
      case resolve fs sroot dest of
        Inl e \<Rightarrow> ((0, Some e), fs)
      | Inr destPath \<Rightarrow>
          (case MkdirAll destPath fs of
             (Some e, fs1) \<Rightarrow> ((0, Some e), fs1)
           | (None, fs1) \<Rightarrow>
               (case (if clean then
                        (case kernel_walk fs1 destPath of
                           Found d \<Rightarrow> Some (clearDirContents d fs1) | _ \<Rightarrow> None)
                      else Some fs1) of
                  None \<Rightarrow> ((0, Some ErrIO), fs1)
                | Some fs2 \<Rightarrow>
                    (case tarReader gz tar tarball of
                       None \<Rightarrow> ((0, Some ErrIO), fs2)
                     | Some items \<Rightarrow> sync_loop sroot dest items 0 fs2))))"

end
