(* ===== verification/FileSafety.thy ===== *)
theory FileSafety
  imports Files
begin

text \<open>
  Containment of the file service of \<open>internal/filesvc\<close>: where \<open>resolve\<close> lets a path
  lead, which file a read returns, and which nodes a write or an unpacked tree may change.
\<close>

subsection \<open>Path resolution\<close>

text \<open>Every proper prefix of a location is a directory.\<close>

definition dirs_above :: "file_sys \<Rightarrow> loc \<Rightarrow> bool" where
  "dirs_above fs d \<longleftrightarrow> (\<forall>k < length d. node_at fs (take k d) = Some NDir)"

definition is_link :: "node option \<Rightarrow> bool" where
  "is_link n \<longleftrightarrow> (\<exists>t. n = Some (NLink t))"

lemma is_link_simps [simp]:
  "\<not> is_link None" "\<not> is_link (Some NDir)" "\<not> is_link (Some (NFile b m))" "is_link (Some (NLink t))"
  by (simp_all add: is_link_def)

definition solid :: "file_sys \<Rightarrow> loc \<Rightarrow> bool" where
  "solid fs d \<longleftrightarrow> plain d \<and> dirs_above fs d \<and> node_at fs d \<noteq> None \<and> \<not> is_link (node_at fs d)"

lemma node_at_Nil [simp]: "node_at fs [] = Some NDir"
  by (simp add: node_at_def)

lemma dirs_above_simps [simp]:
  "dirs_above fs []" "dirs_above fs (d @ [c]) \<longleftrightarrow> dirs_above fs d \<and> node_at fs d = Some NDir"
  by (auto simp: dirs_above_def less_Suc_eq)

lemma dirs_above_butlast:
  "dirs_above fs d \<Longrightarrow> dirs_above fs (butlast d) \<and> node_at fs (butlast d) = Some NDir"
  by (cases d rule: rev_cases) simp_all

lemma plain_butlast: "plain d \<Longrightarrow> plain (butlast d)"
  by (cases d rule: rev_cases) simp_all

lemma walk_plain_step:
  "plain_comp c \<Longrightarrow> walk fs n d (c # cs) =
     (case node_at fs (d @ [c]) of
        None \<Rightarrow> if cs = [] then Missing (d @ [c]) else Fails
      | Some NDir \<Rightarrow> walk fs n (d @ [c]) cs
      | Some (NFile _ _) \<Rightarrow> if cs = [] then Found (d @ [c]) else Fails
      | Some (NLink t) \<Rightarrow>
          (case n of 0 \<Rightarrow> Fails | Suc m \<Rightarrow> walk fs m (if is_abs t then [] else d) (split_slash t @ cs)))"
  by (simp add: walk.simps(2) plain_comp_def)

lemma walk_skip [simp]: "walk fs n d ([] # cs) = walk fs n d cs"
  by (simp add: walk.simps(2))

text \<open>
  Resolution by cases: the equations of \<open>walk\<close>, one per case, and the induction that
  follows them.
\<close>

definition stays :: "string \<Rightarrow> bool" where
  "stays c \<longleftrightarrow> c = '''' \<or> c = ''.''"

definition real_name :: "string \<Rightarrow> bool" where
  "real_name c \<longleftrightarrow> \<not> stays c \<and> c \<noteq> ''..''"

lemma plain_real: "plain_comp c \<longleftrightarrow> real_name c \<and> slash \<notin> set c"
  by (auto simp: plain_comp_def real_name_def stays_def)

lemma walk_steps [step_simps]:
  "stays c \<Longrightarrow> walk fs n d (c # cs) = walk fs n d cs"
  "walk fs n d (''..'' # cs) = walk fs n (butlast d) cs"
  "real_name c \<Longrightarrow> node_at fs (d @ [c]) = None \<Longrightarrow>
     walk fs n d (c # cs) = (if cs = [] then Missing (d @ [c]) else Fails)"
  "real_name c \<Longrightarrow> node_at fs (d @ [c]) = Some NDir \<Longrightarrow> walk fs n d (c # cs) = walk fs n (d @ [c]) cs"
  "real_name c \<Longrightarrow> node_at fs (d @ [c]) = Some (NFile b k) \<Longrightarrow>
     walk fs n d (c # cs) = (if cs = [] then Found (d @ [c]) else Fails)"
  "real_name c \<Longrightarrow> node_at fs (d @ [c]) = Some (NLink t) \<Longrightarrow> walk fs 0 d (c # cs) = Fails"
  "real_name c \<Longrightarrow> node_at fs (d @ [c]) = Some (NLink t) \<Longrightarrow>
     walk fs (Suc m) d (c # cs) = walk fs m (if is_abs t then [] else d) (split_slash t @ cs)"
  by (simp_all add: walk.simps(2) stays_def real_name_def)

lemma walk_induct [case_names nil stay up absent directory regular too_many follow]:
  assumes "\<And>fs n d. P fs n d []"
    and "\<And>fs n d c cs. stays c \<Longrightarrow> P fs n d cs \<Longrightarrow> P fs n d (c # cs)"
    and "\<And>fs n d cs. P fs n (butlast d) cs \<Longrightarrow> P fs n d (''..'' # cs)"
    and "\<And>fs n d c cs. real_name c \<Longrightarrow> node_at fs (d @ [c]) = None \<Longrightarrow> P fs n d (c # cs)"
    and "\<And>fs n d c cs. real_name c \<Longrightarrow> node_at fs (d @ [c]) = Some NDir \<Longrightarrow> P fs n (d @ [c]) cs \<Longrightarrow> P fs n d (c # cs)"
    and "\<And>fs n d c cs b k. real_name c \<Longrightarrow> node_at fs (d @ [c]) = Some (NFile b k) \<Longrightarrow> P fs n d (c # cs)"
    and "\<And>fs d c cs t. real_name c \<Longrightarrow> node_at fs (d @ [c]) = Some (NLink t) \<Longrightarrow> P fs 0 d (c # cs)"
    and "\<And>fs m d c cs t. real_name c \<Longrightarrow> node_at fs (d @ [c]) = Some (NLink t) \<Longrightarrow>
       P fs m (if is_abs t then [] else d) (split_slash t @ cs) \<Longrightarrow> P fs (Suc m) d (c # cs)"
  shows "P fs n d cs"
proof (induction fs n d cs rule: walk.induct)
  case (2 fs n d c cs)
  consider "stays c" | "c = ''..''" | "real_name c" by (auto simp: real_name_def)
  then show ?case
  proof cases
    case 3
    then have r: "\<not> (c = '''' \<or> c = ''.'')" "c \<noteq> ''..''" by (simp_all add: real_name_def stays_def)
    show ?thesis
    proof (cases "node_at fs (d @ [c])")
      case (Some nd)
      show ?thesis
      proof (cases nd)
        case (NLink t)
        with 2(4) [OF r Some] Some 3 assms(7,8) show ?thesis by (cases n) auto
      qed (use 2(3) [OF r Some] Some 3 assms(5,6) in auto)
    qed (use 3 assms(4) in auto)
  qed (use 2(1,2) assms(2,3) in \<open>auto simp: stays_def\<close>)
qed (rule assms(1))

text \<open>What resolution finds exists, is not a link and lies below directories.\<close>

lemma solid_child:
  "solid fs d \<Longrightarrow> node_at fs d = Some NDir \<Longrightarrow> plain_comp c \<Longrightarrow> node_at fs (d @ [c]) = Some nd \<Longrightarrow>
   \<not> is_link (Some nd) \<Longrightarrow> solid fs (d @ [c])"
  by (simp add: solid_def)

lemma solid_parent: "solid fs d \<Longrightarrow> solid fs (butlast d) \<and> node_at fs (butlast d) = Some NDir"
  using dirs_above_butlast [of fs d] plain_butlast [of d] by (simp add: solid_def)

lemma solid_root: "solid fs []"
  by (simp add: solid_def)

lemma walk_result:
  assumes "solid fs d" "node_at fs d = Some NDir \<or> cs = []" "list_all (\<lambda>c. slash \<notin> set c) cs"
  shows "case walk fs n d cs of Found l \<Rightarrow> solid fs l
    | Missing l \<Rightarrow> l \<noteq> [] \<and> plain l \<and> dirs_above fs l \<and> node_at fs l = None | Fails \<Rightarrow> True"
  using assms
proof (induction fs n d cs rule: walk_induct)
  case (up fs n d cs)
  with solid_parent [of fs d] show ?case by (simp add: step_simps)
next
  case (absent fs n d c cs)
  then show ?case by (auto simp: step_simps solid_def plain_real)
next
  case (directory fs n d c cs)
  with solid_child [of fs d c NDir] show ?case by (simp add: step_simps plain_real)
next
  case (regular fs n d c cs b k)
  with solid_child [of fs d c "NFile b k"] show ?case by (simp add: step_simps plain_real)
next
  case (follow fs m d c cs t)
  then have "list_all (\<lambda>c. slash \<notin> set c) (split_slash t @ cs)"
    by (auto simp: list_all_iff dest: split_slash_no_slash)
  with follow solid_root show ?case by (simp add: step_simps)
qed (simp_all add: step_simps)

lemma no_slash_split: "list_all (\<lambda>c. slash \<notin> set c) (split_slash p)"
  by (auto simp: list_all_iff dest: split_slash_no_slash)

lemma walk_root_result:
  "walk fs n [] (split_slash p) = Found l \<Longrightarrow> solid fs l"
  "walk fs n [] (split_slash p) = Missing l \<Longrightarrow> l \<noteq> [] \<and> plain l \<and> dirs_above fs l \<and> node_at fs l = None"
  using walk_result [OF solid_root _ no_slash_split [of p], of fs n] by simp_all

text \<open>A solid location is found as it is, whatever the link budget.\<close>

lemma walk_dirs:
  "plain cs \<Longrightarrow> dirs_above fs (d @ cs @ [c]) \<Longrightarrow> walk fs n d (cs @ xs) = walk fs n (d @ cs) xs"
proof (induction cs arbitrary: d)
  case (Cons x cs)
  have "node_at fs (take (Suc (length d)) (d @ (x # cs) @ [c])) = Some NDir"
    by (rule Cons.prems(2) [unfolded dirs_above_def, rule_format]) simp
  then have "node_at fs (d @ [x]) = Some NDir" by simp
  with Cons.prems Cons.IH [of "d @ [x]"] show ?case by (simp add: walk_plain_step)
qed simp

lemma walk_solid:
  assumes "solid fs l"
  shows "walk fs n [] l = Found l"
proof (cases l rule: rev_cases)
  case (snoc cs c)
  with assms have c: "plain cs" "plain_comp c" "dirs_above fs (cs @ [c])" "node_at fs l \<noteq> None"
    "\<not> is_link (node_at fs l)"
    by (simp_all add: solid_def)
  from walk_dirs [OF c(1), of fs "[]" c n "[c]"] c(3) have "walk fs n [] l = walk fs n cs [c]"
    by (simp add: snoc)
  also have "\<dots> = Found l"
    using c(4,5) snoc by (auto simp: walk_plain_step [OF c(2)] is_link_def split: option.split node.split)
  finally show ?thesis .
qed simp

lemma walk_missing:
  assumes "plain l" "l \<noteq> []" "dirs_above fs l" "node_at fs l = None"
  shows "walk fs n [] l = Missing l"
proof (cases l rule: rev_cases)
  case (snoc cs c)
  with assms have c: "plain cs" "plain_comp c" "dirs_above fs (cs @ [c])" by simp_all
  from walk_dirs [OF c(1), of fs "[]" c n "[c]"] c(3) have "walk fs n [] l = walk fs n cs [c]"
    by (simp add: snoc)
  with assms(4) snoc show ?thesis by (simp add: walk_plain_step [OF c(2)])
qed (use assms in simp)

lemma walk_abs_path: "plain l \<Longrightarrow> walk fs n [] (split_slash (abs_path l)) = walk fs n [] l"
  by (cases l) (simp_all add: split_abs_path)

text \<open>More links allowed find at least as much.\<close>

lemma walk_more_links:
  "walk fs n d cs = Found l \<Longrightarrow> n \<le> m \<Longrightarrow> walk fs m d cs = Found l"
proof (induction fs n d cs arbitrary: m rule: walk_induct)
  case (follow fs k d c cs t)
  then obtain m1 where "m = Suc m1" "k \<le> m1" by (cases m) simp_all
  with follow show ?case by (simp add: step_simps)
qed (simp_all add: step_simps split: if_splits)

subsection \<open>Where resolve leads\<close>

text \<open>The workspace root: a directory below directories, not the file system's root.\<close>

definition root_ok :: "loc \<Rightarrow> file_sys \<Rightarrow> bool" where
  "root_ok rc fs \<longleftrightarrow> rc \<noteq> [] \<and> solid fs rc \<and> node_at fs rc = Some NDir"

lemma root_okD: "root_ok rc fs \<Longrightarrow> rc \<noteq> [] \<and> plain rc \<and> solid fs rc \<and> node_at fs rc = Some NDir"
  unfolding root_ok_def solid_def by blast

lemma hasRootPrefix_abs:
  assumes "plain pc" "plain rc" "rc \<noteq> []" "hasRootPrefix (abs_path pc) (abs_path rc)"
  shows "prefix rc pc"
proof -
  let ?n = "length (abs_path rc)"
  from assms(4) have t: "take ?n (abs_path pc) = abs_path rc" "abs_path pc ! ?n = slash" "?n < length (abs_path pc)"
    by (simp_all add: hasRootPrefix_def)
  then have "abs_path pc = abs_path rc @ slash # drop (Suc ?n) (abs_path pc)"
    by (metis append_take_drop_id Cons_nth_drop_Suc)
  then have "split_slash (abs_path pc) = split_slash (abs_path rc) @ split_slash (drop (Suc ?n) (abs_path pc))"
    by (metis split_slash_append)
  with assms(1-3) have "(if pc = [] then [[]] else pc) = rc @ split_slash (drop (Suc ?n) (abs_path pc))"
    by (simp add: split_abs_path)
  with assms(3) show ?thesis by (cases rc) (auto simp: prefix_def split: if_splits)
qed

lemma EvalSymlinks_abs:
  "EvalSymlinks fs (abs_path l) = Some p \<Longrightarrow> plain l \<Longrightarrow> \<exists>d. p = abs_path d \<and> solid fs d \<and>
     walk fs eval_links [] l = Found d"
  using walk_root_result(1) [of fs eval_links "abs_path l"]
  by (auto simp: EvalSymlinks_def walk_abs_path split: found.splits)

lemma EvalSymlinks_solid: "solid fs l \<Longrightarrow> EvalSymlinks fs (abs_path l) = Some (abs_path l)"
  by (simp add: EvalSymlinks_def walk_abs_path walk_solid solid_def)

text \<open>The lexical path \<open>resolve\<close> starts from.\<close>

definition lexical :: "loc \<Rightarrow> string \<Rightarrow> loc" where
  "lexical rc path =
     (if is_abs path then norm_comps path
      else if path = '''' then rc else clean_comps True (rev rc) (split_slash path))"

lemma lexical_plain: "plain rc \<Longrightarrow> plain (lexical rc path)"
  unfolding lexical_def
  using norm_comps_plain clean_comps_plain [of "rev rc" "split_slash path"] no_slash_split by auto

lemma Join_empty: "plain rc \<Longrightarrow> Join [abs_path rc, ''''] = abs_path rc"
proof -
  assume "plain rc"
  moreover have "abs_path rc \<noteq> ''''" by (simp add: abs_path_def)
  ultimately show ?thesis by (simp add: Join_def Clean_abs_path)
qed

lemma resolve_lexical:
  assumes "root_ok rc fs"
  shows "resolve fs (abs_path rc) path =
    (let p = (case EvalSymlinks fs (abs_path (lexical rc path)) of Some a \<Rightarrow> a | None \<Rightarrow> abs_path (lexical rc path))
     in if p \<noteq> abs_path rc \<and> \<not> hasRootPrefix p (abs_path rc) then Inl ErrEscapes else Inr p)"
proof -
  have rc: "plain rc" "solid fs rc" using root_okD [OF assms] by blast+
  have start: "(if \<not> is_abs path then Join [abs_path rc, path] else Clean path) = abs_path (lexical rc path)"
    using Join_abs [OF rc(1)] Join_empty [OF rc(1)]
    by (cases "path = ''''") (auto simp: lexical_def Clean_abs is_abs_def has_prefix_def)
  show ?thesis
    unfolding resolve_def Let_def start EvalSymlinks_solid [OF rc(2)] trimDevicePrefix_def pathEqual_def
    by simp
qed

lemma resolve_inside:
  assumes "root_ok rc fs" "resolve fs (abs_path rc) path = Inr p"
  shows "\<exists>pc. p = abs_path pc \<and> plain pc \<and> prefix rc pc \<and>
    (EvalSymlinks fs (abs_path (lexical rc path)) = Some p \<and> solid fs pc \<or>
     EvalSymlinks fs (abs_path (lexical rc path)) = None \<and> pc = lexical rc path)"
proof -
  have rc: "plain rc" "rc \<noteq> []" using root_okD [OF assms(1)] by blast+
  let ?e = "EvalSymlinks fs (abs_path (lexical rc path))"
  have "\<exists>pc. p = abs_path pc \<and> plain pc \<and> (?e = Some p \<and> solid fs pc \<or> ?e = None \<and> pc = lexical rc path)"
  proof (cases ?e)
    case None
    with assms lexical_plain [OF rc(1)] show ?thesis
      by (auto simp: resolve_lexical [OF assms(1)] Let_def split: if_splits)
  next
    case (Some a)
    with assms have "p = a" by (auto simp: resolve_lexical [OF assms(1)] Let_def split: if_splits)
    moreover obtain d where "a = abs_path d" "solid fs d"
      using EvalSymlinks_abs [OF Some lexical_plain [OF rc(1)]] by blast
    moreover from this(2) have "plain d" by (simp add: solid_def)
    ultimately show ?thesis using Some by blast
  qed
  then obtain pc where pc: "p = abs_path pc" "plain pc"
    "?e = Some p \<and> solid fs pc \<or> ?e = None \<and> pc = lexical rc path" by blast
  moreover have "prefix rc pc"
  proof (cases "p = abs_path rc")
    case True
    with pc(1) have "abs_path pc = abs_path rc" by simp
    from abs_path_inj [OF pc(2) rc(1) this] show ?thesis by simp
  next
    case False
    with assms(2) have "hasRootPrefix p (abs_path rc)"
      by (auto simp: resolve_lexical [OF assms(1)] Let_def split: if_splits)
    with hasRootPrefix_abs [OF pc(2) rc] pc(1) show ?thesis by simp
  qed
  ultimately show ?thesis by blast
qed

lemma kernel_walk_abs: "plain l \<Longrightarrow> kernel_walk fs (abs_path l) = walk fs kernel_links [] l"
  by (simp add: kernel_walk_def walk_abs_path)

text \<open>A path that \<open>resolve\<close> accepts leads, if to anything that exists, into the root.\<close>

lemma resolved_found:
  assumes "root_ok rc fs" "resolve fs (abs_path rc) path = Inr p" "kernel_walk fs p = Found l"
  shows "prefix rc l \<and> p = abs_path l \<and> solid fs l"
proof -
  from resolve_inside [OF assms(1,2)] obtain pc where
    pc: "p = abs_path pc" "plain pc" "prefix rc pc"
      "EvalSymlinks fs (abs_path (lexical rc path)) = Some p \<and> solid fs pc \<or>
       EvalSymlinks fs (abs_path (lexical rc path)) = None \<and> pc = lexical rc path" by blast
  have w: "walk fs kernel_links [] pc = Found l"
    using assms(3) pc(1,2) by (simp add: kernel_walk_abs)
  have "solid fs pc"
  proof (rule ccontr)
    assume "\<not> solid fs pc"
    with pc(4) have none: "EvalSymlinks fs (abs_path pc) = None" by simp
    have "walk fs eval_links [] pc = Found l"
      by (rule walk_more_links [OF w]) (simp add: kernel_links_def eval_links_def)
    with none pc(2) show False by (simp add: EvalSymlinks_def walk_abs_path)
  qed
  with walk_solid [OF this] w pc show ?thesis by simp
qed

subsection \<open>Changes confined to the workspace\<close>

text \<open>
  A workspace without symbolic links, and two file systems that agree outside the root and
  keep the workspace so.
\<close>

definition tree_ok :: "loc \<Rightarrow> file_sys \<Rightarrow> bool" where
  "tree_ok rc fs \<longleftrightarrow> root_ok rc fs \<and> (\<forall>l. prefix rc l \<longrightarrow> \<not> is_link (node_at fs l))"

definition confined :: "loc \<Rightarrow> file_sys \<Rightarrow> file_sys \<Rightarrow> bool" where
  "confined rc fs fs' \<longleftrightarrow> tree_ok rc fs' \<and> (\<forall>l. \<not> prefix rc l \<longrightarrow> node_at fs' l = node_at fs l)"

lemma confined_refl: "tree_ok rc fs \<Longrightarrow> confined rc fs fs"
  by (simp add: confined_def)

lemma confined_trans: "confined rc a b \<Longrightarrow> confined rc b c \<Longrightarrow> confined rc a c"
  by (simp add: confined_def)

lemma node_at_put: "l \<noteq> [] \<Longrightarrow> node_at (put_node l n fs) k = (if k = l then Some n else node_at fs k)"
  by (auto simp: node_at_def put_node_def update_conv')

lemma root_ok_cong:
  assumes "root_ok rc fs" "\<And>l. prefix l rc \<Longrightarrow> node_at fs' l = node_at fs l"
  shows "root_ok rc fs'"
proof -
  have "node_at fs' (take k rc) = node_at fs (take k rc)" for k
    by (rule assms(2)) (rule take_is_prefix)
  moreover from this [of "length rc"] have "node_at fs' rc = node_at fs rc" by simp
  ultimately show ?thesis
    using assms(1) unfolding root_ok_def solid_def dirs_above_def by simp
qed

lemma confined_put:
  assumes "tree_ok rc fs" "strict_prefix rc l" "\<not> is_link (Some n)"
  shows "confined rc fs (put_node l n fs)"
proof -
  have l: "l \<noteq> []" using assms(2) by auto
  have "root_ok rc (put_node l n fs)"
  proof (rule root_ok_cong)
    show "root_ok rc fs" using assms(1) by (simp add: tree_ok_def)
    show "node_at (put_node l n fs) k = node_at fs k" if "prefix k rc" for k
      using that assms(2) prefix_order.less_le_not_le [of rc l] by (auto simp: node_at_put [OF l])
  qed
  moreover have "\<not> prefix rc k \<Longrightarrow> k \<noteq> l" for k using assms(2) by auto
  ultimately show ?thesis
    using assms(1,3) by (auto simp: confined_def tree_ok_def node_at_put [OF l])
qed

text \<open>In a workspace without links, resolution inside it is lexical.\<close>

lemma walk_inside:
  assumes "tree_ok rc fs" "plain cs" "prefix rc d" "plain d" "dirs_above fs d" "node_at fs d = Some NDir"
  shows "walk fs n d cs = Found (d @ cs) \<and> solid fs (d @ cs) \<or>
    walk fs n d cs = Missing (d @ cs) \<and> cs \<noteq> [] \<and> dirs_above fs (d @ cs) \<and> node_at fs (d @ cs) = None \<or>
    walk fs n d cs = Fails"
  using assms(2-)
proof (induction cs arbitrary: d)
  case Nil
  then show ?case by (simp add: solid_def is_link_def)
next
  case (Cons c cs)
  have p: "prefix rc (d @ [c])" using Cons.prems(2) by (simp add: prefix_append)
  note step = walk_plain_step [of c fs n d cs]
  show ?case
  proof (cases "node_at fs (d @ [c])")
    case None
    with Cons.prems step show ?thesis by auto
  next
    case (Some nd)
    show ?thesis
    proof (cases nd)
      case NDir
      with Cons.prems step Some Cons.IH [of "d @ [c]"] p show ?thesis by auto
    next
      case (NFile b m)
      with Cons.prems step Some show ?thesis by (auto simp: solid_def is_link_def)
    next
      case (NLink t)
      with assms(1) p Some show ?thesis by (auto simp: tree_ok_def is_link_def)
    qed
  qed
qed

lemma walk_inside_root:
  assumes "tree_ok rc fs" "plain pc" "prefix rc pc"
  shows "walk fs n [] pc = Found pc \<and> solid fs pc \<or>
    walk fs n [] pc = Missing pc \<and> pc \<noteq> rc \<and> dirs_above fs pc \<and> node_at fs pc = None \<or>
    walk fs n [] pc = Fails"
proof -
  obtain cs where cs: "pc = rc @ cs" using assms(3) by (auto simp: prefix_def)
  have rc: "solid fs rc" "node_at fs rc = Some NDir" using assms(1) by (simp_all add: tree_ok_def root_ok_def)
  have "walk fs n [] (rc @ cs) = walk fs n rc cs"
  proof (cases cs)
    case Nil
    with walk_solid [OF rc(1)] show ?thesis by simp
  next
    case (Cons c cs')
    have "dirs_above fs ([] @ rc @ [c])" using rc by (simp add: solid_def)
    from walk_dirs [OF _ this, of n cs] rc(1) show ?thesis by (simp add: solid_def)
  qed
  with walk_inside [OF assms(1), of cs rc n] rc assms(2) cs show ?thesis
    by (auto simp: solid_def)
qed

lemma tree_okD: "tree_ok rc fs \<Longrightarrow> rc \<noteq> [] \<and> plain rc \<and> solid fs rc \<and> node_at fs rc = Some NDir"
  unfolding tree_ok_def by (blast dest: root_okD)

lemma Stat_inside:
  assumes "tree_ok rc fs" "plain pc" "prefix rc pc" "Stat fs (abs_path pc) = Some (l, nd)"
  shows "l = pc \<and> node_at fs pc = Some nd"
  using assms walk_inside_root [OF assms(1-3), of kernel_links]
  by (auto simp: Stat_def kernel_walk_abs split: found.splits)

lemma Stat_root: "tree_ok rc fs \<Longrightarrow> Stat fs (abs_path rc) = Some (rc, NDir)"
  using tree_okD [of rc fs] by (simp add: Stat_def kernel_walk_abs walk_solid)

lemma mkdir_confined:
  assumes "tree_ok rc fs" "plain pc" "strict_prefix rc pc" "mkdir fs pc = Some fs'"
  shows "confined rc fs fs' \<and> node_at fs' pc = Some NDir"
proof -
  obtain cs c where pc: "pc = cs @ [c]" using assms(3) by (cases pc rule: rev_cases) auto
  with assms(3) have "prefix rc cs" by (auto simp: strict_prefix_def)
  with assms(2) pc walk_inside_root [OF assms(1), of cs kernel_links] assms(4)
  have "fs' = put_node pc NDir fs"
    by (auto simp: mkdir_def split: found.splits if_splits)
  with confined_put [OF assms(1,3), of NDir] show ?thesis
    by (simp add: node_at_put pc)
qed

text \<open>The end of \<open>mkdir_all\<close>, when the parent has been made.\<close>

lemma mkdir_all_end:
  assumes "tree_ok rc fs" "plain cs" "strict_prefix rc cs"
    and "(case mkdir fs cs of
        Some fs2 \<Rightarrow> (None, fs2)
      | None \<Rightarrow> (case walk fs kernel_links [] (butlast cs) of
            Found d \<Rightarrow> if node_at fs (d @ [last cs]) = Some NDir then (None, fs) else (Some ErrNotExist, fs)
          | _ \<Rightarrow> (Some ErrNotExist, fs))) = (e, fs')"
  shows "confined rc fs fs' \<and> (e = None \<longrightarrow> node_at fs' cs = Some NDir)"
proof (cases "mkdir fs cs")
  case (Some fs2)
  with mkdir_confined [OF assms(1-3) Some] assms(4) show ?thesis by auto
next
  case None
  have ne: "cs \<noteq> []" using assms(3) by auto
  then have pb: "prefix rc (butlast cs)"
    using assms(3) by (cases cs rule: rev_cases) (auto simp: strict_prefix_def)
  have "butlast cs @ [last cs] = cs" using ne by simp
  with assms(4) None walk_inside_root [OF assms(1) plain_butlast [OF assms(2)] pb, of kernel_links]
    confined_refl [OF assms(1)]
  show ?thesis by (auto split: found.splits if_splits)
qed

lemma mkdir_all_confined:
  assumes "tree_ok rc fs" "plain pc" "prefix rc pc" "mkdir_all fs pc = (e, fs')"
  shows "confined rc fs fs' \<and> (e = None \<longrightarrow> node_at fs' pc = Some NDir)"
  using assms
proof (induction fs pc arbitrary: e fs' rule: mkdir_all.induct)
  case (1 fs cs)
  show ?case
  proof (cases "Stat fs (abs_path cs)")
    case (Some r)
    obtain l nd where r: "r = (l, nd)" by (metis surj_pair)
    from Stat_inside [OF "1.prems"(1-3)] Some r have "node_at fs cs = Some nd" by simp
    with "1.prems"(1,4) Some r confined_refl show ?thesis
      by (cases nd) (auto simp: mkdir_all.simps)
  next
    case None
    have "cs \<noteq> rc" using None Stat_root [OF "1.prems"(1)] by auto
    with "1.prems"(3) have sp: "strict_prefix rc cs" by (simp add: strict_prefix_def)
    then have ne: "cs \<noteq> []" by auto
    then have pb: "prefix rc (butlast cs)"
      using sp by (cases cs rule: rev_cases) (auto simp: strict_prefix_def)
    obtain e1 fs1 where rec: "mkdir_all fs (butlast cs) = (e1, fs1)" by (metis surj_pair)
    from "1.IH" [OF None ne "1.prems"(1) plain_butlast [OF "1.prems"(2)] pb rec]
    have c1: "confined rc fs fs1" by blast
    then have t1: "tree_ok rc fs1" by (simp add: confined_def)
    show ?thesis
    proof (cases e1)
      case (Some x)
      with "1.prems"(4) None ne rec have "e = Some x" "fs' = fs1"
        by (subst (asm) mkdir_all.simps; simp)+
      with c1 show ?thesis by simp
    next
      case e1: None
      note eq = "1.prems"(4) [unfolded mkdir_all.simps [of fs cs], simplified None ne rec e1]
      from mkdir_all_end [OF t1 "1.prems"(2) sp] eq ne c1 show ?thesis
        by (auto intro: confined_trans)
    qed
  qed
qed

lemma abs_comps_abs: "plain pc \<Longrightarrow> abs_comps fs (abs_path pc) = pc"
  by (simp add: abs_comps_def norm_comps_abs_path)

lemma open_write_confined:
  assumes "tree_ok rc fs" "plain pc" "prefix rc pc" "open_write m data stop (abs_path pc) fs = (e, fs')"
  shows "confined rc fs fs' \<and> (e = None \<longrightarrow> (\<exists>m'. node_at fs' pc = Some (NFile data m')))"
proof -
  have sp: "pc \<noteq> rc \<Longrightarrow> strict_prefix rc pc" using assms(3) by (simp add: strict_prefix_def)
  have put: "confined rc fs (put_node pc (NFile b k) fs)" if "pc \<noteq> rc" for b k
    by (rule confined_put [OF assms(1) sp [OF that]]) simp
  have ne: "pc \<noteq> []" using assms(1,3) tree_okD by auto
  from walk_inside_root [OF assms(1-3), of kernel_links] show ?thesis
  proof (elim disjE conjE)
    assume w: "walk fs kernel_links [] pc = Found pc" and "solid fs pc"
    show ?thesis
    proof (cases "node_at fs pc")
      case None
      with assms(4) w assms(2) have "e = Some ErrIsDir" "fs' = fs"
        by (simp_all add: open_write_def kernel_walk_abs Let_def)
      with confined_refl [OF assms(1)] show ?thesis by simp
    next
      case (Some nd)
      show ?thesis
      proof (cases nd)
        case (NFile b k)
        with Some tree_okD [OF assms(1)] have "pc \<noteq> rc" by auto
        with put assms(4) w assms(2) Some NFile ne show ?thesis
          by (auto simp: open_write_def kernel_walk_abs Let_def node_at_put split: option.splits)
      qed (use assms(4) w assms(2) Some confined_refl [OF assms(1)] in
          \<open>auto simp: open_write_def kernel_walk_abs Let_def\<close>)
    qed
  next
    assume w: "walk fs kernel_links [] pc = Missing pc" and "pc \<noteq> rc"
    with put assms(4) assms(2) ne show ?thesis
      by (auto simp: open_write_def kernel_walk_abs Let_def node_at_put split: option.splits)
  next
    assume "walk fs kernel_links [] pc = Fails"
    with assms(4) assms(2) have "e = Some ErrNotExist" "fs' = fs"
      by (simp_all add: open_write_def kernel_walk_abs Let_def)
    with confined_refl [OF assms(1)] show ?thesis by simp
  qed
qed

lemma dirs_above_put: "dirs_above fs l \<Longrightarrow> l \<noteq> [] \<Longrightarrow> dirs_above (put_node l n fs) l"
  by (auto simp: dirs_above_def node_at_put)

lemma open_write_solid:
  assumes "tree_ok rc fs" "plain pc" "prefix rc pc" "open_write m data stop (abs_path pc) fs = (None, fs')"
  shows "solid fs' pc"
proof -
  have ne: "pc \<noteq> []" using assms(1,3) tree_okD by auto
  from walk_inside_root [OF assms(1-3), of kernel_links] show ?thesis
  proof (elim disjE conjE)
    assume w: "walk fs kernel_links [] pc = Found pc" and s: "solid fs pc"
    with assms(4,2) obtain b k where "fs' = put_node pc (NFile b k) fs"
      by (auto simp: open_write_def kernel_walk_abs Let_def split: option.splits node.splits)
    with s ne dirs_above_put show ?thesis by (simp add: solid_def node_at_put)
  next
    assume w: "walk fs kernel_links [] pc = Missing pc" "dirs_above fs pc"
    with assms(4,2) obtain b k where "fs' = put_node pc (NFile b k) fs"
      by (auto simp: open_write_def kernel_walk_abs Let_def split: option.splits)
    with w(2) ne assms(2) dirs_above_put show ?thesis by (simp add: solid_def node_at_put)
  next
    assume "walk fs kernel_links [] pc = Fails"
    with assms(4,2) show ?thesis by (simp add: open_write_def kernel_walk_abs Let_def)
  qed
qed

text \<open>Creating the parent of a resolved path.\<close>

lemma mkdir_parent_confined:
  assumes "tree_ok rc fs" "plain pc" "prefix rc pc" "MkdirAll (Dir (abs_path pc)) fs = (e, fs')"
  shows "confined rc fs fs'"
proof (cases "pc = rc")
  case True
  have rc: "rc \<noteq> []" "plain rc" "solid fs rc" using tree_okD [OF assms(1)] by blast+
  from rc(3) have "node_at fs (butlast rc) = Some NDir" "solid fs (butlast rc)"
    using dirs_above_butlast [of fs rc] plain_butlast [OF rc(2)] by (simp_all add: solid_def)
  then have "mkdir_all fs (butlast rc) = (None, fs)"
    by (subst mkdir_all.simps) (simp add: Stat_def kernel_walk_abs walk_solid plain_butlast [OF rc(2)])
  with assms(4) True rc(2) confined_refl [OF assms(1)] show ?thesis
    by (simp add: MkdirAll_def Dir_abs_path abs_comps_abs plain_butlast)
next
  case False
  then have "prefix rc (butlast pc)"
    using assms(3) by (cases pc rule: rev_cases) auto
  from mkdir_all_confined [OF assms(1) plain_butlast [OF assms(2)] this] assms(2,4) show ?thesis
    by (simp add: MkdirAll_def Dir_abs_path abs_comps_abs plain_butlast)
qed

lemma resolve_plain:
  assumes "tree_ok rc fs" "resolve fs (abs_path rc) path = Inr p"
  shows "\<exists>pc. p = abs_path pc \<and> plain pc \<and> prefix rc pc"
  using resolve_inside [of rc fs path p] assms by (auto simp: tree_ok_def)

lemma fWrite_confined:
  assumes "tree_ok rc fs" "fWrite (abs_path rc) path data stop fs = (e, fs')"
  shows "confined rc fs fs'"
proof (cases "resolve fs (abs_path rc) path")
  case (Inl x)
  with assms confined_refl show ?thesis by (simp add: fWrite_def)
next
  case (Inr p)
  from resolve_plain [OF assms(1) Inr] obtain pc where pc: "p = abs_path pc" "plain pc" "prefix rc pc"
    by blast
  obtain e1 fs1 where mk: "MkdirAll (Dir p) fs = (e1, fs1)" by (metis surj_pair)
  have c1: "confined rc fs fs1" using mkdir_parent_confined [OF assms(1) pc(2,3)] mk pc(1) by blast
  show ?thesis
  proof (cases e1)
    case (Some x)
    with assms(2) Inr mk c1 show ?thesis by (simp add: fWrite_def)
  next
    case None
    with assms(2) Inr mk pc(1) have "open_write 420 data stop (abs_path pc) fs1 = (e, fs')"
      by (simp add: fWrite_def WriteFile_def)
    with open_write_confined [OF _ pc(2,3)] c1 show ?thesis
      by (auto simp: confined_def)
  qed
qed

subsection \<open>Unpacking stays inside\<close>

lemma map_of_filter_key:
  "map_of (filter (\<lambda>(k, _). P k) xs) k = (if P k then map_of xs k else None)"
  by (induction xs) auto

lemma node_at_remove:
  "l \<noteq> [] \<Longrightarrow> node_at (remove_tree l fs) k = (if prefix l k then None else node_at fs k)"
  by (auto simp: node_at_def remove_tree_def map_of_filter_key)

lemma remove_confined:
  assumes "tree_ok rc fs" "strict_prefix rc l"
  shows "confined rc fs (remove_tree l fs)"
proof -
  have l: "l \<noteq> []" using assms(2) by auto
  have "root_ok rc (remove_tree l fs)"
  proof (rule root_ok_cong)
    show "root_ok rc fs" using assms(1) by (simp add: tree_ok_def)
    show "node_at (remove_tree l fs) k = node_at fs k" if "prefix k rc" for k
      using that assms(2) prefix_order.less_le_not_le [of rc l] prefix_order.trans [of l k rc]
      by (auto simp: node_at_remove [OF l])
  qed
  moreover have "\<not> prefix rc k \<Longrightarrow> \<not> prefix l k" for k
    using assms(2) prefix_order.trans [of rc l k] by (auto simp: strict_prefix_def)
  ultimately show ?thesis
    using assms(1) by (auto simp: confined_def tree_ok_def node_at_remove [OF l])
qed

lemma clear_confined:
  assumes "tree_ok rc fs" "prefix rc d"
  shows "confined rc fs (clearDirContents d fs)"
proof -
  have "confined rc fs (fold (\<lambda>c. remove_tree (d @ [c])) cs fs)" for cs
    using assms(1)
  proof (induction cs arbitrary: fs)
    case (Cons c cs)
    have "strict_prefix rc (d @ [c])"
      using assms(2) by (auto simp: strict_prefix_def prefix_def)
    from remove_confined [OF Cons.prems this] Cons.IH show ?case
      by (auto simp: confined_def)
  qed (simp add: confined_refl)
  then show ?thesis by (simp add: clearDirContents_def)
qed

lemma sync_entry_confined:
  assumes "tree_ok rc fs" "sync_entry (abs_path rc) dest h fs = (r, fs')"
  shows "confined rc fs fs'"
proof -
  note refl = confined_refl [OF assms(1)]
  let ?name = "trim_prefix [slash] (t_Name h)"
  show ?thesis
  proof (cases "?name = '''' \<or> ?name = ''.''")
    case True
    with assms(2) refl show ?thesis by (simp add: Let_def split: if_splits)
  next
    case named: False
    show ?thesis
    proof (cases "resolve fs (abs_path rc) (Join [trimDot dest, ?name])")
      case (Inl e)
      with assms(2) named refl show ?thesis by (simp add: Let_def)
    next
      case (Inr target)
      from resolve_plain [OF assms(1) Inr] obtain pc where
        pc: "target = abs_path pc" "plain pc" "prefix rc pc" by blast
      show ?thesis
      proof (cases "t_Type h")
        case TypeDir
        obtain e fs1 where mk: "MkdirAll target fs = (e, fs1)" by (metis surj_pair)
        with assms(2) named Inr TypeDir have "fs' = fs1" by (simp add: Let_def)
        with mkdir_all_confined [OF assms(1) pc(2,3)] mk pc show ?thesis
          by (simp add: MkdirAll_def abs_comps_abs)
      next
        case TypeReg
        obtain e1 fs1 where mk: "MkdirAll (Dir target) fs = (e1, fs1)" by (metis surj_pair)
        have c1: "confined rc fs fs1" using mkdir_parent_confined [OF assms(1) pc(2,3)] mk pc(1) by blast
        obtain e2 fs2 where w: "open_write (file_mode (t_Mode h)) (t_Content h) (t_stop h) target fs1 = (e2, fs2)"
          by (metis surj_pair)
        have "confined rc fs1 fs2"
          using open_write_confined [OF _ pc(2,3)] w pc(1) c1 by (auto simp: confined_def)
        with c1 have "confined rc fs fs2" by (rule confined_trans)
        moreover have "fs' = fs1 \<or> fs' = fs2"
          using assms(2) named Inr TypeReg mk w by (cases e1) (auto simp: Let_def split: if_splits)
        ultimately show ?thesis using c1 by auto
      qed (use assms(2) named Inr refl in \<open>simp_all add: Let_def\<close>)
    qed
  qed
qed

lemma sync_loop_confined:
  "tree_ok rc fs \<Longrightarrow> sync_loop (abs_path rc) dest items n fs = (r, fs') \<Longrightarrow> confined rc fs fs'"
proof (induction "abs_path rc" dest items n fs rule: sync_loop.induct)
  case (3 dest h items files fs)
  obtain e k fs1 where e: "sync_entry (abs_path rc) dest h fs = ((e, k), fs1)" by (metis surj_pair)
  have c: "confined rc fs fs1" by (rule sync_entry_confined [OF 3(2) e])
  show ?case
  proof (cases e)
    case None
    with 3(3) e have "sync_loop (abs_path rc) dest items (files + k) fs1 = (r, fs')"
      by (simp del: sync_entry.simps)
    moreover have "tree_ok rc fs1" using c by (simp add: confined_def)
    ultimately have "confined rc fs1 fs'" using 3(1) [OF e [symmetric] refl] None by simp
    with c show ?thesis by (rule confined_trans)
  next
    case (Some x)
    with 3(3) e c show ?thesis by (simp del: sync_entry.simps)
  qed
qed (simp_all add: confined_refl)

text \<open>
  The stages of \<open>SyncFolder\<close>: it fails before the entries, having changed the workspace at
  most, or it unpacks the entries of the archive over a workspace that is still one.
\<close>

lemma clear_stage_confined:
  assumes "tree_ok rc fs" "plain pc" "prefix rc pc"
    and "(if clean then (case kernel_walk fs (abs_path pc) of
           Found d \<Rightarrow> Some (clearDirContents d fs) | _ \<Rightarrow> None) else Some fs) = Some fs'"
  shows "confined rc fs fs'"
  using assms(4) walk_inside_root [OF assms(1-3), of kernel_links] clear_confined [OF assms(1,3)]
    confined_refl [OF assms(1)]
  by (auto simp: kernel_walk_abs [OF assms(2)] split: if_splits found.splits)

lemma SyncFolder_stages:
  assumes "tree_ok rc fs" "SyncFolder gz tar (abs_path rc) tarball dest clean fs = (r, fs')"
  obtains (failed) "confined rc fs fs'" "snd r \<noteq> None"
  | (unpacks) fs2 items where "confined rc fs fs2" "tarReader gz tar tarball = Some items"
      "sync_loop (abs_path rc) (if dest = '''' then ''.'' else dest) items 0 fs2 = (r, fs')"
proof (cases "resolve fs (abs_path rc) (if dest = '''' then ''.'' else dest)")
  case (Inl e)
  with assms failed confined_refl show thesis by (auto simp: SyncFolder_def Let_def)
next
  case (Inr p)
  from resolve_plain [OF assms(1) Inr] obtain pc where pc: "p = abs_path pc" "plain pc" "prefix rc pc"
    by blast
  obtain e1 fs1 where mk: "MkdirAll (abs_path pc) fs = (e1, fs1)" by (metis surj_pair)
  have c1: "confined rc fs fs1"
    using mkdir_all_confined [OF assms(1) pc(2,3)] mk pc by (simp add: MkdirAll_def abs_comps_abs)
  then have t1: "tree_ok rc fs1" by (simp add: confined_def)
  let ?cleared = "if clean then (case kernel_walk fs1 (abs_path pc) of
      Found d \<Rightarrow> Some (clearDirContents d fs1) | _ \<Rightarrow> None) else Some fs1"
  note run = assms(2) [unfolded SyncFolder_def Let_def Inr sum.case pc(1) mk prod.case]
  show thesis
  proof (cases "e1 = None \<and> ?cleared \<noteq> None")
    case False
    with run c1 show thesis by (intro failed) (auto split: option.splits)
  next
    case True
    then obtain fs2 where fs2: "?cleared = Some fs2" "e1 = None" by blast
    have c2: "confined rc fs fs2"
      by (rule confined_trans [OF c1 clear_stage_confined [OF t1 pc(2,3) fs2(1)]])
    note rest = run [unfolded fs2 option.case]
    show thesis
    proof (cases "tarReader gz tar tarball")
      case None
      with rest c2 show thesis by (intro failed) auto
    next
      case (Some items)
      with rest show thesis by (intro unpacks [OF c2]) simp_all
    qed
  qed
qed

lemma SyncFolder_confined:
  assumes "tree_ok rc fs" "SyncFolder gz tar (abs_path rc) tarball dest clean fs = (r, fs')"
  shows "confined rc fs fs'"
  using assms
proof (cases rule: SyncFolder_stages)
  case (unpacks fs2 items)
  then have "tree_ok rc fs2" by (simp add: confined_def)
  from confined_trans [OF unpacks(1) sync_loop_confined [OF this unpacks(3)]] show ?thesis .
qed


subsection \<open>Paths that name a place below the root\<close>

lemma join_with_append:
  "xs \<noteq> [] \<Longrightarrow> ys \<noteq> [] \<Longrightarrow> join_with sep (xs @ ys) = join_with sep xs @ sep @ join_with sep ys"
proof (induction xs)
  case (Cons x xs)
  then show ?case by (cases xs; cases ys) simp_all
qed simp

lemma lexical_plain_path:
  assumes "plain cs" "cs \<noteq> []"
  shows "lexical rc (join_with [slash] cs) = rc @ cs"
proof -
  obtain c r where c: "cs = c # r" using assms(2) by (cases cs) auto
  with assms have "c \<noteq> ''''" "slash \<notin> set c" by (auto simp: plain_comp_def)
  then have "\<not> is_abs (join_with [slash] cs)" "join_with [slash] cs \<noteq> ''''"
    using c by (cases c; cases r; auto simp: is_abs_def has_prefix_def)+
  then show ?thesis
    using split_join [OF assms(2) plain_no_slash [OF assms(1)]] assms(1)
    by (simp add: lexical_def clean_comps_id)
qed

lemma resolve_plain_path:
  assumes "tree_ok rc fs" "plain cs" "cs \<noteq> []"
  shows "resolve fs (abs_path rc) (join_with [slash] cs) = Inr (abs_path (rc @ cs))"
proof -
  have rc: "root_ok rc fs" "plain (rc @ cs)" using assms(1,2) tree_okD by (auto simp: tree_ok_def)
  have pre: "hasRootPrefix (abs_path (rc @ cs)) (abs_path rc)"
    using tree_okD [OF assms(1)] assms(3)
    by (simp add: hasRootPrefix_def abs_path_def join_with_append)
  have "EvalSymlinks fs (abs_path (rc @ cs)) = Some (abs_path (rc @ cs)) \<or>
      EvalSymlinks fs (abs_path (rc @ cs)) = None"
    using walk_inside_root [OF assms(1) rc(2), of eval_links]
    by (auto simp: EvalSymlinks_def walk_abs_path [OF rc(2)] prefix_def)
  then show ?thesis
    using pre by (auto simp: resolve_lexical [OF rc(1)] lexical_plain_path [OF assms(2,3)] Let_def)
qed

lemma ReadFile_solid:
  "solid fs l \<Longrightarrow> node_at fs l = Some (NFile b m) \<Longrightarrow> ReadFile fs (abs_path l) = Inr b"
  by (simp add: ReadFile_def kernel_walk_abs walk_solid solid_def)

text \<open>Making directories and removing nothing: what is there stays.\<close>

definition extends :: "file_sys \<Rightarrow> file_sys \<Rightarrow> bool" where
  "extends fs fs' \<longleftrightarrow> (\<forall>l. node_at fs l \<noteq> None \<longrightarrow> node_at fs' l = node_at fs l)"

lemma extends_refl [simp]: "extends fs fs"
  by (simp add: extends_def)

lemma extends_trans: "extends a b \<Longrightarrow> extends b c \<Longrightarrow> extends a c"
  unfolding extends_def by metis

lemma mkdir_extends: "mkdir fs cs = Some fs' \<Longrightarrow> extends fs fs'"
  by (auto simp: mkdir_def extends_def node_at_put split: found.splits if_splits)

lemma mkdir_all_extends: "mkdir_all fs cs = (e, fs') \<Longrightarrow> extends fs fs'"
proof (induction fs cs arbitrary: e fs' rule: mkdir_all.induct)
  case (1 fs cs)
  show ?case
  proof (cases "Stat fs (abs_path cs) = None \<and> cs \<noteq> []")
    case False
    with 1(2) show ?thesis
      by (subst (asm) mkdir_all.simps) (auto split: option.splits node.splits)
  next
    case True
    obtain e1 fs1 where up: "mkdir_all fs (butlast cs) = (e1, fs1)" by (metis surj_pair)
    with True 1(1) have ext: "extends fs fs1" by auto
    from 1(2) True up have "fs' = fs1 \<or> mkdir fs1 cs = Some fs'"
      by (subst (asm) mkdir_all.simps)
        (auto split: option.splits found.splits if_splits)
    with ext mkdir_extends extends_trans show ?thesis by blast
  qed
qed

end
