(* ===== verification/FileSync.thy ===== *)
theory FileSync
  imports FileSafety
begin

text \<open>
  What a client sees of the file service: a written file reads back, a tree that was sent
  reads back entry by entry, a listing names every child by a path that resolves to it; and
  what the containment check promises and does not promise about symbolic links.
\<close>

subsection \<open>Relative names\<close>

lemma plain_join_start:
  assumes "plain cs" "cs \<noteq> []"
  shows "\<not> is_abs (join_with [slash] cs) \<and> join_with [slash] cs \<noteq> ''''"
proof -
  obtain c r where c: "cs = c # r" using assms(2) by (cases cs) auto
  with assms have "c \<noteq> ''''" "slash \<notin> set c" by (auto simp: plain_comp_def)
  then show ?thesis
    using c by (cases c; cases r) (auto simp: is_abs_def has_prefix_def)
qed

lemma Clean_plain_relative:
  assumes "plain cs" "cs \<noteq> []"
  shows "Clean (join_with [slash] cs) = join_with [slash] cs"
  using plain_join_start [OF assms] assms split_join [OF assms(2) plain_no_slash [OF assms(1)]]
  by (simp add: Clean_def Let_def clean_comps_id)

definition dest_comps :: "string \<Rightarrow> string list" where
  "dest_comps dest = (if dest = '''' \<or> dest = ''.'' then [] else split_slash dest)"

lemma trimDot_dest:
  assumes "plain (dest_comps dest)"
  shows "trimDot dest = join_with [slash] (dest_comps dest)"
proof (cases "dest = '''' \<or> dest = ''.''")
  case True
  then show ?thesis by (auto simp: trimDot_def dest_comps_def trim_prefix_def has_prefix_def)
next
  case False
  then have p: "plain (split_slash dest)" using assms by (simp add: dest_comps_def)
  have "\<not> has_prefix ''./'' dest"
  proof
    assume "has_prefix ''./'' dest"
    then obtain r where "dest = ''.'' @ slash # r"
      by (auto simp: has_prefix_iff slash_def)
    with p show False by (simp add: split_slash_append split_slash_single slash_def plain_comp_def)
  qed
  with False show ?thesis by (simp add: trimDot_def trim_prefix_def dest_comps_def join_split)
qed

lemma Join_two:
  assumes "plain (dest_comps dest)" "plain cs" "cs \<noteq> []"
  shows "Join [trimDot dest, join_with [slash] cs] = join_with [slash] (dest_comps dest @ cs)"
proof (cases "dest_comps dest = []")
  case True
  with assms plain_join_start [OF assms(2,3)] show ?thesis
    by (simp add: trimDot_dest Join_def Clean_plain_relative)
next
  case False
  with assms(3) have "join_with [slash] (dest_comps dest @ cs) =
      join_with [slash] (dest_comps dest) @ slash # join_with [slash] cs"
    by (simp add: join_with_append)
  with assms False plain_join_start [OF assms(2,3)] plain_join_start [OF assms(1) False]
    Clean_plain_relative [of "dest_comps dest @ cs"] show ?thesis
    by (simp add: trimDot_dest Join_def)
qed

subsection \<open>What an operation keeps\<close>

text \<open>Everything that was there stays, but for the content of the file \<open>pc\<close>.\<close>

definition keeps :: "loc \<Rightarrow> file_sys \<Rightarrow> file_sys \<Rightarrow> bool" where
  "keeps pc fs fs' \<longleftrightarrow> (\<forall>l nd. node_at fs l = Some nd \<and> (l \<noteq> pc \<or> nd = NDir) \<longrightarrow> node_at fs' l = Some nd)"

lemma extends_keeps: "extends fs fs' \<Longrightarrow> keeps pc fs fs'"
  unfolding extends_def keeps_def by (metis option.distinct(1))

lemma keeps_trans: "keeps pc a b \<Longrightarrow> keeps pc b c \<Longrightarrow> keeps pc a c"
  unfolding keeps_def by blast

lemma keeps_solid:
  assumes "keeps pc fs fs'" "solid fs l" "l \<noteq> pc"
  shows "solid fs' l \<and> node_at fs' l = node_at fs l"
proof -
  from assms(2) obtain nd where nd: "node_at fs l = Some nd" by (auto simp: solid_def)
  with assms(1,3) have same: "node_at fs' l = Some nd" by (auto simp: keeps_def)
  have "dirs_above fs' l"
    using assms(1,2) by (auto simp: keeps_def solid_def dirs_above_def)
  with same nd assms(2) show ?thesis by (simp add: solid_def)
qed

lemma open_write_keeps:
  assumes "tree_ok rc fs" "plain pc" "prefix rc pc" "open_write m data stop (abs_path pc) fs = (e, fs')"
  shows "keeps pc fs fs'"
proof -
  have ne: "pc \<noteq> []" using assms(1,3) tree_okD by auto
  have "fs' = fs \<or> (\<exists>b k. fs' = put_node pc (NFile b k) fs \<and> node_at fs pc \<noteq> Some NDir)"
    using walk_inside_root [OF assms(1-3), of kernel_links] assms(2,4)
    unfolding open_write_def kernel_walk_abs [OF assms(2)] Let_def
    by (elim disjE conjE) (auto split: option.splits node.splits; blast)+
  then show ?thesis by (auto simp: keeps_def node_at_put [OF ne])
qed

lemma MkdirAll_keeps: "MkdirAll p fs = (e, fs') \<Longrightarrow> keeps pc fs fs'"
  by (auto simp: MkdirAll_def intro: extends_keeps mkdir_all_extends)


subsection \<open>Unpacking, entry by entry\<close>

definition entry_comps :: "tar_entry \<Rightarrow> string list" where
  "entry_comps h = split_slash (t_Name h)"

definition placed :: "loc \<Rightarrow> string \<Rightarrow> tar_entry \<Rightarrow> loc" where
  "placed rc dest h = rc @ dest_comps dest @ entry_comps h"

text \<open>The file of the entry is there, with its content.\<close>

definition unpacked :: "loc \<Rightarrow> string \<Rightarrow> tar_entry \<Rightarrow> file_sys \<Rightarrow> bool" where
  "unpacked rc dest h fs \<longleftrightarrow> solid fs (placed rc dest h) \<and>
     (\<exists>m. node_at fs (placed rc dest h) = Some (NFile (t_Content h) m))"

lemma keeps_unpacked:
  "keeps pc fs fs' \<Longrightarrow> unpacked rc dest h fs \<Longrightarrow> placed rc dest h \<noteq> pc \<Longrightarrow> unpacked rc dest h fs'"
  unfolding unpacked_def using keeps_solid by metis

text \<open>The name of an entry with plain components is used as it is.\<close>

lemma entry_name:
  assumes "plain (entry_comps h)"
  shows "t_Name h = join_with [slash] (entry_comps h)" "entry_comps h \<noteq> []" "\<not> is_abs (t_Name h)"
    "t_Name h \<noteq> ''''" "t_Name h \<noteq> ''.''" "trim_prefix [slash] (t_Name h) = t_Name h"
proof -
  show name: "t_Name h = join_with [slash] (entry_comps h)" "entry_comps h \<noteq> []"
    by (simp_all add: entry_comps_def join_split)
  show "t_Name h \<noteq> ''.''"
  proof
    assume "t_Name h = ''.''"
    with assms show False
      by (simp add: entry_comps_def split_slash_single slash_def plain_comp_def)
  qed
  show abs: "\<not> is_abs (t_Name h)" "t_Name h \<noteq> ''''"
    using plain_join_start [OF assms name(2)] unfolding name(1) [symmetric] by simp_all
  from abs(1) show "trim_prefix [slash] (t_Name h) = t_Name h"
    by (simp add: trim_prefix_def is_abs_def)
qed

lemma sync_entry_effect:
  assumes "tree_ok rc fs" "plain (dest_comps dest)" "plain (entry_comps h)"
    and "sync_entry (abs_path rc) dest h fs = ((None, k), fs')"
  shows "keeps (placed rc dest h) fs fs' \<and> k = (if t_Type h = TypeReg then 1 else 0) \<and>
    (t_Type h = TypeReg \<longrightarrow> unpacked rc dest h fs')"
proof -
  let ?pc = "placed rc dest h"
  note name = entry_name(1,2) [OF assms(3)] and start = entry_name(3-5) [OF assms(3)]
    and trim = entry_name(6) [OF assms(3)]
  have pl: "plain ?pc" "prefix rc ?pc" "rc \<noteq> []"
    using assms(1-3) tree_okD [OF assms(1)] by (auto simp: placed_def)
  have res: "resolve fs (abs_path rc) (Join [trimDot dest, t_Name h]) = Inr (abs_path ?pc)"
    using resolve_plain_path [OF assms(1), of "dest_comps dest @ entry_comps h"] name(2) assms(2,3)
      Join_two [OF assms(2,3) name(2)] name(1)
    by (simp add: placed_def)
  note run = assms(4) [unfolded sync_entry.simps Let_def trim, simplified start res, simplified]
  show ?thesis
  proof (cases "t_Type h")
    case TypeDir
    with run MkdirAll_keeps [of "abs_path ?pc" fs None fs'] show ?thesis
      by (auto split: prod.splits)
  next
    case TypeReg
    obtain e1 fs1 where mk: "MkdirAll (Dir (abs_path ?pc)) fs = (e1, fs1)" by (metis surj_pair)
    with run TypeReg have e1: "e1 = None" by (cases e1) auto
    with run TypeReg mk have w: "open_write (file_mode (t_Mode h)) (t_Content h) (t_stop h) (abs_path ?pc) fs1
        = (None, fs')" "k = 1"
      by (auto split: if_splits prod.splits)
    have t1: "tree_ok rc fs1"
      using mkdir_parent_confined [OF assms(1) pl(1,2) mk] by (simp add: confined_def)
    show ?thesis
      using open_write_confined [OF t1 pl(1,2) w(1)] open_write_solid [OF t1 pl(1,2) w(1)]
        keeps_trans [OF MkdirAll_keeps [OF mk] open_write_keeps [OF t1 pl(1,2) w(1)]] w(2) TypeReg
      by (auto simp: unpacked_def)
  qed (use run in \<open>auto simp: keeps_def\<close>)
qed

lemma sync_loop_effect:
  assumes "tree_ok rc fs" "plain (dest_comps dest)" "list_all (\<lambda>h. plain (entry_comps h)) hs"
    and "sync_loop (abs_path rc) dest (map Header hs) n fs = ((k, None), fs')"
  shows "k = n + length (filter (\<lambda>h. t_Type h = TypeReg) hs) \<and>
    (\<forall>l. solid fs l \<and> l \<notin> placed rc dest ` set hs \<longrightarrow> solid fs' l \<and> node_at fs' l = node_at fs l) \<and>
    (distinct (map (placed rc dest) hs) \<longrightarrow>
      (\<forall>h \<in> set hs. t_Type h = TypeReg \<longrightarrow> unpacked rc dest h fs'))"
  using assms
proof (induction hs arbitrary: n fs)
  case (Cons h hs)
  obtain e j fs1 where e: "sync_entry (abs_path rc) dest h fs = ((e, j), fs1)" by (metis surj_pair)
  with Cons.prems(4) have none: "e = None" and
    rest: "sync_loop (abs_path rc) dest (map Header hs) (n + j) fs1 = ((k, None), fs')"
    by (auto simp del: sync_entry.simps split: if_splits)
  have t1: "tree_ok rc fs1"
    using sync_entry_confined [OF Cons.prems(1) e] by (simp add: confined_def)
  have eff: "keeps (placed rc dest h) fs fs1" "j = (if t_Type h = TypeReg then 1 else 0)"
    "t_Type h = TypeReg \<Longrightarrow> unpacked rc dest h fs1"
    using sync_entry_effect [OF Cons.prems(1,2) _ e [unfolded none]] Cons.prems(3) by auto
  have IH: "k = (n + j) + length (filter (\<lambda>h. t_Type h = TypeReg) hs)"
    "\<And>l. solid fs1 l \<Longrightarrow> l \<notin> placed rc dest ` set hs \<Longrightarrow> solid fs' l \<and> node_at fs' l = node_at fs1 l"
    "distinct (map (placed rc dest) hs) \<Longrightarrow> h' \<in> set hs \<Longrightarrow> t_Type h' = TypeReg \<Longrightarrow> unpacked rc dest h' fs'"
    for h'
    using Cons.IH [OF t1 Cons.prems(2) _ rest] Cons.prems(3) by auto
  have "unpacked rc dest h fs'" if "distinct (map (placed rc dest) (h # hs))" "t_Type h = TypeReg"
    using eff(3) [OF that(2)] IH(2) [of "placed rc dest h"] that(1) by (auto simp: unpacked_def)
  moreover have "solid fs' l \<and> node_at fs' l = node_at fs l"
    if "solid fs l" "l \<notin> placed rc dest ` set (h # hs)" for l
    using keeps_solid [OF eff(1) that(1)] IH(2) [of l] that(2) by auto
  ultimately show ?case using IH(1,3) eff(2) by auto
qed simp

lemma SyncFolder_effect:
  assumes "tree_ok rc fs" "plain (dest_comps dest)" "list_all (\<lambda>h. plain (entry_comps h)) hs"
    and "tarReader gz tar tarball = Some (map Header hs)"
    and "SyncFolder gz tar (abs_path rc) tarball dest clean fs = ((k, None), fs')"
  shows "k = length (filter (\<lambda>h. t_Type h = TypeReg) hs) \<and>
    (distinct (map entry_comps hs) \<longrightarrow> (\<forall>h \<in> set hs. t_Type h = TypeReg \<longrightarrow> unpacked rc dest h fs'))"
proof -
  let ?dest = "if dest = '''' then ''.'' else dest"
  have d: "dest_comps ?dest = dest_comps dest" by (simp add: dest_comps_def)
  obtain fs2 where c: "confined rc fs fs2"
    "sync_loop (abs_path rc) ?dest (map Header hs) 0 fs2 = ((k, None), fs')"
    using SyncFolder_stages [OF assms(1,5)] assms(4) by (metis option.inject snd_conv)
  then have "tree_ok rc fs2" by (simp add: confined_def)
  from sync_loop_effect [OF this _ assms(3) c(2)] assms(2) show ?thesis
    by (auto simp: d placed_def unpacked_def distinct_map inj_on_def)
qed


subsection \<open>Listing\<close>

definition names_ok :: "file_sys \<Rightarrow> bool" where
  "names_ok fs \<longleftrightarrow> list_all plain (map fst (nodes fs))"

lemma resolve_dest:
  assumes "tree_ok rc fs" "plain (dest_comps p)"
  shows "resolve fs (abs_path rc) p = Inr (abs_path (rc @ dest_comps p))"
proof (cases "dest_comps p = []")
  case True
  then have "p = '''' \<or> p = ''.''" by (auto simp: dest_comps_def split: if_splits)
  then have "lexical rc p = rc"
    by (auto simp: lexical_def is_abs_def has_prefix_def slash_def)
  then show ?thesis
    using assms(1) tree_okD [OF assms(1)] True
    by (simp add: resolve_lexical tree_ok_def EvalSymlinks_solid Let_def)
next
  case False
  then have "p = join_with [slash] (dest_comps p)" by (simp add: dest_comps_def join_split split: if_splits)
  with resolve_plain_path [OF assms False] show ?thesis by simp
qed

lemma rel_below:
  assumes "rc \<noteq> []" "cs \<noteq> []"
  shows "rel (abs_path rc) (abs_path (rc @ cs)) = (if join_with [slash] cs = '''' then ''.'' else join_with [slash] cs)"
proof -
  have "abs_path (rc @ cs) = abs_path rc @ [slash] @ join_with [slash] cs"
    using assms by (simp add: abs_path_def join_with_append)
  moreover have "\<not> has_prefix (CHR 0x5C # s) (abs_path l)" for s l
    by (auto simp: has_prefix_iff abs_path_def slash_def)
  then have "trim_prefix (CHR 0x5C # s) (abs_path l) = abs_path l" for s l
    by (simp add: trim_prefix_def)
  ultimately show ?thesis
    unfolding rel_def Let_def by (metis trim_prefix_append)
qed

lemma children_iff: "c \<in> set (children fs l) \<longleftrightarrow> node_at fs (l @ [c]) \<noteq> None"
proof -
  let ?keys = "fst ` set (nodes fs)"
  have key: "k \<noteq> [] \<and> butlast k = l \<and> last k = c \<longleftrightarrow> k = l @ [c]" for k
    by (cases k rule: rev_cases) auto
  have "c \<in> set (children fs l) \<longleftrightarrow> (\<exists>k \<in> ?keys. k \<noteq> [] \<and> butlast k = l \<and> last k = c)"
    by (auto simp: children_def)
  also have "\<dots> \<longleftrightarrow> l @ [c] \<in> ?keys" unfolding key by (rule bex_triv_one_point1)
  finally have "c \<in> set (children fs l) \<longleftrightarrow> l @ [c] \<in> ?keys" .
  then show ?thesis by (simp add: node_at_def map_of_eq_None_iff)
qed

lemma child_plain:
  assumes "names_ok fs" "node_at fs (l @ [c]) \<noteq> None"
  shows "plain_comp c"
proof -
  have "l @ [c] \<in> fst ` set (nodes fs)"
    using assms(2) by (simp add: node_at_def map_of_eq_None_iff)
  then have "plain (l @ [c])" using assms(1) unfolding names_ok_def list_all_iff by fastforce
  then show ?thesis by simp
qed

definition child_entry :: "file_sys \<Rightarrow> loc \<Rightarrow> loc \<Rightarrow> string \<Rightarrow> entry" where
  "child_entry fs rc cs c = (let n = node_at fs (rc @ cs @ [c]) in
     \<lparr>e_Path = join_with [slash] (cs @ [c]), e_Size = node_size fs (the n), e_IsDir = (n = Some NDir)\<rparr>)"

lemma directory_listing: "(if b then Inr (False, x) else Inr (True, y)) = Inr (True, es) \<Longrightarrow> es = y"
  by (simp split: if_splits)

lemma fList_directory:
  assumes "tree_ok rc fs" "names_ok fs" "plain (dest_comps p)"
    and "fList fs (abs_path rc) p = Inr (True, es)"
  shows "es = sort_key e_Path (map (child_entry fs rc (dest_comps p)) (children fs (rc @ dest_comps p)))"
proof -
  let ?cs = "dest_comps p"
  let ?l = "rc @ dest_comps p"
  have pl: "plain ?l" "prefix rc ?l" "rc \<noteq> []" using assms(1,3) tree_okD [OF assms(1)] by auto
  obtain l nd where st: "Stat fs (abs_path ?l) = Some (l, nd)"
    using assms(4) by (auto simp: fList_def resolve_dest [OF assms(1,3)] split: option.splits)
  have l: "l = ?l" using Stat_inside [OF assms(1) pl(1,2) st] by simp
  have one: "Join [abs_path ?l, c] = abs_path (?l @ [c]) \<and>
      rel (abs_path rc) (abs_path (?l @ [c])) = join_with [slash] (?cs @ [c])"
    if "c \<in> set (children fs ?l)" for c
  proof -
    have "node_at fs (?l @ [c]) \<noteq> None" using that by (simp only: children_iff not_False_eq_True)
    from child_plain [OF assms(2) this] have c: "plain [c]" by simp
    have "plain (?cs @ [c])" using c assms(3) by simp
    from plain_join_start [OF this] rel_below [OF pl(3), of "?cs @ [c]"] Join_abs_plain [OF pl(1) c]
    show ?thesis by simp
  qed
  have entries: "map (\<lambda>(c, n). \<lparr>e_Path = rel (abs_path rc) (Join [abs_path ?l, c]),
        e_Size = node_size fs n, e_IsDir = (n = NDir)\<rparr>)
      (List.map_filter (\<lambda>c. map_option (\<lambda>n. (c, n)) (node_at fs (?l @ [c]))) xs)
    = map (child_entry fs rc ?cs) xs" if "set xs \<subseteq> set (children fs ?l)" for xs
    using that
  proof (induction xs)
    case (Cons c xs)
    then obtain n where "node_at fs (?l @ [c]) = Some n" using children_iff by auto
    with Cons one [of c] show ?case
      by (auto simp: List.map_filter_simps child_entry_def Let_def)
  qed (simp add: List.map_filter_simps)
  have "es = sort_key e_Path (map (\<lambda>(c, n). \<lparr>e_Path = rel (abs_path rc) (Join [abs_path ?l, c]),
        e_Size = node_size fs n, e_IsDir = (n = NDir)\<rparr>)
      (List.map_filter (\<lambda>c. map_option (\<lambda>n. (c, n)) (node_at fs (?l @ [c]))) (children fs ?l)))"
    using assms(4) unfolding fList_def resolve_dest [OF assms(1,3)] st [unfolded l] sum.case option.case prod.case
    by (rule directory_listing)
  then show ?thesis unfolding entries [OF subset_refl] .
qed

lemma join_last_inj:
  assumes "plain cs" "plain_comp a" "plain_comp b"
    and "join_with [slash] (cs @ [a]) = join_with [slash] (cs @ [b])"
  shows "a = b"
proof -
  have "split_slash (join_with [slash] (cs @ [x])) = cs @ [x]" if "plain_comp x" for x
    by (rule split_join, simp, rule plain_no_slash, simp add: assms(1) that)
  from this [OF assms(2)] this [OF assms(3)] have "cs @ [a] = cs @ [b]"
    unfolding assms(4) by (rule trans [OF sym])
  then show ?thesis by simp
qed


section \<open>Properties\<close>

lemma write_effect:
  assumes "tree_ok rc fs" "plain (dest_comps path)"
    and "fWrite (abs_path rc) path data stop fs = (None, fs')"
  shows "keeps (rc @ dest_comps path) fs fs' \<and> fRead fs' (abs_path rc) path = Inr data"
proof -
  let ?pc = "rc @ dest_comps path"
  have pl: "plain ?pc" "prefix rc ?pc" using assms(1,2) tree_okD [OF assms(1)] by auto
  obtain e1 fs1 where mk: "MkdirAll (Dir (abs_path ?pc)) fs = (e1, fs1)" by (metis surj_pair)
  with assms(3) have e1: "e1 = None"
    by (cases e1) (simp_all add: fWrite_def resolve_dest [OF assms(1,2)])
  with assms(3) mk have w: "open_write 420 data stop (abs_path ?pc) fs1 = (None, fs')"
    by (simp add: fWrite_def resolve_dest [OF assms(1,2)] WriteFile_def)
  have t1: "tree_ok rc fs1" using mkdir_parent_confined [OF assms(1) pl mk] by (simp add: confined_def)
  from open_write_confined [OF t1 pl w] obtain m where
    new: "tree_ok rc fs'" "node_at fs' ?pc = Some (NFile data m)" by (auto simp: confined_def)
  have "fRead fs' (abs_path rc) path = Inr data"
    using ReadFile_solid [OF open_write_solid [OF t1 pl w] new(2)]
    by (simp add: fRead_def resolve_dest [OF new(1) assms(2)])
  with keeps_trans [OF MkdirAll_keeps [OF mk] open_write_keeps [OF t1 pl w]] show ?thesis by simp
qed

definition sample_fs :: file_sys where
  "sample_fs = \<lparr>nodes = [([''ws''], NDir), ([''ws'', ''log''], NFile ''one'' 420), ([''etc''], NDir),
      ([''etc'', ''key''], NFile ''secret'' 384)],
    cwd = [], eval_relative = (\<lambda>_. None), other_size = (\<lambda>_. 4096)\<rparr>"

definition linked_fs :: file_sys where
  "linked_fs = put_node [''ws'', ''out''] (NLink ''/etc'') sample_fs"

lemmas fs_eval = sample_fs_def linked_fs_def node_at_def put_node_def walk.simps(2) slash_def
  kernel_walk_def kernel_links_def eval_links_def EvalSymlinks_def Stat_def mkdir_def MkdirAll_def
  mkdir_all.simps abs_comps_def norm_comps_def abs_path_def is_abs_def has_prefix_def
  resolve_def Clean_def Join_def Dir_def trimDevicePrefix_def pathEqual_def hasRootPrefix_def
  fRead_def fWrite_def ReadFile_def WriteFile_def open_write_def Let_def trim_prefix_def

lemma plain_eval:
  "plain [''ws'']" "plain (dest_comps ''d/new'')" "plain (dest_comps ''.'')"
  by (simp_all add: plain_comp_def slash_def dest_comps_def)

lemma sample_ok: "tree_ok [''ws''] sample_fs"
  unfolding tree_ok_def root_ok_def solid_def dirs_above_def
  by (auto simp: sample_fs_def node_at_def plain_comp_def slash_def)

text \<open>
  C23. Reads stay in the workspace. Whatever path is asked for, and whatever symbolic links
  the workspace holds, the bytes \<open>Read\<close> returns are the content of a file that really lies
  below the root (a root that is a directory reached by no link).
\<close>

theorem read_stays_inside:
  assumes "root_ok rc fs" "fRead fs (abs_path rc) path = Inr data"
  shows "\<exists>l m. prefix rc l \<and> solid fs l \<and> node_at fs l = Some (NFile data m)"
proof -
  obtain p where p: "resolve fs (abs_path rc) path = Inr p" "ReadFile fs p = Inr data"
    using assms(2) by (auto simp: fRead_def split: sum.splits)
  then obtain l m where l: "kernel_walk fs p = Found l" "node_at fs l = Some (NFile data m)"
    by (auto simp: ReadFile_def split: found.splits option.splits node.splits)
  with resolved_found [OF assms(1) p(1) l(1)] show ?thesis by blast
qed

theorem read_stays_inside_witness:
  "\<exists>l m. prefix [''ws''] l \<and> solid linked_fs l \<and> node_at linked_fs l = Some (NFile ''one'' m)"
proof (rule read_stays_inside)
  show "root_ok [''ws''] linked_fs"
    unfolding root_ok_def solid_def dirs_above_def by (auto simp: fs_eval plain_comp_def)
  show "fRead linked_fs (abs_path [''ws'']) ''/etc/../ws/log'' = Inr ''one''"
    by (simp add: fs_eval)
qed


text \<open>
  C14. What is written reads back. In a workspace without symbolic links, a \<open>Write\<close> to a path
  of plain names that reports success leaves a file that \<open>Read\<close> of the same path returns
  byte for byte, with its parent directories; every other object of the file system, inside
  and outside the workspace, is as it was.
\<close>

theorem write_then_read_back:
  assumes "tree_ok rc fs" "plain (dest_comps path)"
    and "fWrite (abs_path rc) path data stop fs = (None, fs')"
  shows "fRead fs' (abs_path rc) path = Inr data \<and> keeps (rc @ dest_comps path) fs fs' \<and>
    confined rc fs fs'"
  using write_effect [OF assms] fWrite_confined [OF assms(1,3)] by blast

lemma sample_write: "fst (fWrite (abs_path [''ws'']) ''d/new'' ''two'' None sample_fs) = None"
  by (simp add: fs_eval)

theorem write_then_read_back_witness:
  "let fs' = snd (fWrite (abs_path [''ws'']) ''d/new'' ''two'' None sample_fs) in
     fRead fs' (abs_path [''ws'']) ''d/new'' = Inr ''two'' \<and>
     keeps [''ws'', ''d'', ''new''] sample_fs fs' \<and> confined [''ws''] sample_fs fs'"
  using write_then_read_back [OF sample_ok plain_eval(2) prod_eqI, of "''two''" None
    "snd (fWrite (abs_path [''ws'']) ''d/new'' ''two'' None sample_fs)"] sample_write
  by (simp add: Let_def dest_comps_def slash_def)

text \<open>
  C8. Unpacking stays in a workspace that holds no symbolic link. Whatever archive is sent to
  such a workspace, to whatever destination, with or without \<open>clean\<close>, and however unpacking
  ends, nothing outside the root changes, the root stays, and no link appears in it: an entry
  named \<open>../../etc/x\<close>, with an absolute name or of a link type has no way out, and archives
  alone never end the condition. Where a job has put a link to the outside into the workspace,
  the claim does not hold: \<open>archive_through_link_escapes\<close> shows a file created outside.
\<close>

theorem sync_is_confined:
  assumes "tree_ok rc fs"
    and "SyncFolder gz tar (abs_path rc) tarball dest clean fs = (r, fs')"
  shows "confined rc fs fs'"
  by (rule SyncFolder_confined [OF assms])

definition sample_entry :: "string \<Rightarrow> tar_type \<Rightarrow> bytes \<Rightarrow> tar_entry" where
  "sample_entry n t b = \<lparr>t_Name = n, t_Type = t, t_Mode = 436, t_Content = b, t_stop = None, t_open_ok = True\<rparr>"

definition sample_tree :: "tar_entry list" where
  "sample_tree = [sample_entry ''src'' TypeDir '''', sample_entry ''src/a'' TypeReg ''aa'',
    sample_entry ''l'' TypeSymlink '''', sample_entry ''b'' TypeReg ''bb'']"

definition sample_sync :: "tar_item list \<Rightarrow> string \<Rightarrow> (nat \<times> file_error option) \<times> file_sys" where
  "sample_sync items dest =
     SyncFolder (\<lambda>_. None) (\<lambda>_. items) (abs_path [''ws'']) ''tar'' dest True sample_fs"

lemmas sync_eval = sample_sync_def sample_tree_def sample_entry_def SyncFolder_def tarReader_def
  is_gzip_def clearDirContents_def children_def remove_tree_def trimDot_def file_mode_def

lemma evil_sync:
  "fst (sample_sync [Header (sample_entry ''../etc/key'' TypeReg ''mine'')] '''') = (0, Some ErrEscapes)"
  by (simp add: sync_eval fs_eval)

theorem sync_is_confined_witness:
  "confined [''ws''] sample_fs
     (snd (sample_sync [Header (sample_entry ''../etc/key'' TypeReg ''mine'')] '''')) \<and>
   fst (sample_sync [Header (sample_entry ''../etc/key'' TypeReg ''mine'')] '''') = (0, Some ErrEscapes)"
  using evil_sync sync_is_confined [OF sample_ok surjective_pairing]
  by (simp add: sample_sync_def)

text \<open>
  C25. A tree that was sent reads back. When unpacking an archive of plainly named entries,
  no two with one name, reports success, the number it returns is the number of regular
  files in the archive and every regular file of the archive is in the workspace, with its
  content, at its own name below the destination.
\<close>

theorem synced_tree_reads_back:
  assumes "tree_ok rc fs" "plain (dest_comps dest)" "list_all (\<lambda>h. plain (entry_comps h)) hs"
    and "distinct (map entry_comps hs)" "tarReader gz tar tarball = Some (map Header hs)"
    and "SyncFolder gz tar (abs_path rc) tarball dest clean fs = ((k, None), fs')"
  shows "k = length (filter (\<lambda>h. t_Type h = TypeReg) hs) \<and>
    (\<forall>h \<in> set hs. t_Type h = TypeReg \<longrightarrow>
       fRead fs' (abs_path rc) (join_with [slash] (dest_comps dest @ entry_comps h)) = Inr (t_Content h))"
proof -
  have t: "tree_ok rc fs'" using SyncFolder_confined [OF assms(1,6)] by (simp add: confined_def)
  have "fRead fs' (abs_path rc) (join_with [slash] (dest_comps dest @ entry_comps h)) = Inr (t_Content h)"
    if "h \<in> set hs" "unpacked rc dest h fs'" for h
  proof -
    have "plain (dest_comps dest @ entry_comps h)" "dest_comps dest @ entry_comps h \<noteq> []"
      using assms(2,3) that(1) by (auto simp: list_all_iff entry_comps_def)
    from resolve_plain_path [OF t this] that(2) show ?thesis
      by (auto simp: fRead_def unpacked_def placed_def ReadFile_solid)
  qed
  with SyncFolder_effect [OF assms(1,2,3,5,6)] assms(4) show ?thesis by blast
qed

lemma plain_new: "plain (dest_comps ''new'')"
  by (simp add: dest_comps_def plain_comp_def slash_def)

lemma sample_synced: "fst (sample_sync (map Header sample_tree) ''new'') = (2, None)"
  by (simp add: sync_eval fs_eval)

theorem synced_tree_reads_back_witness:
  "fRead (snd (sample_sync (map Header sample_tree) ''new'')) (abs_path [''ws'']) ''new/src/a'' = Inr ''aa'' \<and>
   fRead (snd (sample_sync (map Header sample_tree) ''new'')) (abs_path [''ws'']) ''new/b'' = Inr ''bb''"
proof -
  have d: "dest_comps ''new'' = [''new'']" by (simp add: dest_comps_def slash_def)
  have "SyncFolder (\<lambda>_. None) (\<lambda>_. map Header sample_tree) (abs_path [''ws'']) ''tar'' ''new'' True sample_fs
      = ((2, None), snd (sample_sync (map Header sample_tree) ''new''))"
    using sample_synced unfolding sample_sync_def by (metis prod.collapse)
  moreover have "list_all (\<lambda>h. plain (entry_comps h)) sample_tree" "distinct (map entry_comps sample_tree)"
    by (simp_all add: sample_tree_def sample_entry_def entry_comps_def plain_comp_def slash_def)
  moreover have "tarReader (\<lambda>_. None) (\<lambda>_. map Header sample_tree) ''tar'' = Some (map Header sample_tree)"
    by (simp add: tarReader_def is_gzip_def)
  ultimately have "\<forall>h \<in> set sample_tree. t_Type h = TypeReg \<longrightarrow>
      fRead (snd (sample_sync (map Header sample_tree) ''new'')) (abs_path [''ws''])
        (join_with [slash] ([''new''] @ entry_comps h)) = Inr (t_Content h)"
    using synced_tree_reads_back [OF sample_ok] d by (metis plain_new)
  then have read: "h \<in> set sample_tree \<Longrightarrow> t_Type h = TypeReg \<Longrightarrow>
      fRead (snd (sample_sync (map Header sample_tree) ''new'')) (abs_path [''ws''])
        (join_with [slash] ([''new''] @ entry_comps h)) = Inr (t_Content h)" for h
    by blast
  have "sample_entry ''src/a'' TypeReg ''aa'' \<in> set sample_tree" "sample_entry ''b'' TypeReg ''bb'' \<in> set sample_tree"
    by (simp_all add: sample_tree_def)
  from read [OF this(1)] read [OF this(2)] show ?thesis
    unfolding sample_entry_def by (simp add: entry_comps_def slash_def)
qed


text \<open>
  A listing names the children. In a workspace without symbolic links, listing a directory
  yields exactly one entry for each child, with its size and whether it is a directory, in
  strictly increasing order of their paths, and every path listed is accepted by the service
  and leads to the child it was made for.
\<close>

theorem listing_names_the_children:
  assumes "tree_ok rc fs" "names_ok fs" "plain (dest_comps path)"
    and "fList fs (abs_path rc) path = Inr (True, es)"
  shows "set es = child_entry fs rc (dest_comps path) ` {c. node_at fs (rc @ dest_comps path @ [c]) \<noteq> None} \<and>
    sorted_wrt (<) (map e_Path es) \<and>
    (\<forall>c. node_at fs (rc @ dest_comps path @ [c]) \<noteq> None \<longrightarrow>
      resolve fs (abs_path rc) (e_Path (child_entry fs rc (dest_comps path) c))
        = Inr (abs_path (rc @ dest_comps path @ [c])))"
proof -
  let ?cs = "dest_comps path"
  let ?entry = "child_entry fs rc ?cs"
  let ?kids = "children fs (rc @ ?cs)"
  note es = fList_directory [OF assms]
  have kid: "c \<in> set ?kids \<longleftrightarrow> node_at fs (rc @ ?cs @ [c]) \<noteq> None" for c
    using children_iff [of c fs "rc @ ?cs"] by simp
  have pc: "plain_comp c" if "node_at fs (rc @ ?cs @ [c]) \<noteq> None" for c
    using child_plain [OF assms(2), of "rc @ ?cs" c] that by simp
  have path: "e_Path (?entry c) = join_with [slash] (?cs @ [c])" for c
    by (simp add: child_entry_def Let_def)
  have inj: "inj_on (e_Path \<circ> ?entry) (set ?kids)"
    by (rule inj_onI) (use join_last_inj [OF assms(3)] pc kid path in auto)
  have "distinct ?kids" by (simp add: children_def)
  with inj have "distinct (map (e_Path \<circ> ?entry) ?kids)" unfolding distinct_map by blast
  moreover have "mset (map e_Path es) = mset (map (e_Path \<circ> ?entry) ?kids)"
    by (simp add: es image_mset.compositionality)
  ultimately have "distinct (map e_Path es)" using mset_eq_imp_distinct_iff by blast
  moreover have "sorted (map e_Path es)" by (simp add: es)
  ultimately have "sorted_wrt (<) (map e_Path es)" by (simp add: strict_sorted_iff)
  moreover have "set es = ?entry ` {c. node_at fs (rc @ ?cs @ [c]) \<noteq> None}"
    unfolding kid [symmetric] by (simp add: es)
  moreover have "resolve fs (abs_path rc) (e_Path (?entry c)) = Inr (abs_path (rc @ ?cs @ [c]))"
    if "node_at fs (rc @ ?cs @ [c]) \<noteq> None" for c
    using resolve_plain_path [OF assms(1), of "?cs @ [c]"] pc [OF that] assms(3) by (simp add: path)
  ultimately show ?thesis by blast
qed

lemma sample_kids: "children sample_fs [''ws''] = [''log'']"
  by (simp add: children_def sample_fs_def)

lemma sample_node: "node_at sample_fs [''ws'', ''log''] = Some (NFile ''one'' 420)"
  by (simp add: node_at_def sample_fs_def)

theorem listing_names_the_children_witness:
  "\<exists>es. fList sample_fs (abs_path [''ws'']) '''' = Inr (True, es) \<and>
     set es = {\<lparr>e_Path = ''log'', e_Size = 3, e_IsDir = False\<rparr>}"
proof -
  let ?es = "[\<lparr>e_Path = ''log'', e_Size = 3, e_IsDir = False\<rparr>]"
  have l: "fList sample_fs (abs_path [''ws'']) '''' = Inr (True, ?es)"
    using resolve_dest [OF sample_ok, of "''''"] Stat_root [OF sample_ok] sample_kids
      Join_abs_plain [of "[''ws'']" "[''log'']"] rel_below [of "[''ws'']" "[''log'']"]
    by (simp add: fList_def dest_comps_def node_size_def sample_node plain_comp_def slash_def)
  have n: "names_ok sample_fs"
    by (simp add: names_ok_def sample_fs_def plain_comp_def slash_def)
  have e: "plain (dest_comps '''')" "dest_comps '''' = []" by (simp_all add: dest_comps_def)
  have "{c. node_at sample_fs ([''ws''] @ dest_comps '''' @ [c]) \<noteq> None} = {''log''}"
    by (auto simp: e sample_fs_def node_at_def split: if_splits)
  with listing_names_the_children [OF sample_ok n e(1) l] have
    "set ?es = child_entry sample_fs [''ws''] [] ` {''log''}" by (simp only: e)
  also have "\<dots> = {\<lparr>e_Path = ''log'', e_Size = 3, e_IsDir = False\<rparr>}"
    by (simp add: child_entry_def sample_fs_def node_at_def node_size_def)
  finally show ?thesis using l by blast
qed

definition moved_fs :: file_sys where
  "moved_fs = put_node [''home''] (NLink ''/ws'') sample_fs"

end
