(* ===== verification/Service.thy ===== *)
theory Service
  imports JobEnd Access FileSync
begin

text \<open>
  The RPC service, \<open>internal/service.go\<close>: each handler takes the message and the worker's
  state and returns a response or a Connect error with a code, and the new state. What is
  not decided by the worker is an argument: the clock, random bytes, whether a database call
  succeeds, whether the stream accepts an event, whether the context is cancelled at a check,
  the texts of operating-system errors. \<open>WatchJob\<close> outlives many steps of its job: the job when
  each ring is copied, when it is looked up and when it has ended, and the lines received in
  between, are arguments, and theory Watch takes them from the states of one run.
\<close>

subsection \<open>The service's state\<close>

record worker =
  w_jobs :: manager
  w_files :: string
  w_fs :: file_sys
  w_bootID :: string

definition NewService :: "manager \<Rightarrow> string \<Rightarrow> file_sys \<Rightarrow> (nat \<Rightarrow> byte) \<Rightarrow> worker" where
  "NewService m root fs b =
     \<lparr>w_jobs = m, w_files = root, w_fs = fs, w_bootID = hex_encode (map b [0..<16])\<rparr>"

definition BootID :: "worker \<Rightarrow> string" where
  "BootID w = w_bootID w"

record info_response =
  info_Os :: string
  info_Arch :: string
  info_Shell :: string
  info_Workspace :: string
  info_BootId :: string

definition Info :: "string \<Rightarrow> string \<Rightarrow> worker \<Rightarrow> info_response" where
  "Info goos goarch w =
     \<lparr>info_Os = goos, info_Arch = goarch, info_Shell = ''builtin(mvdan-sh)'',
      info_Workspace = w_files w, info_BootId = w_bootID w\<rparr>"

definition put_job :: "string \<Rightarrow> job \<Rightarrow> worker \<Rightarrow> worker" where
  "put_job i j w = w\<lparr>w_jobs := (w_jobs w)\<lparr>m_jobs := AList.update i j (m_jobs (w_jobs w))\<rparr>\<rparr>"

text \<open>\<open>fmt\<close>'s \<open>%q\<close> is a parameter.\<close>

definition get_error_text :: "(string \<Rightarrow> string) \<Rightarrow> string \<Rightarrow> string" where
  "get_error_text quote i = ''job '' @ quote i @ '' not found''"

definition not_found :: rpc_error where
  "not_found = RpcError CodeNotFound ''job not found''"

subsection \<open>Jobs\<close>

record execute_request =
  ex_Command :: string
  ex_Workdir :: string
  ex_Env :: "string \<rightharpoonup> string"

definition svc_Execute ::
  "(nat \<Rightarrow> byte) \<Rightarrow> int \<Rightarrow> bool \<Rightarrow> execute_request \<Rightarrow> worker \<Rightarrow> (rpc_error + string) \<times> worker" where
  "svc_Execute b now enqueue_ok req w =
     (if ex_Command req = '''' then (Inl (RpcError CodeInvalidArgument ''command required''), w)
      else let (i, m) = Execute b now enqueue_ok (ex_Command req) (w_jobs w)
           in (Inr i, w\<lparr>w_jobs := m\<rparr>))"

definition svc_ListJobs ::
  "(job_row list \<Rightarrow> job_row list) \<Rightarrow> (job_row list \<Rightarrow> job_row list) \<Rightarrow> bool \<Rightarrow> worker \<Rightarrow> job_row list" where
  "svc_ListJobs sql_ord go_ord ok w = ListJobs sql_ord go_ord ok 500 (w_jobs w)"

definition tailOf :: "bool \<Rightarrow> string \<Rightarrow> int \<Rightarrow> manager \<Rightarrow> string" where
  "tailOf ok i st m =
     (case MergedRecs ok i st m of
        Inl _ \<Rightarrow> ''''
      | Inr rs \<Rightarrow> join_with [LF] (lines_text (lastn 50 rs)))"

text \<open>
  The server stream is the list of events sent so far; \<open>ok n\<close> tells whether the \<open>n\<close>-th
  \<open>Send\<close> succeeds.
\<close>

datatype watch_event =
    Output string
  | DoneEvent (done_ExitCode: int) (done_Stdout: string) (done_Stderr: string)

datatype watch_end = WatchOK | WatchError rpc_error | SendFailed | CtxErr | WatchWaits

definition stream_send :: "(nat \<Rightarrow> bool) \<Rightarrow> watch_event \<Rightarrow> watch_event list \<Rightarrow> bool \<times> watch_event list" where
  "stream_send ok ev sent = (if ok (length sent) then (True, sent @ [ev]) else (False, sent))"

fun send_lines :: "(nat \<Rightarrow> bool) \<Rightarrow> string list \<Rightarrow> watch_event list \<Rightarrow> bool \<times> watch_event list" where
  "send_lines ok [] sent = (True, sent)"
| "send_lines ok (l # ls) sent =
     (let (b, sent1) = stream_send ok (Output l) sent in
      if b then send_lines ok ls sent1 else (False, sent1))"

text \<open>
  The loop over the live channel: \<open>ls\<close> are the lines it yields, after which it is closed or
  yields nothing more; \<open>ctx n\<close> is whether the request is cancelled after \<open>n\<close> events.
\<close>

fun live_loop ::
  "(nat \<Rightarrow> bool) \<Rightarrow> (nat \<Rightarrow> bool) \<Rightarrow> string list \<Rightarrow> bool \<Rightarrow> watch_event list \<Rightarrow> watch_end option \<times> watch_event list"
where
  "live_loop ok ctx [] closed sent = (if closed then None else Some WatchWaits, sent)"
| "live_loop ok ctx (l # ls) closed sent =
     (let (b, sent1) = stream_send ok (Output l) sent in
      if \<not> b then (Some SendFailed, sent1)
      else if ctx (length sent1) then (Some CtxErr, sent1)
      else live_loop ok ctx ls closed sent1)"

definition replayCap :: nat where "replayCap = 1000"

definition send_done :: "(nat \<Rightarrow> bool) \<Rightarrow> watch_event \<Rightarrow> watch_event list \<Rightarrow> watch_end \<times> watch_event list" where
  "send_done ok ev sent =
     (let (b, sent1) = stream_send ok ev sent in (if b then WatchOK else SendFailed, sent1))"

text \<open>
  \<open>row_ok\<close> and \<open>lines_ok n\<close> are the outcomes of the database calls; \<open>fin\<close> is the job when
  its result is read.
\<close>

definition watch_stored ::
  "(nat \<Rightarrow> bool) \<Rightarrow> bool \<Rightarrow> (nat \<Rightarrow> bool) \<Rightarrow> string \<Rightarrow> manager \<Rightarrow> watch_end \<times> watch_event list" where
  "watch_stored ok row_ok lines_ok i m =
     (case QueryJob row_ok i (m_store m) of
        Inr (Some row) \<Rightarrow>
          (let (b, sent) = send_lines ok (ReplayTail (lines_ok 0) i replayCap m) [] in
           if \<not> b then (SendFailed, sent)
           else send_done ok (DoneEvent (row_ExitCode row) (tailOf (lines_ok 1) i StreamStdout m)
                  (tailOf (lines_ok 2) i StreamStderr m)) sent)
      | _ \<Rightarrow> (WatchError not_found, []))"

definition done_of_result :: "result \<Rightarrow> watch_event" where
  "done_of_result r = DoneEvent (res_ExitCode r) (res_Stdout r) (res_Stderr r)"

definition watch_live ::
  "(nat \<Rightarrow> bool) \<Rightarrow> (nat \<Rightarrow> bool) \<Rightarrow> string list \<Rightarrow> bool \<Rightarrow> job \<Rightarrow> string list \<Rightarrow> nat option \<Rightarrow> watch_end \<times> watch_event list"
where
  "watch_live ok ctx ls closed fin replay live =
     (let (b, sent) = send_lines ok replay [] in
      if \<not> b then (SendFailed, sent)
      else case (case live of None \<Rightarrow> (None, sent) | Some _ \<Rightarrow> live_loop ok ctx ls closed sent) of
        (Some e, sent1) \<Rightarrow> (e, sent1)
      | (None, sent1) \<Rightarrow> send_done ok (done_of_result (Result fin)) sent1)"

text \<open>\<open>jo\<close> and \<open>je\<close> are the job when \<open>Subscribe\<close> copies its two rings.\<close>

definition WatchJob ::
  "(nat \<Rightarrow> bool) \<Rightarrow> (nat \<Rightarrow> bool) \<Rightarrow> bool \<Rightarrow> (nat \<Rightarrow> bool) \<Rightarrow> job \<Rightarrow> job \<Rightarrow> string list \<Rightarrow> bool \<Rightarrow> job
     \<Rightarrow> string \<Rightarrow> worker \<Rightarrow> (watch_end \<times> watch_event list) \<times> worker" where
  "WatchJob ok ctx row_ok lines_ok jo je ls closed fin i w =
     (if i = '''' then ((WatchError (RpcError CodeInvalidArgument ''job_id required''), []), w)
      else case Get i (w_jobs w) of
        None \<Rightarrow> (watch_stored ok row_ok lines_ok i (w_jobs w), w)
      | Some j \<Rightarrow>
          (let ((replay, live), j') = Subscribe jo je j
           in (watch_live ok ctx ls closed fin replay live, put_job i j' w)))"


definition streamOf :: "string \<Rightarrow> int" where
  "streamOf s =
     (if s = ''stdout'' then StreamStdout else if s = ''stderr'' then StreamStderr else - 1)"

text \<open>The outer option is the panic of a slice out of range.\<close>

definition JobOutput ::
  "string \<Rightarrow> bool \<Rightarrow> bool \<Rightarrow> string \<Rightarrow> string \<Rightarrow> int \<Rightarrow> int \<Rightarrow> worker \<Rightarrow> (rpc_error + output_page) option" where
  "JobOutput db_error lines_ok job_ok i stream start end0 w =
     (if i = '''' then Some (Inl (RpcError CodeInvalidArgument ''job_id required''))
      else case OutputLines lines_ok job_ok i (streamOf stream) start end0 (w_jobs w) of
        Inl QueryFailed \<Rightarrow> Some (Inl (RpcError CodeNotFound db_error))
      | Inl SlicePanic \<Rightarrow> None
      | Inr page \<Rightarrow> Some (Inr page))"

subsection \<open>Waiting\<close>

text \<open>Durations are in nanoseconds, as in \<open>time.Duration\<close>.\<close>

definition millisecond :: int where "millisecond = 1000000"
definition jobWaitMax :: int where "jobWaitMax = 60 * 1000 * millisecond"
definition wait_tick :: int where "wait_tick = 25 * millisecond"

definition wait_iters :: "int \<Rightarrow> int" where
  "wait_iters timeoutMs =
     (let timeout = timeoutMs * millisecond;
          timeout = (if timeout \<le> 0 \<or> timeout > jobWaitMax then jobWaitMax else timeout);
          iters = timeout div wait_tick
      in if iters < 1 then 1 else iters)"

datatype wake = WakeDone | WakeCtx rpc_error | WakeTick

record wait_response =
  wr_State :: job_state
  wr_ExitCode :: int

text \<open>
  The poll loop. \<open>snap n\<close> is the job when the loop looks at it for the \<open>n\<close>-th time and
  \<open>wakes n\<close> what ends the wait after that, the error of a cancelled request included; the
  result's second part counts the waits.
\<close>

function wait_loop ::
  "(nat \<Rightarrow> job) \<Rightarrow> (nat \<Rightarrow> wake) \<Rightarrow> int \<Rightarrow> nat \<Rightarrow> (rpc_error + wait_response) \<times> nat" where
  "wait_loop snap wakes iters n =
     (let j = snap n in
      if j_done j then (Inr \<lparr>wr_State = j_State j, wr_ExitCode = res_ExitCode (Result j)\<rparr>, n)
      else if int n \<ge> iters then (Inr \<lparr>wr_State = j_State j, wr_ExitCode = j_ExitCode j\<rparr>, n)
      else case wakes n of
        WakeCtx e \<Rightarrow> (Inl e, Suc n)
      | _ \<Rightarrow> wait_loop snap wakes iters (Suc n))"
  by pat_completeness auto
termination
  by (relation "measure (\<lambda>(snap, wakes, iters, n). nat iters - n)") auto

declare wait_loop.simps [simp del]

definition JobWait ::
  "bool \<Rightarrow> (nat \<Rightarrow> job) \<Rightarrow> (nat \<Rightarrow> wake) \<Rightarrow> string \<Rightarrow> int \<Rightarrow> worker \<Rightarrow> (rpc_error + wait_response) \<times> nat" where
  "JobWait row_ok snap wakes i timeoutMs w =
     (case Get i (w_jobs w) of
        None \<Rightarrow>
          (case QueryJob row_ok i (m_store (w_jobs w)) of
             Inr (Some row) \<Rightarrow> (Inr \<lparr>wr_State = row_State row, wr_ExitCode = row_ExitCode row\<rparr>, 0)
           | _ \<Rightarrow> (Inl not_found, 0))
      | Some _ \<Rightarrow> wait_loop snap wakes (wait_iters timeoutMs) 0)"

subsection \<open>Standard input and kill\<close>

definition JobStdin ::
  "(string \<Rightarrow> string) \<Rightarrow> string \<Rightarrow> bytes \<Rightarrow> bool \<Rightarrow> nat \<Rightarrow> worker \<Rightarrow> (rpc_error + bool) \<times> worker" where
  "JobStdin quote i data closeAfter taken w =
     (case Get i (w_jobs w) of
        None \<Rightarrow> (Inl (RpcError CodeNotFound (get_error_text quote i)), w)
      | Some j \<Rightarrow>
          (let (err, j') = Stdin data closeAfter taken j in
           (if err \<noteq> None then Inl (RpcError CodeFailedPrecondition ''io: read/write on closed pipe'')
            else Inr True, put_job i j' w)))"

definition JobKill :: "(string \<Rightarrow> string) \<Rightarrow> string \<Rightarrow> worker \<Rightarrow> (rpc_error + bool) \<times> worker" where
  "JobKill quote i w =
     (case Get i (w_jobs w) of
        None \<Rightarrow> (Inl (RpcError CodeNotFound (get_error_text quote i)), w)
      | Some j \<Rightarrow> (Inr True, put_job i (Kill j) w))"

subsection \<open>Files\<close>

definition FileRead :: "(file_error \<Rightarrow> string) \<Rightarrow> string \<Rightarrow> worker \<Rightarrow> rpc_error + bytes" where
  "FileRead etext path w =
     (if path = '''' then Inl (RpcError CodeInvalidArgument ''path required'')
      else case fRead (w_fs w) (w_files w) path of
        Inl e \<Rightarrow> Inl (RpcError CodeNotFound (etext e))
      | Inr data \<Rightarrow> Inr data)"

definition FileWrite ::
  "(file_error \<Rightarrow> string) \<Rightarrow> string \<Rightarrow> bytes \<Rightarrow> nat option \<Rightarrow> worker \<Rightarrow> (rpc_error + bool) \<times> worker" where
  "FileWrite etext path content stop w =
     (if path = '''' then (Inl (RpcError CodeInvalidArgument ''path required''), w)
      else case fWrite (w_files w) path content stop (w_fs w) of
        (Some e, fs) \<Rightarrow> (Inl (RpcError CodeInternal (etext e)), w\<lparr>w_fs := fs\<rparr>)
      | (None, fs) \<Rightarrow> (Inr True, w\<lparr>w_fs := fs\<rparr>))"

definition FileList :: "(file_error \<Rightarrow> string) \<Rightarrow> string \<Rightarrow> worker \<Rightarrow> rpc_error + bool \<times> entry list" where
  "FileList etext path w =
     (case fList (w_fs w) (w_files w) path of
        Inl e \<Rightarrow> Inl (RpcError CodeNotFound (etext e))
      | Inr r \<Rightarrow> Inr r)"

definition svc_SyncFolder ::
  "(bytes \<Rightarrow> tar_item list option) \<Rightarrow> (bytes \<Rightarrow> tar_item list) \<Rightarrow> (file_error \<Rightarrow> string)
     \<Rightarrow> bytes \<Rightarrow> string \<Rightarrow> bool \<Rightarrow> worker \<Rightarrow> (rpc_error + int \<times> string) \<times> worker" where
  "svc_SyncFolder gz tar etext tarball dest clean w =
     (case SyncFolder gz tar (w_files w) tarball dest clean (w_fs w) of
        ((n, Some e), fs) \<Rightarrow> (Inl (RpcError CodeInternal (etext e)), w\<lparr>w_fs := fs\<rparr>)
      | ((n, None), fs) \<Rightarrow> (Inr (int32 (int n), w_files w), w\<lparr>w_fs := fs\<rparr>))"

end
