(* ===== verification/Watch.thy ===== *)
theory Watch
  imports Service
begin

text \<open>
  The RPC service composed with the life of a job: what a watcher of a job receives, how
  long a waiter waits and what it is told, and that the live and the stored answers agree.
\<close>

subsection \<open>The stream\<close>

lemma send_lines_all: "send_lines (\<lambda>_. True) ls sent = (True, sent @ map Output ls)"
  by (induction ls arbitrary: sent) (simp_all add: stream_send_def)

lemma live_loop_all: "live_loop (\<lambda>_. True) (\<lambda>_. False) ls True sent = (None, sent @ map Output ls)"
  by (induction ls arbitrary: sent) (simp_all add: stream_send_def)

lemma send_lines_spec:
  "send_lines ok ls sent = (b, sent') \<Longrightarrow>
   (b \<longleftrightarrow> (\<forall>k < length ls. ok (length sent + k))) \<and> (b \<longrightarrow> sent' = sent @ map Output ls) \<and>
   (\<not> b \<longrightarrow> (\<exists>k < length ls. sent' = sent @ map Output (take k ls) \<and> \<not> ok (length sent')))"
proof (induction ls arbitrary: sent)
  case (Cons l ls)
  show ?case
  proof (cases "ok (length sent)")
    case True
    with Cons.prems have "send_lines ok ls (sent @ [Output l]) = (b, sent')"
      by (simp add: stream_send_def)
    note IH = Cons.IH [OF this]
    have "(\<forall>k < length (l # ls). ok (length sent + k)) \<longleftrightarrow> (\<forall>k < length ls. ok (length sent + Suc k))"
      using True by (auto simp: All_less_Suc2)
    moreover have "\<exists>k < length (l # ls). sent' = sent @ map Output (take k (l # ls)) \<and> \<not> ok (length sent')"
      if "\<not> b"
    proof -
      from IH that obtain k where "k < length ls" "sent' = (sent @ [Output l]) @ map Output (take k ls)"
        "\<not> ok (length sent')" by blast
      then show ?thesis by (intro exI [of _ "Suc k"]) simp
    qed
    ultimately show ?thesis using IH by simp
  next
    case False
    with Cons.prems have "\<not> b" "sent' = sent @ map Output (take 0 (l # ls))" by (simp_all add: stream_send_def)
    with False show ?thesis by (intro conjI) (fastforce, blast, fastforce)
  qed
qed simp

text \<open>The loop over the channel of \<open>n\<close> lines ended with \<open>e\<close> after \<open>k\<close> of them, \<open>b\<close> events sent before.\<close>

fun loop_end :: "(nat \<Rightarrow> bool) \<Rightarrow> (nat \<Rightarrow> bool) \<Rightarrow> bool \<Rightarrow> nat \<Rightarrow> nat \<Rightarrow> nat \<Rightarrow> watch_end option \<Rightarrow> bool" where
  "loop_end ok ctx closed n b k None = (k = n)"
| "loop_end ok ctx closed n b k (Some SendFailed) = (k < n \<and> \<not> ok (b + k))"
| "loop_end ok ctx closed n b k (Some CtxErr) = (0 < k \<and> ctx (b + k))"
| "loop_end ok ctx closed n b k (Some WatchWaits) = (\<not> closed \<and> k = n)"
| "loop_end ok ctx closed n b k (Some e) = False"

lemma loop_end_Suc: "loop_end ok ctx closed n (Suc b) k e \<Longrightarrow> loop_end ok ctx closed (Suc n) b (Suc k) e"
  by (cases "(ok, ctx, closed, n, Suc b, k, e)" rule: loop_end.cases) simp_all

lemma live_loop_spec:
  "live_loop ok ctx ls closed sent = (e, sent') \<Longrightarrow>
   (e = None \<longleftrightarrow> closed \<and> (\<forall>k < length ls. ok (length sent + k) \<and> \<not> ctx (length sent + Suc k))) \<and>
   (\<exists>k \<le> length ls. sent' = sent @ map Output (take k ls) \<and> loop_end ok ctx closed (length ls) (length sent) k e)"
proof (induction ls arbitrary: sent)
  case (Cons l ls)
  consider (failed) "\<not> ok (length sent)" | (cancelled) "ok (length sent)" "ctx (Suc (length sent))"
    | (sent) "ok (length sent)" "\<not> ctx (Suc (length sent))" by blast
  then show ?case
  proof cases
    case failed
    with Cons.prems have "e = Some SendFailed" "sent' = sent @ map Output (take 0 (l # ls))"
      by (auto simp: stream_send_def)
    with failed show ?thesis by (intro conjI exI [of _ 0]) auto
  next
    case cancelled
    with Cons.prems have "e = Some CtxErr" "sent' = sent @ map Output (take 1 (l # ls))"
      by (auto simp: stream_send_def)
    with cancelled show ?thesis by (intro conjI exI [of _ 1]) auto
  next
    case go: sent
    with Cons.prems have "live_loop ok ctx ls closed (sent @ [Output l]) = (e, sent')"
      by (simp add: stream_send_def)
    note IHs = Cons.IH [OF this]
    from conjunct1 [OF IHs] have
      IH: "e = None \<longleftrightarrow> closed \<and> (\<forall>k < length ls. ok (length sent + Suc k) \<and> \<not> ctx (length sent + Suc (Suc k)))"
      by simp
    from conjunct2 [OF IHs] obtain k where k: "k \<le> length ls" "sent' = sent @ map Output (take (Suc k) (l # ls))"
        "loop_end ok ctx closed (length ls) (Suc (length sent)) k e"
      by auto
    have "(\<forall>k < length (l # ls). ok (length sent + k) \<and> \<not> ctx (length sent + Suc k)) \<longleftrightarrow>
        (\<forall>k < length ls. ok (length sent + Suc k) \<and> \<not> ctx (length sent + Suc (Suc k)))"
      using go by (auto simp: All_less_Suc2)
    with IH k loop_end_Suc [OF k(3)] show ?thesis
      by (intro conjI exI [of _ "Suc k"]) simp_all
  qed
qed (auto split: if_splits)

lemma watch_stored_spec:
  assumes "watch_stored ok row_ok lines_ok i m = (e, sent)"
  shows "case QueryJob row_ok i (m_store m) of
      Inr (Some row) \<Rightarrow>
        (let lines = ReplayTail (lines_ok 0) i replayCap m in
         (e = WatchOK \<longleftrightarrow> (\<forall>k \<le> length lines. ok k)) \<and>
         (if e = WatchOK then sent = map Output lines @ [DoneEvent (row_ExitCode row)
              (tailOf (lines_ok 1) i StreamStdout m) (tailOf (lines_ok 2) i StreamStderr m)]
          else e = SendFailed \<and> sent = map Output (take (length sent) lines) \<and> \<not> ok (length sent)))
    | _ \<Rightarrow> e = WatchError not_found \<and> sent = []"
proof (cases "\<exists>row. QueryJob row_ok i (m_store m) = Inr (Some row)")
  case True
  then obtain row where row: "QueryJob row_ok i (m_store m) = Inr (Some row)" ..
  let ?lines = "ReplayTail (lines_ok 0) i replayCap m"
  obtain b s1 where s: "send_lines ok ?lines [] = (b, s1)" by (metis surj_pair)
  note spec = send_lines_spec [OF s]
  have all: "(\<forall>k \<le> length ?lines. ok k) \<longleftrightarrow> (\<forall>k < length ?lines. ok k) \<and> ok (length ?lines)"
    by (auto simp: le_less)
  show ?thesis
  proof (cases b)
    case True
    with spec have "s1 = map Output ?lines" "\<forall>k < length ?lines. ok k" by simp_all
    with True assms row s show ?thesis
      by (auto simp: watch_stored_def send_done_def stream_send_def Let_def all split: if_splits)
  next
    case False
    with spec obtain k where k: "k < length ?lines" "s1 = map Output (take k ?lines)" "\<not> ok (length s1)" by auto
    from False assms row s have "e = SendFailed" "sent = s1" by (simp_all add: watch_stored_def Let_def)
    with k row show ?thesis by (auto simp: Let_def intro!: exI [of _ k])
  qed
next
  case False
  with assms show ?thesis by (auto simp: watch_stored_def split: sum.splits option.splits)
qed

lemma watch_live_spec:
  assumes "watch_live ok ctx ls closed fin replay live = (e, sent)" "live = None \<longleftrightarrow> d"
  shows "let lines = replay @ (if d then [] else ls) in
    (e = WatchOK \<longleftrightarrow> (d \<or> closed) \<and> (\<forall>k \<le> length lines. ok k) \<and>
       (\<forall>k. length replay < k \<and> k \<le> length lines \<longrightarrow> \<not> ctx k)) \<and>
    (case e of
       WatchOK \<Rightarrow> sent = map Output lines @ [DoneEvent (j_ExitCode fin) (lb_Tail 50 (j_Stdout fin))
         (lb_Tail 50 (j_Stderr fin))]
     | SendFailed \<Rightarrow> sent = map Output (take (length sent) lines) \<and> \<not> ok (length sent)
     | CtxErr \<Rightarrow> sent = map Output (take (length sent) lines) \<and> length replay < length sent \<and>
         ctx (length sent)
     | WatchWaits \<Rightarrow> sent = map Output lines \<and> \<not> d \<and> \<not> closed
     | WatchError _ \<Rightarrow> False)"
proof -
  let ?live = "if d then [] else ls" and ?cl = "d \<or> closed"
  obtain b s1 where s: "send_lines ok replay [] = (b, s1)" by (metis surj_pair)
  note spec = send_lines_spec [OF s]
  show ?thesis
  proof (cases b)
    case False
    with spec obtain k where k: "k < length replay" "s1 = map Output (take k replay)" "\<not> ok k" by auto
    from False assms s have "e = SendFailed" "sent = s1" by (simp_all add: watch_live_def)
    with k show ?thesis by (auto simp: Let_def intro!: exI [of _ k])
  next
    case True
    with spec have s1: "s1 = map Output replay" "\<forall>k < length replay. ok k" by simp_all
    obtain e1 s2 where l: "live_loop ok ctx ?live ?cl s1 = (e1, s2)" by (metis surj_pair)
    have "(case live of None \<Rightarrow> (None, s1) | Some _ \<Rightarrow> live_loop ok ctx ls closed s1) = (e1, s2)"
      using l assms(2) by (cases live) auto
    with assms s True have w: "(case e1 of Some e' \<Rightarrow> (e', s2) | None \<Rightarrow> send_done ok (done_of_result (Result fin)) s2) = (e, sent)"
      by (simp add: watch_live_def split: option.splits)
    let ?lines = "replay @ ?live" and ?n = "length replay"
    from live_loop_spec [OF l] obtain k where
      c: "e1 = None \<longleftrightarrow> ?cl \<and> (\<forall>k < length ?live. ok (?n + k) \<and> \<not> ctx (?n + Suc k))" and
      k: "k \<le> length ?live" "s2 = map Output (take (?n + k) ?lines)"
        "loop_end ok ctx ?cl (length ?live) ?n k e1"
      using s1(1) by (auto simp del: loop_end.simps)
    have okall: "(\<forall>j \<le> length ?lines. ok j) \<longleftrightarrow> (\<forall>j < length ?live. ok (?n + j)) \<and> ok (length ?lines)"
    proof (intro iffI conjI allI impI)
      fix j assume "(\<forall>j < length ?live. ok (?n + j)) \<and> ok (length ?lines)" "j \<le> length ?lines"
      then show "ok j" using s1(2)
        by (cases "j < ?n"; cases "j = length ?lines") (auto dest: HOL.spec [of _ "j - ?n"])
    qed auto
    have ctxall: "(\<forall>j. ?n < j \<and> j \<le> length ?lines \<longrightarrow> \<not> ctx j) \<longleftrightarrow> (\<forall>j < length ?live. \<not> ctx (?n + Suc j))"
    proof (intro iffI allI impI)
      fix j assume "\<forall>j < length ?live. \<not> ctx (?n + Suc j)" "?n < j \<and> j \<le> length ?lines"
      then show "\<not> ctx j" by (auto dest: HOL.spec [of _ "j - Suc ?n"])
    qed auto
    have len: "length s2 = ?n + k" using k(1,2) by simp
    show ?thesis
    proof (cases e1)
      case None
      with k w c len show ?thesis
        unfolding Let_def okall ctxall
        by (auto simp: send_done_def stream_send_def done_of_result_def Result_def split: if_splits)
    next
      case (Some e')
      with w have e: "e = e'" "sent = s2" by simp_all
      with Some k len c show ?thesis
        unfolding Let_def okall ctxall by (cases e') auto
    qed
  qed
qed

subsection \<open>A watcher of a running job\<close>

lemma unsubscribed_step:
  assumes "chan_inv s" "c < length (j_chans (sy_job s))" "c \<notin> set (j_subs (sy_job s))"
    and "jstep l s = Goes es s'"
  shows "c < length (j_chans (sy_job s')) \<and> c \<notin> set (j_subs (sy_job s')) \<and>
    received c es @ chan_buf (j_chans (sy_job s') ! c) = chan_buf (j_chans (sy_job s) ! c)"
  using assms(4)
proof (cases rule: jstep_chans)
  case same
  with assms(2,3) show ?thesis by (simp add: chans_same_def)
next
  case (publishes st r)
  have inv: "subs_inv (sy_job s)" using assms(1) by (simp add: chan_inv_def)
  from publishLine_chan [OF publishes(2) inv] publishes(1) assms(2,3) show ?thesis by simp
next
  case subscribes
  with assms(2,3) show ?thesis by (auto simp: registerSub_def Let_def nth_append)
next
  case (receives d t rest)
  with assms(2,3) show ?thesis by (auto simp: nth_list_update)
next
  case close
  have inv: "subs_inv (sy_job s)" using assms(1) by (simp add: chan_inv_def)
  from finishSubs_chan [OF close(3) inv] assms(2) show ?thesis by (simp add: close(4))
qed

lemma unsubscribed_reach:
  "jreach s0 es s \<Longrightarrow> chan_inv s0 \<Longrightarrow> c < length (j_chans (sy_job s0)) \<Longrightarrow> c \<notin> set (j_subs (sy_job s0)) \<Longrightarrow>
   c < length (j_chans (sy_job s)) \<and> c \<notin> set (j_subs (sy_job s)) \<and>
   received c es @ chan_buf (j_chans (sy_job s) ! c) = chan_buf (j_chans (sy_job s0) ! c)"
proof (induction rule: jreach.induct)
  case (step es s l es' s')
  then have IH: "c < length (j_chans (sy_job s))" "c \<notin> set (j_subs (sy_job s))"
    "received c es @ chan_buf (j_chans (sy_job s) ! c) = chan_buf (j_chans (sy_job s0) ! c)" by blast+
  from unsubscribed_step [OF chan_inv_reach [OF step.hyps(1) step.prems(1)] IH(1,2) step.hyps(2)] IH(3)
  show ?case by (metis append.assoc received_append)
qed simp

lemma after_close_step: "jstep l s = Goes es s' \<Longrightarrow> after_close (sy_phase s) \<Longrightarrow> after_close (sy_phase s')"
  by (erule jstep_chans) (auto simp: after_close_def)

lemma after_close_stays: "jreach s0 es s \<Longrightarrow> after_close (sy_phase s0) \<Longrightarrow> after_close (sy_phase s)"
  by (induction rule: jreach.induct) (auto intro: after_close_step)

lemma running_not_done: "phase_inv p es j \<Longrightarrow> \<not> after_close p \<Longrightarrow> \<not> j_done j"
  by (cases p) (simp_all add: after_close_def)

text \<open>Everything a subscription is sent before the goroutine releases it arrives.\<close>

lemma subscription_drained:
  assumes "jreach (start_sys ml i c now st) es1 s1" "\<not> after_close (sy_phase s1)"
    and "jreach (s1\<lparr>sy_job := snd (registerSub (sy_job s1))\<rparr>) ea sm" "sy_phase sm = Recorded"
    and "jstep (LMain now') sm = Goes ec sc" "jreach sc eb s2"
    and "n = length (j_chans (sy_job s1))" "length (texts_sent ea) \<le> subscriberCap"
  shows "received n (ea @ eb) @ chan_buf (j_chans (sy_job s2) ! n) = texts_sent ea \<and>
    chan_closed (j_chans (sy_job s2) ! n) \<and> after_close (sy_phase s2) \<and> jreach (start_sys ml i c now st) (es1 @ ea @ eb) s2"
proof -
  let ?s = "s1\<lparr>sy_job := snd (registerSub (sy_job s1))\<rparr>"
  have nd: "\<not> j_done (sy_job s1)" using running_not_done [OF phase_inv_reach [OF assms(1)] assms(2)] .
  have sub: "j_chans (snd (registerSub (sy_job s1))) = j_chans (sy_job s1) @ [new_chan]"
    using nd by (simp add: registerSub_def Let_def)
  have r1: "jreach (start_sys ml i c now st) (es1 @ []) ?s"
    by (rule jreach.step [OF assms(1), of LSubscribe]) simp
  have rm: "jreach (start_sys ml i c now st) (es1 @ ea) sm" using jreach_compose [OF assms(3) r1] by simp
  have inv1: "chan_inv ?s" by (rule chan_inv_reach [OF r1 chan_inv_start])
  have invm: "chan_inv sm" by (rule chan_inv_reach [OF rm chan_inv_start])
  have "delivery_inv n [] ?s" by (simp add: delivery_inv_def sub assms(7) texts_sent_def new_chan_def)
  from delivery_inv_reach [OF assms(3) inv1 this] have del: "delivery_inv n ea sm" .
  then have n: "n < length (j_chans (sy_job sm))" by (simp add: delivery_inv_def)
  have "set (j_subs (sy_job sm)) = {0..<length (j_chans (sy_job sm))}"
    using invm assms(4) by (simp add: chan_inv_def after_close_def)
  with n del assms(8) have got: "received n ea @ chan_buf (j_chans (sy_job sm) ! n) = texts_sent ea"
    by (simp add: delivery_inv_def)
  have th: "sy_threads sm ! 0 = []"
    using assms(4,5) by (auto simp: main_step_def Let_def split: if_splits)
  obtain j' where j': "finishSubs (sy_job sm) = Some j'" "ec = []" "sc = sm\<lparr>sy_job := j', sy_phase := SubsClosed\<rparr>"
    using assms(4,5) th by (auto simp: main_step_def Let_def split: option.splits)
  have "subs_inv (sy_job sm)" using invm by (simp add: chan_inv_def)
  note fin = finishSubs_chan [OF j'(1) this]
  have rc: "jreach (start_sys ml i c now st) ((es1 @ ea) @ []) sc"
    using jreach.step [OF rm assms(5)] j'(2) by simp
  from unsubscribed_reach [OF assms(6) chan_inv_reach [OF rc chan_inv_start], of n] fin n got
  have "received n (ea @ eb) @ chan_buf (j_chans (sy_job s2) ! n) = texts_sent ea"
    by (simp add: j'(3))
  moreover have "chan_closed (j_chans (sy_job s2) ! n) \<and> after_close (sy_phase s2)"
  proof -
    have ac: "after_close (sy_phase sc)" by (simp add: j'(3) after_close_def)
    have "n \<in> set (j_subs (sy_job sm))"
      using \<open>set (j_subs (sy_job sm)) = _\<close> n by simp
    with fin(3) [OF n] fin(1) n have "chan_track n sc" by (simp add: chan_track_def j'(3))
    with chan_track_reach [OF assms(6) chan_inv_reach [OF rc chan_inv_start]] after_close_stays [OF assms(6) ac]
    show ?thesis by (simp add: chan_track_def)
  qed
  ultimately show ?thesis using jreach_compose [OF assms(6) rc] by simp
qed


lemma WatchJob_streams:
  assumes "Get i (w_jobs w) = Some j" "i \<noteq> ''''" "\<not> j_done j"
  shows "fst (WatchJob (\<lambda>_. True) (\<lambda>_. False) row_ok lines_ok jo je ls True fin i w) =
    (WatchOK, map Output (lines_text (sort_recs (lb_Recs (j_Stdout jo) @ lb_Recs (j_Stderr je))) @ ls)
       @ [done_of_result (Result fin)])"
  using assms
  by (simp add: WatchJob_def Subscribe_def registerSub_def Let_def watch_live_def send_lines_all live_loop_all
      send_done_def stream_send_def)

section \<open>Properties\<close>

text \<open>
  C32. When \<open>WatchJob\<close> succeeds, and what it has sent in every case. For a job that is not in the
  registry but in the database it returns no error exactly if all sends succeed: the last
  1000 stored lines, then \<open>Done\<close> with the row's exit code and the stored tails. For a
  registered job it returns no error exactly if all sends succeed, the channel ends (it was
  nil, the job being done, or it is closed after the lines \<open>ls\<close>), and the request is not found
  cancelled after any line of the channel: the replay, the lines of the channel, then \<open>Done\<close>
  with the job's result. Otherwise no \<open>Done\<close> was sent, only a prefix of the lines: up to the
  send that failed, up to the line after which the request was cancelled, or all of them if
  the channel stays open. An unknown job is \<open>NotFound\<close>, an empty id \<open>InvalidArgument\<close>.
\<close>

theorem watch_ends_with_done:
  assumes "WatchJob ok ctx row_ok lines_ok jo je ls closed fin i w = ((e, sent), w')"
  shows "if i = '''' then e = WatchError (RpcError CodeInvalidArgument ''job_id required'') \<and> sent = []
    else case Get i (w_jobs w) of
      None \<Rightarrow>
        (case QueryJob row_ok i (m_store (w_jobs w)) of
           Inr (Some row) \<Rightarrow>
             (let lines = ReplayTail (lines_ok 0) i 1000 (w_jobs w) in
              (e = WatchOK \<longleftrightarrow> (\<forall>k \<le> length lines. ok k)) \<and>
              (if e = WatchOK then sent = map Output lines @ [DoneEvent (row_ExitCode row)
                   (tailOf (lines_ok 1) i StreamStdout (w_jobs w)) (tailOf (lines_ok 2) i StreamStderr (w_jobs w))]
               else e = SendFailed \<and> sent = map Output (take (length sent) lines) \<and> \<not> ok (length sent)))
         | _ \<Rightarrow> e = WatchError not_found \<and> sent = [])
    | Some j \<Rightarrow>
        (let replay = lines_text (sort_recs (lb_Recs (j_Stdout jo) @ lb_Recs (j_Stderr je)));
             lines = replay @ (if j_done j then [] else ls) in
         (e = WatchOK \<longleftrightarrow> (j_done j \<or> closed) \<and> (\<forall>k \<le> length lines. ok k) \<and>
            (\<forall>k. length replay < k \<and> k \<le> length lines \<longrightarrow> \<not> ctx k)) \<and>
         (case e of
            WatchOK \<Rightarrow> sent = map Output lines @ [DoneEvent (j_ExitCode fin) (lb_Tail 50 (j_Stdout fin))
              (lb_Tail 50 (j_Stderr fin))]
          | SendFailed \<Rightarrow> sent = map Output (take (length sent) lines) \<and> \<not> ok (length sent)
          | CtxErr \<Rightarrow> sent = map Output (take (length sent) lines) \<and> length replay < length sent \<and>
              ctx (length sent)
          | WatchWaits \<Rightarrow> sent = map Output lines \<and> \<not> j_done j \<and> \<not> closed
          | WatchError _ \<Rightarrow> False))"
proof (cases "i = ''''")
  case False
  show ?thesis
  proof (cases "Get i (w_jobs w)")
    case None
    with assms False have "watch_stored ok row_ok lines_ok i (w_jobs w) = (e, sent)"
      by (auto simp: WatchJob_def)
    from watch_stored_spec [OF this] None False show ?thesis unfolding replayCap_def by simp
  next
    case (Some j)
    have d: "fst (registerSub j) = None \<longleftrightarrow> j_done j" by (simp add: registerSub_def Let_def)
    have "watch_live ok ctx ls closed fin (lines_text (sort_recs (lb_Recs (j_Stdout jo) @ lb_Recs (j_Stderr je))))
        (fst (registerSub j)) = (e, sent)"
      using assms Some False by (simp add: WatchJob_def Subscribe_def Let_def split: prod.splits)
    from watch_live_spec [OF this d] show ?thesis by (simp only: Some False if_False option.case Let_def)
  qed
qed (use assms in \<open>simp add: WatchJob_def\<close>)

text \<open>A stream cancelled after the first line of the channel: no \<open>Done\<close>, the second line is not sent.\<close>

definition sample_worker :: worker where
  "sample_worker = \<lparr>w_jobs = \<lparr>m_store = sample_store, m_memLines = 10, m_replay = 10,
     m_jobs = [(''j'', sy_job sample_start)]\<rparr>, w_files = ''/ws'', w_fs = sample_fs, w_bootID = ''b''\<rparr>"

theorem watch_ends_with_done_witness:
  "\<exists>w'. WatchJob (\<lambda>_. True) (\<lambda>k. k = 1) True (\<lambda>_. True) (sy_job sample_start) (sy_job sample_start)
      [''a'', ''b''] True (sy_job sample_start) ''j'' sample_worker = ((CtxErr, [Output ''a'']), w')"
proof -
  have g: "Get ''j'' (w_jobs sample_worker) = Some (sy_job sample_start)" "\<not> j_done (sy_job sample_start)"
    "lb_Recs (j_Stdout (sy_job sample_start)) @ lb_Recs (j_Stderr (sy_job sample_start)) = []"
    by (simp_all add: Get_def sample_worker_def sample_start_def start_sys_def new_job_def NewLineBuffer_def lb_Recs_def)
  obtain e sent w' where run: "WatchJob (\<lambda>_. True) (\<lambda>k. k = 1) True (\<lambda>_. True) (sy_job sample_start)
      (sy_job sample_start) [''a'', ''b''] True (sy_job sample_start) ''j'' sample_worker = ((e, sent), w')"
    by (metis surj_pair)
  have "e = CtxErr" "length sent = 1" "sent = map Output (take (length sent) [''a'', ''b''])"
    using watch_ends_with_done [OF run] g
    by (cases e; auto simp: sort_recs_def lines_text_def dest: spec [of _ 1])+
  with run show ?thesis by auto
qed

text \<open>
  C7. A watcher gets the window, every later line with text, and the end. Watch a running job:
  its rings are copied at \<open>s0\<close> and \<open>sa\<close>, the channel is registered at \<open>s1\<close> (nothing is
  published in between, \<open>Subscribe\<close> holding \<open>subMu\<close>); let the job run to the moment \<open>sm\<close>
  its goroutine is about to release the subscribers, release them, and let the watcher drain
  its channel. If at most 256 lines were published in between and the stream accepts the
  events and is not cancelled, the stream carries exactly the last lines of each stream that
  were in the rings, in sequence order, the published lines, in order and once, and then
  \<open>Done\<close> with the exit code that was also recorded in the database; the channel is closed,
  so the loop ends. Of either stream, every line completed after its ring was copied and by
  \<open>sm\<close> that is not blank is among the published ones, unless the write that completed it
  has still not come to its callback.
\<close>

theorem watcher_gets_the_whole_stream:
  assumes "jreach (start_sys ml i c now st) es0 s0" "jreach s0 ea sa" "jreach sa eb s1"
    and "published (ea @ eb) = []" "\<not> after_close (sy_phase s1)"
    and "jreach (s1\<lparr>sy_job := snd (registerSub (sy_job s1))\<rparr>) ec sm" "sy_phase sm = Recorded"
    and "jstep (LMain now') sm = Goes ed sc" "jreach sc ef s2"
    and "n = length (j_chans (sy_job s1))" "length (published ec) \<le> subscriberCap"
    and "chan_buf (j_chans (sy_job s2) ! n) = []"
    and "Get i (w_jobs w) = Some (sy_job s1)" "i \<noteq> ''''"
  shows "(\<exists>rs. sorted_wrt (<) (map Seq rs) \<and>
      set rs = set (lastn (nat (lb_max (j_Stdout (sy_job s0)))) (on_stream StreamStdout (history es0))) \<union>
        set (lastn (nat (lb_max (j_Stderr (sy_job sa)))) (on_stream StreamStderr (history (es0 @ ea)))) \<and>
      fst (WatchJob (\<lambda>_. True) (\<lambda>_. False) row_ok lines_ok (sy_job s0) (sy_job sa) (received n (ec @ ef))
        (chan_closed (j_chans (sy_job s2) ! n)) (sy_job s2) i w) =
      (WatchOK, map Output (map Line rs @ map (\<lambda>x. Line (snd x)) (published ec)) @
        [DoneEvent (j_ExitCode (sy_job s2)) (lb_Tail 50 (j_Stdout (sy_job s2))) (lb_Tail 50 (j_Stderr (sy_job s2)))])) \<and>
    (\<forall>k r. (k, r) \<in> set (history (es0 @ ea @ eb @ ec)) \<and> Line r \<noteq> '''' \<and>
      (k, r) \<notin> set (history (if k = StreamStdout then es0 else es0 @ ea)) \<longrightarrow>
      (k, r) \<in> set (published ec) \<or> (k, r) \<in># unpublished sm) \<and>
    (\<exists>accepted. finish_records (es0 @ ea @ eb @ ec @ ef) =
      [(accepted, j_State (sy_job s2), j_ExitCode (sy_job s2))])"
proof (intro conjI allI impI)
  let ?rs = "sort_recs (lb_Recs (j_Stdout (sy_job s0)) @ lb_Recs (j_Stderr (sy_job sa)))"
  have ra: "jreach (start_sys ml i c now st) (es0 @ ea) sa" by (rule jreach_compose [OF assms(2,1)])
  have r1: "jreach (start_sys ml i c now st) ((es0 @ ea) @ eb) s1" by (rule jreach_compose [OF assms(3) ra])
  have hist: "hist_inv (history es0) (sy_job s0)" "hist_inv (history es0 @ history ea) (sy_job sa)"
    using run_inv_reach [OF assms(1)] run_inv_reach [OF ra] by (simp_all add: run_inv_def)
  have nd: "\<not> j_done (sy_job s1)" using running_not_done [OF phase_inv_reach [OF r1] assms(5)] .
  have few: "length (texts_sent ec) \<le> subscriberCap" using assms(11) by (simp add: texts_sent_def)
  from subscription_drained [OF r1 assms(5-10) few] assms(12) have
    got: "received n (ec @ ef) = texts_sent ec" "chan_closed (j_chans (sy_job s2) ! n)" and
    past: "after_close (sy_phase s2)" and
    reach: "jreach (start_sys ml i c now st) (((es0 @ ea) @ eb) @ ec @ ef) s2" by simp_all
  from phase_inv_reach [OF reach] past
  show "\<exists>accepted. finish_records (es0 @ ea @ eb @ ec @ ef) = [(accepted, j_State (sy_job s2), j_ExitCode (sy_job s2))]"
    by (cases "sy_phase s2") (auto simp: after_close_def)
  from copied_rings [OF hist] WatchJob_streams [OF assms(13,14) nd]
  show "\<exists>rs. sorted_wrt (<) (map Seq rs) \<and>
      set rs = set (lastn (nat (lb_max (j_Stdout (sy_job s0)))) (on_stream StreamStdout (history es0))) \<union>
        set (lastn (nat (lb_max (j_Stderr (sy_job sa)))) (on_stream StreamStderr (history (es0 @ ea)))) \<and>
      fst (WatchJob (\<lambda>_. True) (\<lambda>_. False) row_ok lines_ok (sy_job s0) (sy_job sa) (received n (ec @ ef))
        (chan_closed (j_chans (sy_job s2) ! n)) (sy_job s2) i w) =
      (WatchOK, map Output (map Line rs @ map (\<lambda>x. Line (snd x)) (published ec)) @
        [DoneEvent (j_ExitCode (sy_job s2)) (lb_Tail 50 (j_Stdout (sy_job s2))) (lb_Tail 50 (j_Stderr (sy_job s2)))])"
    unfolding got(1)
    by (intro exI [of _ ?rs]) (simp add: got(2) done_of_result_def Result_def texts_sent_def lines_text_def)
  fix k r
  assume "(k, r) \<in> set (history (es0 @ ea @ eb @ ec)) \<and> Line r \<noteq> '''' \<and>
    (k, r) \<notin> set (history (if k = StreamStdout then es0 else es0 @ ea))"
  then show "(k, r) \<in> set (published ec) \<or> (k, r) \<in># unpublished sm"
    by (intro later_line_published [OF assms(1-4) _ assms(6)]) simp_all
qed

lemma sample_watched:
  "\<exists>sm sc s2. jrun (line_labels @ [LReturn None 0, LMain 9, LMain 9, LMain 9, LMain 9, LMain 9, LMain 9])
      (sample_start\<lparr>sy_job := snd (registerSub (sy_job sample_start))\<rparr>) =
      Goes [EvRecord 0 (LineRec 1 ''a''), EvPublish 0 (LineRec 1 ''a''),
        EvOffer True (store_line_of ''j'' 0 (LineRec 1 ''a'')), EvFinish True StateDone 0] sm \<and>
    sy_phase sm = Recorded \<and> jstep (LMain 9) sm = Goes [] sc \<and>
    jrun [LReceive 0] sc = Goes [EvReceive 0 ''a''] s2 \<and> chan_buf (j_chans (sy_job s2) ! 0) = [] \<and>
    chan_closed (j_chans (sy_job s2) ! 0) \<and>
    j_State (sy_job s2) = StateDone \<and> j_ExitCode (sy_job s2) = 0 \<and> lb_Tail 50 (j_Stdout (sy_job s2)) = ''a'' \<and>
    lb_Tail 50 (j_Stderr (sy_job s2)) = ''''"
  unfolding line_labels_def sample_start_def
  by (simp add: jrun_simps registerSub_def sort_recs_def lb_Recs_def new_chan_def try_send_def
      close_chan_def subscriberCap_def lb_Tail_def lastn_def)

theorem watcher_gets_the_whole_stream_witness:
  "\<exists>fin. fst (WatchJob (\<lambda>_. True) (\<lambda>_. False) True (\<lambda>_. True) (sy_job sample_start) (sy_job sample_start)
       [''a''] True fin ''j'' sample_worker) =
     (WatchOK, [Output ''a'', DoneEvent 0 ''a'' ''''])"
proof -
  let ?s = "sample_start\<lparr>sy_job := snd (registerSub (sy_job sample_start))\<rparr>"
  let ?ea = "[EvRecord 0 (LineRec 1 ''a''), EvPublish 0 (LineRec 1 ''a''),
        EvOffer True (store_line_of ''j'' 0 (LineRec 1 ''a'')), EvFinish True StateDone 0]"
  from sample_watched obtain sm sc s2 where
    run: "jrun (line_labels @ [LReturn None 0, LMain 9, LMain 9, LMain 9, LMain 9, LMain 9, LMain 9]) ?s = Goes ?ea sm"
      "sy_phase sm = Recorded" "jstep (LMain 9) sm = Goes [] sc" "jrun [LReceive 0] sc = Goes [EvReceive 0 ''a''] s2"
      "chan_buf (j_chans (sy_job s2) ! 0) = []" "chan_closed (j_chans (sy_job s2) ! 0)" "j_ExitCode (sy_job s2) = 0"
      "lb_Tail 50 (j_Stdout (sy_job s2)) = ''a''" "lb_Tail 50 (j_Stderr (sy_job s2)) = ''''"
    by blast
  have start: "jreach (start_sys 10 ''j'' ''ls'' 5 sample_store) [] sample_start"
    unfolding sample_start_def by (rule jreach.start)
  have n: "0 = length (j_chans (sy_job sample_start))" "\<not> after_close (sy_phase sample_start)"
    by (simp_all add: sample_start_def start_sys_def new_job_def after_close_def)
  have g: "Get ''j'' (w_jobs sample_worker) = Some (sy_job sample_start)"
    by (simp add: Get_def sample_worker_def)
  have few: "length (published ?ea) \<le> subscriberCap" by (simp add: subscriberCap_def)
  from watcher_gets_the_whole_stream [OF start jreach.start jreach.start _ n(2) jrun_reach [OF run(1)] run(2,3)
      jrun_reach [OF run(4)] n(1) few run(5) g, of True "\<lambda>_. True"]
  show ?thesis by (auto simp: run(6-9) on_stream_def lastn_def)
qed


subsection \<open>Waiting\<close>

lemma wait_loop_result:
  assumes "wait_loop snap wakes iters n = (r, k)" "int n \<le> iters" "\<forall>m < n. \<not> j_done (snap m)"
  shows "n \<le> k \<and> int k \<le> iters \<and> (\<forall>m < k. \<not> j_done (snap m)) \<and>
    (case r of
       Inr a \<Rightarrow> a = \<lparr>wr_State = j_State (snap k), wr_ExitCode = j_ExitCode (snap k)\<rparr> \<and>
         (j_done (snap k) \<or> int k = iters)
     | Inl e \<Rightarrow> n < k \<and> wakes (k - 1) = WakeCtx e)"
  using assms
proof (induction snap wakes iters n rule: wait_loop.induct)
  case (1 snap wakes iters n)
  show ?case
  proof (cases "j_done (snap n) \<or> int n \<ge> iters")
    case True
    with 1(3-5) show ?thesis
      by (subst (asm) wait_loop.simps) (auto simp: Let_def Result_def split: if_splits)
  next
    case go: False
    then have ext: "\<forall>m < Suc n. \<not> j_done (snap m)" using 1(5) by (auto simp: less_Suc_eq)
    show ?thesis
    proof (cases "\<exists>e. wakes n = WakeCtx e")
      case True
      with go 1(3) have "\<exists>e. r = Inl e \<and> wakes n = WakeCtx e" "k = Suc n"
        by (subst (asm) wait_loop.simps; auto simp: Let_def)+
      with go ext show ?thesis by auto
    next
      case False
      with go 1(3) have rest: "wait_loop snap wakes iters (Suc n) = (r, k)"
        by (subst (asm) wait_loop.simps) (auto simp: Let_def split: wake.splits)
      have "Suc n \<le> k \<and> int k \<le> iters \<and> (\<forall>m < k. \<not> j_done (snap m)) \<and>
        (case r of
           Inr a \<Rightarrow> a = \<lparr>wr_State = j_State (snap k), wr_ExitCode = j_ExitCode (snap k)\<rparr> \<and>
             (j_done (snap k) \<or> int k = iters)
         | Inl e \<Rightarrow> Suc n < k \<and> wakes (k - 1) = WakeCtx e)"
      proof (cases "wakes n")
        case WakeDone
        from 1(1) [OF refl _ _ WakeDone rest] go ext show ?thesis by simp
      next
        case (WakeCtx e)
        with False show ?thesis by simp
      next
        case WakeTick
        from 1(2) [OF refl _ _ WakeTick rest] go ext show ?thesis by simp
      qed
      then show ?thesis by (auto split: sum.splits)
    qed
  qed
qed

lemma wait_iters_bounds:
  "1 \<le> wait_iters t" "wait_iters t * wait_tick \<le> jobWaitMax" "25 \<le> t \<Longrightarrow> wait_iters t * wait_tick \<le> t * millisecond"
proof -
  have div: "a div wait_tick * wait_tick \<le> a" if "0 \<le> a" for a
    using that by (simp add: wait_tick_def millisecond_def)
  show "1 \<le> wait_iters t" by (simp add: wait_iters_def Let_def)
  show "wait_iters t * wait_tick \<le> jobWaitMax"
    by (auto simp: wait_iters_def Let_def jobWaitMax_def wait_tick_def millisecond_def)
  show "25 \<le> t \<Longrightarrow> wait_iters t * wait_tick \<le> t * millisecond"
    by (auto simp: wait_iters_def Let_def jobWaitMax_def wait_tick_def millisecond_def)
qed

text \<open>
  C31. Waiting is bounded and honest. For every timeout the poll loop of \<open>JobWait\<close> returns
  after at most a minute of waiting (at most the timeout, if that is 25 ms or more); its
  answer is the state and exit code of the job as last seen, which is finished unless all
  polls were used up, or the error of the cancelled request; and it never waits again after
  seeing the job done.
\<close>

theorem job_wait_is_bounded:
  assumes "Get i (w_jobs w) = Some j" "JobWait row_ok snap wakes i timeoutMs w = (r, n)"
  shows "int n * wait_tick \<le> jobWaitMax \<and> (25 \<le> timeoutMs \<longrightarrow> int n * wait_tick \<le> timeoutMs * millisecond) \<and>
    (\<forall>m < n. \<not> j_done (snap m)) \<and>
    (case r of
       Inr a \<Rightarrow> a = \<lparr>wr_State = j_State (snap n), wr_ExitCode = j_ExitCode (snap n)\<rparr> \<and>
         (j_done (snap n) \<or> int n = wait_iters timeoutMs)
     | Inl e \<Rightarrow> 0 < n \<and> wakes (n - 1) = WakeCtx e)"
proof -
  have loop: "wait_loop snap wakes (wait_iters timeoutMs) 0 = (r, n)"
    using assms by (simp add: JobWait_def)
  have "0 \<le> wait_iters timeoutMs" using wait_iters_bounds(1) [of timeoutMs] by simp
  with wait_loop_result [OF loop] have res: "int n \<le> wait_iters timeoutMs" "\<forall>m < n. \<not> j_done (snap m)"
    "case r of
       Inr a \<Rightarrow> a = \<lparr>wr_State = j_State (snap n), wr_ExitCode = j_ExitCode (snap n)\<rparr> \<and>
         (j_done (snap n) \<or> int n = wait_iters timeoutMs)
     | Inl e \<Rightarrow> 0 < n \<and> wakes (n - 1) = WakeCtx e" by simp_all
  have "0 \<le> wait_tick" by (simp add: wait_tick_def millisecond_def)
  from mult_right_mono [OF res(1) this] wait_iters_bounds(2,3) [of timeoutMs] res(2,3) show ?thesis
    by auto
qed

theorem job_wait_is_bounded_witness:
  "JobWait True (\<lambda>_. sy_job sample_start) (\<lambda>_. WakeTick) ''j'' 30 sample_worker =
     (Inr \<lparr>wr_State = StateRunning, wr_ExitCode = 0\<rparr>, 1) \<and> int 1 * wait_tick \<le> 30 * millisecond"
proof -
  have g: "Get ''j'' (w_jobs sample_worker) = Some (sy_job sample_start)"
    by (simp add: Get_def sample_worker_def)
  have r: "JobWait True (\<lambda>_. sy_job sample_start) (\<lambda>_. WakeTick) ''j'' 30 sample_worker =
     (Inr \<lparr>wr_State = StateRunning, wr_ExitCode = 0\<rparr>, 1)"
    by (simp add: JobWait_def g wait_iters_def jobWaitMax_def wait_tick_def millisecond_def
        wait_loop.simps sample_start_def start_sys_def new_job_def)
  from job_wait_is_bounded [OF g r] r show ?thesis by simp
qed

text \<open>
  C15. A waiter learns the verdict. If at some poll within the time limit the job has finished,
  and the request is not cancelled before, \<open>JobWait\<close> answers with the verdict: a terminal
  state, \<open>done\<close> only with exit code 0 and \<open>killed\<close> only for a cancelled job, the same state
  and code the job's one finish record carries.
\<close>

theorem job_wait_learns_the_verdict:
  assumes "Get i (w_jobs w) = Some j" "\<And>k. jreach (start_sys ml i c now st) (ev k) (s k)"
    and "j_done (sy_job (s k))" "int k \<le> wait_iters timeoutMs"
    and "\<And>m e. m < k \<Longrightarrow> wakes m \<noteq> WakeCtx e"
  shows "\<exists>n a accepted. JobWait row_ok (\<lambda>k. sy_job (s k)) wakes i timeoutMs w = (Inr a, n) \<and> n \<le> k \<and>
    verdict (wr_State a) (sy_job (s n)) \<and> finish_records (ev n) = [(accepted, wr_State a, wr_ExitCode a)]"
proof -
  obtain r n where loop: "wait_loop (\<lambda>k. sy_job (s k)) wakes (wait_iters timeoutMs) 0 = (r, n)"
    by (metis surj_pair)
  have res: "\<forall>m < n. \<not> j_done (sy_job (s m))" "int n \<le> wait_iters timeoutMs"
    "case r of
       Inr a \<Rightarrow> a = \<lparr>wr_State = j_State (sy_job (s n)), wr_ExitCode = j_ExitCode (sy_job (s n))\<rparr> \<and>
         (j_done (sy_job (s n)) \<or> int n = wait_iters timeoutMs)
     | Inl e \<Rightarrow> 0 < n \<and> wakes (n - 1) = WakeCtx e"
    using wait_loop_result [OF loop] wait_iters_bounds(1) [of timeoutMs] by simp_all
  have "n \<le> k" using res(1) assms(3) by (meson not_le)
  have "r \<noteq> Inl e" for e
  proof
    assume "r = Inl e"
    with res(3) have "0 < n" "wakes (n - 1) = WakeCtx e" by simp_all
    with assms(5) [of "n - 1" e] \<open>n \<le> k\<close> show False by simp
  qed
  then obtain a where a: "r = Inr a" by (cases r) auto
  have fin: "j_done (sy_job (s n))"
    using res(3) a assms(3,4) \<open>n \<le> k\<close> by (cases "n = k") auto
  from phase_inv_reach [OF assms(2) [of n]] fin have "sy_phase (s n) = Exited"
    by (cases "sy_phase (s n)") simp_all
  with phase_inv_reach [OF assms(2) [of n]] obtain ok where
    "verdict (j_State (sy_job (s n))) (sy_job (s n))"
    "finish_records (ev n) = [(ok, j_State (sy_job (s n)), j_ExitCode (sy_job (s n)))]" by auto
  with res(3) a \<open>n \<le> k\<close> loop assms(1) show ?thesis by (auto simp: JobWait_def)
qed


theorem job_wait_learns_the_verdict_witness:
  "\<exists>(s :: jsys) a. JobWait True (\<lambda>_. sy_job s) (\<lambda>_. WakeTick) ''j'' 100 sample_worker = (Inr a, 0) \<and>
     wr_State a = StateDone \<and> wr_ExitCode a = 0"
proof -
  obtain s where run: "jrun (line_labels @ end_labels @ [LMain 9, LMain 9] @ store_labels) sample_start =
    Goes [EvRecord 0 (LineRec 1 ''a''), EvPublish 0 (LineRec 1 ''a''),
      EvOffer True (store_line_of ''j'' 0 (LineRec 1 ''a'')), EvFinish True StateDone 0,
      EvStore (EvWriter (CaseRecv calm_flush True)), EvStore (EvWriter (CaseRecv calm_flush True))] s"
    (is "_ = Goes ?es s") "sy_phase s = Exited" using sample_life by blast
  have reach: "jreach (start_sys 10 ''j'' ''ls'' 5 sample_store) ?es s"
    using jrun_reach [OF run(1)] by (simp add: sample_start_def)
  have fin: "j_done (sy_job s)" using phase_inv_reach [OF reach] run(2) by simp
  have g: "Get ''j'' (w_jobs sample_worker) = Some (sy_job sample_start)"
    by (simp add: Get_def sample_worker_def)
  have lim: "int 0 \<le> wait_iters 100" using wait_iters_bounds(1) [of 100] by simp
  from job_wait_learns_the_verdict [OF g, where s = "\<lambda>_. s" and ev = "\<lambda>_. ?es" and k = 0
      and wakes = "\<lambda>_. WakeTick" and row_ok = True, OF reach fin lim]
  obtain a where "JobWait True (\<lambda>_. sy_job s) (\<lambda>_. WakeTick) ''j'' 100 sample_worker = (Inr a, 0)"
    "\<exists>ok. finish_records ?es = [(ok, wr_State a, wr_ExitCode a)]" by auto
  moreover from this(2) have "wr_State a = StateDone \<and> wr_ExitCode a = 0" by auto
  ultimately show ?thesis by blast
qed

subsection \<open>The live and the stored answer\<close>

lemma tail_of_view:
  assumes "lb_view (on_stream stm h) lb" "50 \<le> lb_max lb" "cur lb = ''''"
  shows "lb_Tail 50 lb = join_with [LF] (lines_text (lastn 50 (on_stream stm h)))"
  using assms lb_Tail_view [of "on_stream stm h" lb 50] by (simp add: lines_text_def map_lastn)

text \<open>
  C33. Live and stored answers agree. For a job whose output has settled (no pending callback,
  nothing refused or failed on the way to the database, nothing left to flush), with rings
  of at least 50 lines, the tails in the \<open>Done\<close> event are the same whether the job is still
  registered and its rings are read, or it was pruned and the database is read.
\<close>

theorem live_and_stored_tails_agree:
  assumes "jreach (start_sys ml i c now st) es s" and "fresh_in i st" and "list_all (ev_ok i) es"
    and "list_all fst (offers es)" and "concat (sy_threads s) = []" and "owed (sy_store s) = []"
    and "Get i m \<in> {None, Some (sy_job s)}" and "m_store m = sy_store s"
    and "50 \<le> lb_max (j_Stdout (sy_job s))" "50 \<le> lb_max (j_Stderr (sy_job s))"
    and "cur (j_Stdout (sy_job s)) = ''''" "cur (j_Stderr (sy_job s)) = ''''"
  shows "tailOf True i StreamStdout m = res_Stdout (Result (sy_job s)) \<and>
    tailOf True i StreamStderr m = res_Stderr (Result (sy_job s))"
proof -
  have "run_inv i es s" by (rule run_inv_reach [OF assms(1)])
  then have h: "lb_view (on_stream StreamStdout (history es)) (j_Stdout (sy_job s))"
    "lb_view (on_stream StreamStderr (history es)) (j_Stderr (sy_job s))"
    by (simp_all add: run_inv_def hist_inv_def)
  from tail_of_view [OF h(1) assms(9,11)] tail_of_view [OF h(2) assms(10,12)]
    settled_merged [OF assms(1-8), of StreamStdout] settled_merged [OF assms(1-8), of StreamStderr]
  show ?thesis by (simp add: tailOf_def MergedRecs_def Result_def)
qed

lemma wide_life:
  "\<exists>s. jrun (line_labels @ end_labels @ [LMain 9, LMain 9] @ store_labels) (start_sys 100 ''j'' ''ls'' 5 sample_store) =
    Goes [EvRecord 0 (LineRec 1 ''a''), EvPublish 0 (LineRec 1 ''a''),
      EvOffer True (store_line_of ''j'' 0 (LineRec 1 ''a'')), EvFinish True StateDone 0,
      EvStore (EvWriter (CaseRecv calm_flush True)), EvStore (EvWriter (CaseRecv calm_flush True))] s \<and>
    sy_threads s = [[], []] \<and> owed (sy_store s) = [] \<and> lb_max (j_Stdout (sy_job s)) = 100 \<and>
    lb_max (j_Stderr (sy_job s)) = 100 \<and> cur (j_Stdout (sy_job s)) = '''' \<and> cur (j_Stderr (sy_job s)) = '''' \<and>
    lb_Tail 50 (j_Stdout (sy_job s)) = ''a''"
  unfolding line_labels_def end_labels_def store_labels_def
  by (simp add: jrun_simps owed_def lb_Tail_def lastn_def)

theorem live_and_stored_tails_agree_witness:
  "\<exists>st. tailOf True ''j'' StreamStdout \<lparr>m_store = st, m_memLines = 100, m_replay = 10, m_jobs = []\<rparr> = ''a''"
proof -
  let ?es = "[EvRecord 0 (LineRec 1 ''a''), EvPublish 0 (LineRec 1 ''a''),
      EvOffer True (store_line_of ''j'' 0 (LineRec 1 ''a'')), EvFinish True StateDone 0,
      EvStore (EvWriter (CaseRecv calm_flush True)), EvStore (EvWriter (CaseRecv calm_flush True))]"
  from wide_life obtain s where run: "jrun (line_labels @ end_labels @ [LMain 9, LMain 9] @ store_labels)
      (start_sys 100 ''j'' ''ls'' 5 sample_store) = Goes ?es s"
    and fin: "sy_threads s = [[], []]" "owed (sy_store s) = []" "lb_max (j_Stdout (sy_job s)) = 100"
      "lb_max (j_Stderr (sy_job s)) = 100" "cur (j_Stdout (sy_job s)) = ''''" "cur (j_Stderr (sy_job s)) = ''''"
      "lb_Tail 50 (j_Stdout (sy_job s)) = ''a''" by blast
  let ?m = "\<lparr>m_store = sy_store s, m_memLines = 100, m_replay = 10, m_jobs = []\<rparr>"
  have "Get ''j'' ?m \<in> {None, Some (sy_job s)}" by (simp add: Get_def)
  from live_and_stored_tails_agree [OF jrun_reach [OF run] sample_fresh sample_events_good _ _ fin(2) this] fin
  have "tailOf True ''j'' StreamStdout ?m = ''a''" by (simp add: Result_def)
  then show ?thesis by blast
qed

text \<open>
  The output of a job nobody knows reads like that of a job still running. For an id in
  neither the registry nor the database, \<open>JobWait\<close> and \<open>WatchJob\<close> answer \<open>NotFound\<close>, but
  \<open>JobOutput\<close> answers without error: no lines, and not done, for ever.
\<close>

theorem unknown_job_reads_as_running:
  assumes "i \<noteq> ''''" "Get i (w_jobs w) = None" "QueryJob True i (m_store (w_jobs w)) = Inr None"
    and "sql_query_lines i (streamOf stream) (db (m_store (w_jobs w))) = []"
  shows "JobOutput db_error True True i stream 0 0 w =
      Some (Inr \<lparr>op_lines = [], op_total = 0, op_start = 0, op_end = 0, op_done = False\<rparr>) \<and>
    JobWait True snap wakes i timeoutMs w = (Inl not_found, 0) \<and>
    fst (WatchJob ok ctx True lines_ok jo je ls closed fin i w) = (WatchError not_found, [])"
  using assms
  by (simp add: JobOutput_def OutputLines_def readMerged_def QueryLines_def jobState_def page_bounds_def
      slice_def lines_text_def JobWait_def WatchJob_def watch_stored_def Let_def int32_def)

theorem unknown_job_reads_as_running_witness:
  "JobOutput '''' True True ''ghost'' ''stdout'' 0 0 sample_worker =
     Some (Inr \<lparr>op_lines = [], op_total = 0, op_start = 0, op_end = 0, op_done = False\<rparr>)"
proof -
  have "Get ''ghost'' (w_jobs sample_worker) = None"
    "QueryJob True ''ghost'' (m_store (w_jobs sample_worker)) = Inr None"
    "sql_query_lines ''ghost'' (streamOf ''stdout'') (db (m_store (w_jobs sample_worker))) = []"
    by (simp_all add: Get_def sample_worker_def QueryJob_def sample_store_row sql_query_lines_def)
  from unknown_job_reads_as_running [OF _ this] show ?thesis by simp
qed


text \<open>
  C34. A job whose finish record was lost reads as a success. When the queue is full as a job
  ends, however it ended, and the job has left the registry, then whatever the writer and
  other jobs do until the next restart, \<open>WatchJob\<close> ends with a \<open>Done\<close> event that carries
  the exit code of the row as it was when the job started, and \<open>JobWait\<close> answers at once that
  the job is running.
\<close>

theorem unrecorded_job_reads_as_started:
  assumes "channelCap \<le> length (ch s)" "list_all (\<lambda>r. \<not> finishes i r) (ch s)"
    and "job_row_of i (db s) = Some r"
    and "queue_run offer job_step xs (FinishJob i st x t s) = (rs, m_store (w_jobs w))" "list_all (leaves_job i) xs"
    and "Get i (w_jobs w) = None" "i \<noteq> ''''"
  shows "(\<exists>out a b. WatchJob (\<lambda>_. True) ctx True lines_ok jo je ls closed fin i w =
      ((WatchOK, map Output out @ [DoneEvent (row_ExitCode r) a b]), w)) \<and>
    JobWait True snap wakes i timeoutMs w = (Inr \<lparr>wr_State = row_State r, wr_ExitCode = row_ExitCode r\<rparr>, 0)"
proof -
  have "FinishJob i st x t s = s" using assms(1) by (simp add: FinishJob_def)
  with row_survives [OF assms(4,5)] assms(2,3)
  have row: "QueryJob True i (m_store (w_jobs w)) = Inr (Some r)"
    by (simp add: QueryJob_def job_row_of_def)
  with assms(6,7) show ?thesis
    by (auto simp: WatchJob_def watch_stored_def send_lines_all send_done_def stream_send_def JobWait_def)
qed

definition unrecorded_worker :: worker where
  "unrecorded_worker = sample_worker\<lparr>w_jobs := \<lparr>m_store = full_store, m_memLines = 10, m_replay = 10, m_jobs = []\<rparr>\<rparr>"

theorem unrecorded_job_reads_as_started_witness:
  "FinishJob ''j'' StateKilled 137 9 full_store = full_store \<and>
   (\<exists>out a b. WatchJob (\<lambda>_. True) (\<lambda>_. False) True (\<lambda>_. True) (new_job 10 ''j'' ''ls'' 5)
        (new_job 10 ''j'' ''ls'' 5) [] False (new_job 10 ''j'' ''ls'' 5) ''j'' unrecorded_worker =
      ((WatchOK, map Output out @ [DoneEvent 0 a b]), unrecorded_worker)) \<and>
   JobWait True (\<lambda>_. new_job 10 ''j'' ''ls'' 5) (\<lambda>_. WakeTick) ''j'' 1000 unrecorded_worker =
     (Inr \<lparr>wr_State = StateRunning, wr_ExitCode = 0\<rparr>, 0)"
proof -
  have lost: "FinishJob ''j'' StateKilled 137 9 full_store = full_store"
    by (simp add: FinishJob_def full_store_def sample_store_row)
  have full: "channelCap \<le> length (ch full_store)" "list_all (\<lambda>r. \<not> finishes ''j'' r) (ch full_store)"
    by (simp_all add: full_store_def list_all_iff)
  have row: "job_row_of ''j'' (db full_store) = Some \<lparr>row_ID = ''j'', row_Command = ''ls'',
      row_State = StateRunning, row_ExitCode = 0, row_StartedAt = 5, row_FinishedAt = 0\<rparr>"
    by (simp add: full_store_def sample_store_row job_row_of_def)
  have run: "queue_run offer job_step [] (FinishJob ''j'' StateKilled 137 9 full_store) =
      ([], m_store (w_jobs unrecorded_worker))"
    by (simp add: lost unrecorded_worker_def)
  have "Get ''j'' (w_jobs unrecorded_worker) = None" by (simp add: Get_def unrecorded_worker_def)
  from unrecorded_job_reads_as_started [OF full row run _ this] lost show ?thesis by simp
qed

end
