(* ===== verification/Workspace.thy ===== *)
theory Workspace
  imports FileSync
begin

text \<open>
  The contract the RPC service has with the file service, as an interface: a state with an
  invariant, a read and a write addressed by paths, and what a write promises about later
  reads. What follows for any sequence of writes is proved from the contract and holds for
  \<open>internal/filesvc\<close> by its interpretation.
\<close>

text \<open>Writes one after another, with their results.\<close>

fun run_writes ::
  "('p \<Rightarrow> 'd \<Rightarrow> 'x \<Rightarrow> 's \<Rightarrow> 'e option \<times> 's) \<Rightarrow> ('p \<times> 'd \<times> 'x) list \<Rightarrow> 's \<Rightarrow> 'e option list \<times> 's" where
  "run_writes wr [] s = ([], s)"
| "run_writes wr ((p, d, x) # ws) s =
     (let (r, s1) = wr p d x s; (rs, s2) = run_writes wr ws s1 in (r # rs, s2))"

lemma run_writes_append:
  "run_writes wr (ws @ ws') s =
     (let (rs, s1) = run_writes wr ws s; (rs', s2) = run_writes wr ws' s1 in (rs @ rs', s2))"
  by (induction wr ws s rule: run_writes.induct) (auto split: prod.splits simp: Let_def)

lemma run_writes_length: "run_writes wr ws s = (rs, s') \<Longrightarrow> length rs = length ws"
  by (induction wr ws s arbitrary: rs rule: run_writes.induct) (auto split: prod.splits)

locale workspace =
  fixes inv :: "'s \<Rightarrow> bool"
    and ok :: "'p \<Rightarrow> bool"
    and key :: "'p \<Rightarrow> 'k"
    and rd :: "'s \<Rightarrow> 'p \<Rightarrow> 'e + 'd"
    and wr :: "'p \<Rightarrow> 'd \<Rightarrow> 'x \<Rightarrow> 's \<Rightarrow> 'e option \<times> 's"
  assumes write_inv: "inv s \<Longrightarrow> wr p d x s = (r, s') \<Longrightarrow> inv s'"
    and write_read: "inv s \<Longrightarrow> ok p \<Longrightarrow> ok q \<Longrightarrow> key q = key p \<Longrightarrow> wr p d x s = (None, s') \<Longrightarrow> rd s' q = Inr d"
    and write_other: "inv s \<Longrightarrow> ok p \<Longrightarrow> ok q \<Longrightarrow> key p \<noteq> key q \<Longrightarrow> wr p d x s = (r, s') \<Longrightarrow>
      rd s q = Inr y \<Longrightarrow> rd s' q = Inr y"
begin

lemma writes_inv: "inv s \<Longrightarrow> run_writes wr ws s = (rs, s') \<Longrightarrow> inv s'"
proof (induction ws arbitrary: s rs)
  case (Cons w ws)
  obtain p d x where w: "w = (p, d, x)" by (metis surj_pair)
  obtain r s1 where one: "wr p d x s = (r, s1)" by (metis surj_pair)
  obtain rs1 s2 where two: "run_writes wr ws s1 = (rs1, s2)" by (metis surj_pair)
  from Cons.IH [OF write_inv [OF Cons.prems(1) one]] two Cons.prems(2) one w show ?case by simp
qed simp

lemma writes_other:
  "inv s \<Longrightarrow> ok q \<Longrightarrow> list_all (\<lambda>(p, d, x). ok p \<and> key p \<noteq> key q) ws \<Longrightarrow> run_writes wr ws s = (rs, s') \<Longrightarrow>
   rd s q = Inr y \<Longrightarrow> rd s' q = Inr y"
proof (induction ws arbitrary: s rs)
  case (Cons w ws)
  obtain p d x where w: "w = (p, d, x)" by (metis surj_pair)
  obtain r s1 where one: "wr p d x s = (r, s1)" by (metis surj_pair)
  obtain rs1 s2 where two: "run_writes wr ws s1 = (rs1, s2)" by (metis surj_pair)
  from Cons.prems one two w have s': "s' = s2" by simp
  have "rd s1 q = Inr y" using write_other [OF Cons.prems(1) _ _ _ one] Cons.prems w by simp
  with Cons.IH [OF write_inv [OF Cons.prems(1) one] _ _ two [folded s']] Cons.prems w show ?case by simp
qed simp

text \<open>The last write to a path decides, whatever else is written before and after.\<close>

lemma latest_write:
  assumes "inv s" "run_writes wr (before @ (p, d, x) # later) s = (rs, s')" "rs ! length before = None"
    and "ok p" "ok q" "key q = key p" "list_all (\<lambda>(p', d', x'). ok p' \<and> key p' \<noteq> key q) later"
  shows "rd s' q = Inr d"
proof -
  obtain rs0 s0 where b: "run_writes wr before s = (rs0, s0)" by (metis surj_pair)
  obtain r s1 where w: "wr p d x s0 = (r, s1)" by (metis surj_pair)
  obtain rs2 s2 where l: "run_writes wr later s1 = (rs2, s2)" by (metis surj_pair)
  from assms(2) b w l have rs: "rs = rs0 @ r # rs2" "s' = s2" by (simp_all add: run_writes_append)
  with assms(3) run_writes_length [OF b] have "r = None" by (simp add: nth_append)
  with write_read [OF writes_inv [OF assms(1) b] assms(4,5,6)] w have "rd s1 q = Inr d" by simp
  from writes_other [OF write_inv [OF writes_inv [OF assms(1) b] w] assms(5,7) l this] rs(2)
  show ?thesis by simp
qed

end

subsection \<open>The file service keeps the contract\<close>

lemma fWrite_keeps:
  assumes "tree_ok rc fs" "plain (dest_comps path)" "fWrite (abs_path rc) path data stop fs = (e, fs')"
  shows "keeps (rc @ dest_comps path) fs fs'"
proof -
  let ?pc = "rc @ dest_comps path"
  have pl: "plain ?pc" "prefix rc ?pc" using assms(1,2) tree_okD [OF assms(1)] by auto
  obtain e1 fs1 where mk: "MkdirAll (Dir (abs_path ?pc)) fs = (e1, fs1)" by (metis surj_pair)
  note k1 = MkdirAll_keeps [OF mk, of ?pc]
  show ?thesis
  proof (cases e1)
    case (Some x)
    with assms(3) mk k1 show ?thesis by (simp add: fWrite_def resolve_dest [OF assms(1,2)])
  next
    case None
    with assms(3) mk have w: "open_write 420 data stop (abs_path ?pc) fs1 = (e, fs')"
      by (simp add: fWrite_def resolve_dest [OF assms(1,2)] WriteFile_def)
    have t1: "tree_ok rc fs1" using mkdir_parent_confined [OF assms(1) pl mk] by (simp add: confined_def)
    from keeps_trans [OF k1 open_write_keeps [OF t1 pl w]] show ?thesis .
  qed
qed

lemma fRead_below:
  assumes "tree_ok rc fs" "plain (dest_comps path)"
  shows "fRead fs (abs_path rc) path = Inr y \<longleftrightarrow>
    solid fs (rc @ dest_comps path) \<and> (\<exists>m. node_at fs (rc @ dest_comps path) = Some (NFile y m))"
proof -
  let ?pc = "rc @ dest_comps path"
  have pl: "plain ?pc" "prefix rc ?pc" using assms tree_okD [OF assms(1)] by auto
  from walk_inside_root [OF assms(1) pl, of kernel_links] show ?thesis
    using walk_solid [of fs ?pc kernel_links]
    by (auto simp: fRead_def resolve_dest [OF assms] ReadFile_def kernel_walk_abs [OF pl(1)]
        split: option.splits node.splits)
qed

interpretation ws: workspace "tree_ok rc" "\<lambda>p. plain (dest_comps p)" dest_comps
  "\<lambda>fs. fRead fs (abs_path rc)" "fWrite (abs_path rc)" for rc
proof unfold_locales
  show "tree_ok rc s'" if "tree_ok rc s" "fWrite (abs_path rc) p d x s = (r, s')" for s p d x r s'
    using fWrite_confined [OF that] by (simp add: confined_def)
  then have tree: "tree_ok rc s'" if "tree_ok rc s" "fWrite (abs_path rc) p d x s = (r, s')" for s p d x r s'
    using that by blast
  show "fRead s' (abs_path rc) q = Inr d" if "tree_ok rc s" "plain (dest_comps p)" "plain (dest_comps q)"
    "dest_comps q = dest_comps p" "fWrite (abs_path rc) p d x s = (None, s')" for s p q d x s'
    using write_effect [OF that(1,2,5)] fRead_below [OF tree [OF that(1,5)]] that(2,3,4) by simp
  show "fRead s' (abs_path rc) q = Inr y" if "tree_ok rc s" "plain (dest_comps p)" "plain (dest_comps q)"
    "dest_comps p \<noteq> dest_comps q" "fWrite (abs_path rc) p d x s = (r, s')" "fRead s (abs_path rc) q = Inr y"
    for s p q d x r s' y
  proof -
    from that(6) fRead_below [OF that(1,3)] have "solid s (rc @ dest_comps q)"
      "\<exists>m. node_at s (rc @ dest_comps q) = Some (NFile y m)" by blast+
    with keeps_solid [OF fWrite_keeps [OF that(1,2,5)], of "rc @ dest_comps q"] that(4)
      fRead_below [OF tree [OF that(1,5)] that(3)] show ?thesis by auto
  qed
qed

end
