(* ===== verification/FileRpc.thy ===== *)
theory FileRpc
  imports Service Workspace
begin

text \<open>
  The file handlers of the RPC service keep the same contract as the file service behind
  them, so a client of the protocol can rely on its writes.
\<close>

definition rpc_path :: "string \<Rightarrow> bool" where
  "rpc_path p \<longleftrightarrow> p \<noteq> '''' \<and> plain (dest_comps p)"

definition rpc_inv :: "loc \<Rightarrow> worker \<Rightarrow> bool" where
  "rpc_inv rc w \<longleftrightarrow> tree_ok rc (w_fs w) \<and> w_files w = abs_path rc"

definition rpc_write ::
  "(file_error \<Rightarrow> string) \<Rightarrow> string \<Rightarrow> bytes \<Rightarrow> nat option \<Rightarrow> worker \<Rightarrow> rpc_error option \<times> worker" where
  "rpc_write etext p d x w =
     (let (r, w') = FileWrite etext p d x w in (case r of Inl e \<Rightarrow> Some e | Inr _ \<Rightarrow> None, w'))"

lemma rpc_write_fWrite:
  "p \<noteq> '''' \<Longrightarrow> rpc_write etext p d x w = (r, w') \<Longrightarrow>
   \<exists>e fs. fWrite (w_files w) p d x (w_fs w) = (e, fs) \<and> w' = w\<lparr>w_fs := fs\<rparr> \<and> (r = None \<longleftrightarrow> e = None)"
  by (auto simp: rpc_write_def FileWrite_def split: prod.splits option.splits)

lemma rpc_write_empty: "rpc_write etext '''' d x w = (r, w') \<Longrightarrow> w' = w"
  by (simp add: rpc_write_def FileWrite_def)

lemma FileRead_fRead:
  "p \<noteq> '''' \<Longrightarrow> FileRead etext p w = Inr y \<longleftrightarrow> fRead (w_fs w) (w_files w) p = Inr y"
  by (auto simp: FileRead_def split: sum.splits)

interpretation rpc: workspace "rpc_inv rc" rpc_path dest_comps "\<lambda>w p. FileRead etext p w" "rpc_write etext"
  for rc etext
proof unfold_locales
  show inv: "rpc_inv rc w'" if "rpc_inv rc w" "rpc_write etext p d x w = (r, w')" for w p d x r w'
  proof (cases "p = ''''")
    case True
    with that rpc_write_empty show ?thesis by metis
  next
    case False
    have i: "tree_ok rc (w_fs w)" "w_files w = abs_path rc" using that(1) by (simp_all add: rpc_inv_def)
    from rpc_write_fWrite [OF False that(2)] i(2) obtain e fs where
      w: "fWrite (abs_path rc) p d x (w_fs w) = (e, fs)" "w' = w\<lparr>w_fs := fs\<rparr>" by metis
    from ws.write_inv [OF i(1) w(1)] i(2) w(2) show ?thesis by (simp add: rpc_inv_def)
  qed
  show "FileRead etext q w' = Inr d" if "rpc_inv rc w" "rpc_path p" "rpc_path q" "dest_comps q = dest_comps p"
    "rpc_write etext p d x w = (None, w')" for w p q d x w'
  proof -
    have p: "p \<noteq> ''''" "q \<noteq> ''''" "plain (dest_comps p)" "plain (dest_comps q)"
      using that(2,3) by (simp_all add: rpc_path_def)
    have i: "tree_ok rc (w_fs w)" "w_files w = abs_path rc" using that(1) by (simp_all add: rpc_inv_def)
    from rpc_write_fWrite [OF p(1) that(5)] i(2) obtain fs where
      w: "fWrite (abs_path rc) p d x (w_fs w) = (None, fs)" "w' = w\<lparr>w_fs := fs\<rparr>" by metis
    from ws.write_read [OF i(1) p(3,4) that(4) w(1)] i(2) p(2) w(2) show ?thesis
      by (simp add: FileRead_fRead)
  qed
  show "FileRead etext q w' = Inr y" if "rpc_inv rc w" "rpc_path p" "rpc_path q" "dest_comps p \<noteq> dest_comps q"
    "rpc_write etext p d x w = (r, w')" "FileRead etext q w = Inr y" for w p q d x r w' y
  proof -
    have p: "p \<noteq> ''''" "q \<noteq> ''''" "plain (dest_comps p)" "plain (dest_comps q)"
      using that(2,3) by (simp_all add: rpc_path_def)
    have i: "tree_ok rc (w_fs w)" "w_files w = abs_path rc" using that(1) by (simp_all add: rpc_inv_def)
    from rpc_write_fWrite [OF p(1) that(5)] i(2) obtain e fs where
      w: "fWrite (abs_path rc) p d x (w_fs w) = (e, fs)" "w' = w\<lparr>w_fs := fs\<rparr>" by metis
    from that(6) i(2) p(2) have "fRead (w_fs w) (abs_path rc) q = Inr y"
      by (simp add: FileRead_fRead)
    from ws.write_other [OF i(1) p(3,4) that(4) w(1) this] i(2) p(2) w(2) show ?thesis
      by (simp add: FileRead_fRead)
  qed
qed

text \<open>
  C30. A write stays until the path is written again. Take a workspace that holds no symbolic
  link and any sequence of \<open>FileWrite\<close> requests. A request for an ordinary relative path (one
  without empty, \<open>.\<close> or \<open>..\<close> parts) that was answered with success, and after which every
  later request, successful, failed or interrupted, is for another ordinary path, determines
  what \<open>FileRead\<close> of its path returns in the end: exactly its content, whatever came before it.
  Nothing is claimed once the same path is requested again: \<open>os.WriteFile\<close> truncates first, so
  an attempt that is interrupted loses the earlier content.
\<close>

theorem last_write_wins:
  assumes "tree_ok rc (w_fs w)" "w_files w = abs_path rc"
    and "run_writes (rpc_write etext) (before @ (p, d, x) # later) w = (rs, w')" "rs ! length before = None"
    and "rpc_path p" "list_all (\<lambda>(p', d', x'). rpc_path p' \<and> dest_comps p' \<noteq> dest_comps p) later"
  shows "FileRead etext p w' = Inr d"
  by (rule rpc.latest_write [of rc w etext before p d x later rs w']) (use assms in \<open>simp_all add: rpc_inv_def\<close>)

definition file_worker :: worker where
  "file_worker = NewService (NewManager (new_store \<lparr>db_jobs = [], db_lines = []\<rparr>) 10 10) ''/ws'' sample_fs (\<lambda>_. CHR ''b'')"

lemma file_worker_write: "fst (fWrite (abs_path [''ws'']) ''d/x'' ''2'' None sample_fs) = None"
  by (simp add: fs_eval)

theorem last_write_wins_witness:
  "\<exists>rs w'. run_writes (rpc_write (\<lambda>_. ''e'')) [(''d/x'', ''2'', None), (''log'', ''3'', Some 0)] file_worker
     = (rs, w') \<and>
     FileRead (\<lambda>_. ''e'') ''d/x'' w' = Inr ''2''"
proof -
  obtain rs w' where run: "run_writes (rpc_write (\<lambda>_. ''e'')) [(''d/x'', ''2'', None), (''log'', ''3'', Some 0)]
      file_worker = (rs, w')" by (metis surj_pair)
  have fs: "w_fs file_worker = sample_fs" "w_files file_worker = abs_path [''ws'']"
    by (simp_all add: file_worker_def NewService_def abs_path_def slash_def)
  obtain r w1 where one: "rpc_write (\<lambda>_. ''e'') ''d/x'' ''2'' None file_worker = (r, w1)" by (metis surj_pair)
  with file_worker_write have "r = None"
    by (auto simp: rpc_write_def FileWrite_def fs split: prod.splits option.splits)
  with run one have ok: "rs ! length [] = None" by (auto split: prod.splits)
  have paths: "rpc_path ''d/x''" "rpc_path ''log''" "dest_comps ''log'' \<noteq> dest_comps ''d/x''"
    by (simp_all add: rpc_path_def dest_comps_def slash_def plain_comp_def)
  have tree: "tree_ok [''ws''] (w_fs file_worker)" unfolding fs(1) by (rule sample_ok)
  from last_write_wins [OF tree fs(2), of "\<lambda>_. ''e''" "[]" "''d/x''" "''2''" None "[(''log'', ''3'', Some 0)]" rs w']
    run ok paths have "FileRead (\<lambda>_. ''e'') ''d/x'' w' = Inr ''2''" by simp
  with run show ?thesis by blast
qed

end
