(* ===== verification/Runner.thy ===== *)
theory Runner
  imports Paths LineBuffer "HOL-Library.Word" "HOL-Library.AList"
begin

text \<open>
  The process runner, \<open>internal/shellh/runner.go\<close> with \<open>exec_unix.go\<close> and
  \<open>exec_windows.go\<close>. The shell interpreter is a library: parsing, its construction and the
  error a run ends with are arguments; the functions here are the runner's own, those the
  interpreter calls back included. The outcomes of system calls are arguments, and so is
  the worker's own environment, which \<open>os/exec\<close> gives to a command whose list of variables is
  empty; signals sent and handles closed are results.
\<close>

subsection \<open>Commands and errors\<close>

type_synonym pid = int

datatype run_error = ExitStatus "8 word" | OtherError string

record cmd =
  c_Name :: string
  c_Args :: "string list"
  c_Dir :: string
  c_Env :: "string list"

record runner =
  r_Workspace :: string
  r_Env :: "string list"
  r_childs :: "(pid \<times> cmd) list"

definition NewRunner :: "string \<Rightarrow> string list \<Rightarrow> runner" where
  "NewRunner ws env = \<lparr>r_Workspace = ws, r_Env = env, r_childs = []\<rparr>"

definition kv :: "string \<Rightarrow> string \<Rightarrow> string" where
  "kv k v = k @ ''='' @ v"

text \<open>The request's map, in the order the iteration happens to take.\<close>

definition merge_env :: "(string \<times> string) list \<Rightarrow> string list \<Rightarrow> string list" where
  "merge_env env base = (if env = [] then base else base @ map (\<lambda>(k, v). kv k v) env)"

subsection \<open>A run\<close>

definition run_dir :: "string \<Rightarrow> string \<Rightarrow> string" where
  "run_dir ws workdir =
     (if workdir \<noteq> '''' then
        (if is_abs workdir then Clean workdir else Join [ws, workdir])
      else ws)"

definition exitCodeOf :: "run_error option \<Rightarrow> bool \<Rightarrow> int" where
  "exitCodeOf runErr ctx_done =
     (case runErr of
        None \<Rightarrow> 0
      | Some e \<Rightarrow>
          if ctx_done then 130
          else case e of ExitStatus es \<Rightarrow> uint es | OtherError _ \<Rightarrow> 127)"

datatype job_writer = LineWriter line_buffer | OtherWriter

definition writer_tail :: "job_writer \<Rightarrow> nat \<Rightarrow> string" where
  "writer_tail w n = (case w of LineWriter lb \<Rightarrow> lb_Tail n lb | OtherWriter \<Rightarrow> '''')"

definition defaultTailLines :: nat where "defaultTailLines = 200"

record run_result =
  rr_ExitCode :: int
  rr_Stdout :: string
  rr_Stderr :: string

text \<open>
  \<open>new_interp\<close> is the error of constructing the interpreter in a directory and environment;
  \<open>interp\<close> is what running the program there ends with: the error, whether the context is
  done by then, and the two writers.
\<close>

definition run_command ::
  "(string \<Rightarrow> string + 'p) \<Rightarrow> (string \<Rightarrow> string list \<Rightarrow> string option)
     \<Rightarrow> (string \<Rightarrow> string list \<Rightarrow> 'p \<Rightarrow> run_error option \<times> bool \<times> job_writer \<times> job_writer)
     \<Rightarrow> string \<Rightarrow> string \<Rightarrow> string list \<Rightarrow> runner \<Rightarrow> string + run_result" where
  "run_command parse new_interp interp command workdir env r =
     (let cwd = run_dir (r_Workspace r) workdir in
      case parse command of
        Inl e \<Rightarrow> Inl (''parse: '' @ e)
      | Inr file \<Rightarrow>
          (case new_interp cwd env of
             Some e \<Rightarrow> Inl (''interp: '' @ e)
           | None \<Rightarrow>
               (let (runErr, ctx_done, out, err) = interp cwd env file
                in Inr \<lparr>rr_ExitCode = exitCodeOf runErr ctx_done,
                        rr_Stdout = writer_tail out defaultTailLines,
                        rr_Stderr = writer_tail err defaultTailLines\<rparr>)))"

definition RunWithEnv ::
  "(string \<Rightarrow> string + 'p) \<Rightarrow> (string \<Rightarrow> string list \<Rightarrow> string option)
     \<Rightarrow> (string \<Rightarrow> string list \<Rightarrow> 'p \<Rightarrow> run_error option \<times> bool \<times> job_writer \<times> job_writer)
     \<Rightarrow> string \<Rightarrow> string \<Rightarrow> (string \<times> string) list \<Rightarrow> runner \<Rightarrow> string + run_result" where
  "RunWithEnv parse new_interp interp command workdir env r =
     run_command parse new_interp interp command workdir (merge_env env (r_Env r)) r"

definition Run ::
  "(string \<Rightarrow> string + 'p) \<Rightarrow> (string \<Rightarrow> string list \<Rightarrow> string option)
     \<Rightarrow> (string \<Rightarrow> string list \<Rightarrow> 'p \<Rightarrow> run_error option \<times> bool \<times> job_writer \<times> job_writer)
     \<Rightarrow> string \<Rightarrow> string \<Rightarrow> runner \<Rightarrow> string + run_result" where
  "Run parse new_interp interp command workdir r =
     run_command parse new_interp interp command workdir (r_Env r) r"

subsection \<open>The handlers the interpreter calls\<close>

text \<open>The interpreter's handler context: directory and variables at the call.\<close>

record handler_ctx =
  hc_Dir :: string
  hc_Env :: "string list"

definition track :: "pid \<Rightarrow> cmd \<Rightarrow> runner \<Rightarrow> runner" where
  "track p c r = r\<lparr>r_childs := AList.update p c (r_childs r)\<rparr>"

definition untrack :: "pid \<Rightarrow> runner \<Rightarrow> runner" where
  "untrack p r = r\<lparr>r_childs := AList.delete p (r_childs r)\<rparr>"

text \<open>
  \<open>execMiddleware\<close> in two parts: up to the started process (or the error and what is
  printed), and from the end of its wait. \<open>prep\<close> is the platform's \<open>prepareExec\<close>,
  \<open>own\<close> the environment of the worker's process: \<open>os/exec\<close> takes an empty (nil) \<open>cmd.Env\<close>
  to mean that one. What it adds by itself (\<open>PWD\<close>, on Windows \<open>SYSTEMROOT\<close>) is left out.
\<close>

definition exec_begin ::
  "(string \<Rightarrow> string list \<Rightarrow> string \<times> string list) \<Rightarrow> string list \<Rightarrow> string list \<Rightarrow> handler_ctx \<Rightarrow> string list
     \<Rightarrow> (string + pid) \<Rightarrow> runner \<Rightarrow> (run_error \<times> string + pid \<times> cmd) \<times> runner" where
  "exec_begin prep own env hc args started r =
     (if args = [] then (Inl (ExitStatus 1, ''''), r)
      else let (name, argv) = prep (hd args) (tl args);
               c = \<lparr>c_Name = name, c_Args = argv, c_Dir = hc_Dir hc,
                    c_Env = (if env = [] then own else env)\<rparr>
           in case started of
                Inl e \<Rightarrow> (Inl (ExitStatus 127, e @ [LF]), r)
              | Inr p \<Rightarrow> (Inr (p, c), track p c r))"

datatype wait_error = ExitError int | WaitError string

definition asExitError :: "wait_error \<Rightarrow> int option" where
  "asExitError e = (case e of ExitError c \<Rightarrow> Some c | WaitError _ \<Rightarrow> None)"

definition exec_end :: "wait_error option \<Rightarrow> bool \<Rightarrow> pid \<Rightarrow> runner \<Rightarrow> run_error option \<times> runner" where
  "exec_end waited ctx_done p r =
     ((case waited of
         None \<Rightarrow> None
       | Some e \<Rightarrow>
           if ctx_done then Some (ExitStatus 130)
           else case asExitError e of
             Some c \<Rightarrow> Some (ExitStatus (word_of_int c))
           | None \<Rightarrow> Some (ExitStatus 127)),
      untrack p r)"

definition open_path :: "handler_ctx \<Rightarrow> string \<Rightarrow> string" where
  "open_path hc path = (if \<not> is_abs path then Join [hc_Dir hc, path] else path)"

text \<open>The process ids the signals go to; a negative id is a process group.\<close>

definition KillAll :: "(pid \<Rightarrow> 'a list) \<Rightarrow> runner \<Rightarrow> 'a list" where
  "KillAll killTree r = concat (map (killTree \<circ> fst) (r_childs r))"

subsection \<open>Unix\<close>

definition prepareExec :: "string \<Rightarrow> string list \<Rightarrow> string \<times> string list" where
  "prepareExec name args = (name, args)"

definition killProcessTree :: "pid \<Rightarrow> pid list" where
  "killProcessTree p = [- p, p]"

record tree_handle =
  th_pid :: pid

definition newTreeHandle :: tree_handle where
  "newTreeHandle = \<lparr>th_pid = 0\<rparr>"

definition attach :: "pid \<Rightarrow> tree_handle \<Rightarrow> tree_handle" where
  "attach p h = h\<lparr>th_pid := p\<rparr>"

definition terminate :: "tree_handle \<Rightarrow> pid list" where
  "terminate h = (if th_pid h \<noteq> 0 then [- th_pid h, th_pid h] else [])"

subsection \<open>Windows\<close>

type_synonym handle = nat

record win_tree_handle =
  wh_pid :: pid
  wh_job :: handle
  wh_hasJob :: bool

definition win_newTreeHandle :: win_tree_handle where
  "win_newTreeHandle = \<lparr>wh_pid = 0, wh_job = 0, wh_hasJob = False\<rparr>"

datatype win_action =
    OpenedHandle handle
  | ClosedHandle handle
  | TerminatedJob handle
  | Taskkill "string list"

definition registerJob :: "pid \<Rightarrow> handle \<Rightarrow> (pid \<times> handle) list \<Rightarrow> (pid \<times> handle) list" where
  [simp]: "registerJob p h reg = AList.update p h reg"

definition unregisterJob :: "pid \<Rightarrow> (pid \<times> handle) list \<Rightarrow> (pid \<times> handle) list" where
  [simp]: "unregisterJob p reg = AList.delete p reg"

text \<open>
  \<open>attach\<close>: the results of \<open>CreateJobObject\<close>, \<open>SetInformationJobObject\<close>, \<open>OpenProcess\<close>
  and \<open>AssignProcessToJobObject\<close> are arguments; \<open>reg\<close> is \<open>jobByPid\<close>.
\<close>

definition win_attach ::
  "handle option \<Rightarrow> bool \<Rightarrow> handle option \<Rightarrow> bool \<Rightarrow> pid \<Rightarrow> win_tree_handle \<Rightarrow> (pid \<times> handle) list
     \<Rightarrow> (bool \<times> win_tree_handle) \<times> (pid \<times> handle) list \<times> win_action list" where
  "win_attach created info_ok opened assign_ok p h reg =
     (let h1 = h\<lparr>wh_pid := p\<rparr> in
      case created of
        None \<Rightarrow> ((False, h1), reg, [])
      | Some job \<Rightarrow>
          if \<not> info_ok then ((False, h1), reg, [OpenedHandle job, ClosedHandle job])
          else case opened of
            None \<Rightarrow> ((False, h1), reg, [OpenedHandle job, ClosedHandle job])
          | Some ph \<Rightarrow>
              if \<not> assign_ok
              then ((False, h1), reg, [OpenedHandle job, OpenedHandle ph, ClosedHandle job, ClosedHandle ph])
              else ((True, h1\<lparr>wh_job := job, wh_hasJob := True\<rparr>), registerJob p job reg,
                    [OpenedHandle job, OpenedHandle ph, ClosedHandle ph]))"

definition win_close ::
  "win_tree_handle \<Rightarrow> (pid \<times> handle) list \<Rightarrow> win_tree_handle \<times> (pid \<times> handle) list \<times> win_action list" where
  "win_close h reg =
     (let reg1 = (if wh_pid h \<noteq> 0 then unregisterJob (wh_pid h) reg else reg) in
      if wh_hasJob h then (h\<lparr>wh_hasJob := False\<rparr>, reg1, [ClosedHandle (wh_job h)])
      else (h, reg1, []))"

definition win_killProcessTree :: "pid \<Rightarrow> (pid \<times> handle) list \<Rightarrow> (pid \<times> handle) list \<times> win_action list" where
  "win_killProcessTree p reg =
     (case map_of reg p of
        Some h \<Rightarrow> (AList.delete p reg, [TerminatedJob h, ClosedHandle h])
      | None \<Rightarrow> (AList.delete p reg, []))"

text \<open>
  \<open>itoa\<close> on a 64-bit signed integer, negation wrapping around. The buffer of 20 bytes is
  filled from its end, \<open>None\<close> being the panic of an index below 0.
\<close>

function itoa_digits :: "int \<Rightarrow> nat \<Rightarrow> string \<Rightarrow> string option" where
  "itoa_digits i pos acc =
     (if i > 0 then
        (if pos = 0 then None
         else itoa_digits (i div 10) (pos - 1) (char_of (48 + nat (i mod 10)) # acc))
      else Some acc)"
  by pat_completeness auto
termination
  by (relation "measure (\<lambda>(i, pos, acc). nat i)") auto

declare itoa_digits.simps [simp del]

definition wrap64 :: "int \<Rightarrow> int" where
  "wrap64 i = sint (word_of_int i :: 64 word)"

definition itoa :: "int \<Rightarrow> string option" where
  "itoa i =
     (if i = 0 then Some ''0''
      else let neg = i < 0; j = (if neg then wrap64 (- i) else i) in
        case itoa_digits j 20 '''' of
          None \<Rightarrow> None
        | Some ds \<Rightarrow>
            if neg then (if length ds \<ge> 20 then None else Some (CHR ''-'' # ds)) else Some ds)"

text \<open>\<open>killed\<close> is the result of \<open>TerminateJobObject\<close>.\<close>

definition win_terminate :: "bool \<Rightarrow> win_tree_handle \<Rightarrow> win_action list option" where
  "win_terminate killed h =
     (if wh_pid h = 0 then Some []
      else if wh_hasJob h \<and> killed then Some [TerminatedJob (wh_job h)]
      else map_option (\<lambda>p. [Taskkill [''/T'', ''/F'', ''/PID'', p]]) (itoa (wh_pid h)))"

text \<open>\<open>strings.ToLower\<close> is a parameter.\<close>

definition win_prepareExec :: "(string \<Rightarrow> string) \<Rightarrow> string \<Rightarrow> string list \<Rightarrow> string \<times> string list" where
  "win_prepareExec toLower name args =
     (let lower = toLower name in
      if has_suffix ''.cmd'' lower \<or> has_suffix ''.bat'' lower
      then (''cmd.exe'', [''/c'', name] @ args) else (name, args))"


section \<open>Properties\<close>

text \<open>
  How a process reads its environment list: the last entry of a key wins, as
  \<open>os/exec\<close> and \<open>expand.ListEnviron\<close> document.
\<close>

definition env_lookup :: "string list \<Rightarrow> string \<Rightarrow> string option" where
  "env_lookup es k =
     map_option (drop (Suc (length k))) (find (has_prefix (k @ ''='')) (rev es))"

lemma find_append: "find P (xs @ ys) = (case find P xs of None \<Rightarrow> find P ys | Some x \<Rightarrow> Some x)"
  by (induction xs) simp_all

lemma kv_prefix:
  assumes "CHR ''='' \<notin> set k" "CHR ''='' \<notin> set k'"
  shows "has_prefix (k @ ''='') (kv k' v) \<longleftrightarrow> k = k'"
proof
  assume "has_prefix (k @ ''='') (kv k' v)"
  then obtain t where "k @ CHR ''='' # t = k' @ CHR ''='' # v"
    by (auto simp: has_prefix_iff kv_def)
  moreover have "takeWhile (\<lambda>c. c \<noteq> CHR ''='') (x @ CHR ''='' # y) = x" if "CHR ''='' \<notin> set x" for x y
    using that by (induction x) auto
  ultimately show "k = k'" using assms by metis
qed (auto simp: has_prefix_iff kv_def)

lemma env_lookup_kvs:
  assumes "CHR ''='' \<notin> set k" "\<forall>(k', v) \<in> set env. CHR ''='' \<notin> set k'" "distinct (map fst env)"
  shows "map_option (drop (Suc (length k))) (find (has_prefix (k @ ''='')) (rev (map (\<lambda>(k, v). kv k v) env)))
    = map_of env k"
  using assms(2,3)
proof (induction env)
  case (Cons p env)
  obtain k' v where p: "p = (k', v)" by (metis surj_pair)
  have rest: "map_of env k' = None" using Cons.prems(2) p by (simp add: map_of_eq_None_iff)
  have "has_prefix (k @ ''='') (kv k' v) \<longleftrightarrow> k = k'" using kv_prefix [OF assms(1)] Cons.prems(1) p by auto
  with Cons p rest show ?case
    by (cases "find (has_prefix (k @ ''='')) (rev (map (\<lambda>(k, v). kv k v) env))")
      (auto simp: find_append kv_def)
qed simp

text \<open>
  A job's variables override the base. In the environment \<open>RunWithEnv\<close> hands to the
  interpreter and to every process, whatever order the request's map is iterated in, a key
  of the request has the request's value and every other key its base value (keys without
  an equals sign).
\<close>

theorem request_env_overrides:
  assumes "distinct (map fst env)" "\<forall>(k', v) \<in> set env. CHR ''='' \<notin> set k'" "CHR ''='' \<notin> set k"
  shows "env_lookup (merge_env env base) k =
    (case map_of env k of Some v \<Rightarrow> Some v | None \<Rightarrow> env_lookup base k)"
proof (cases "env = []")
  case False
  let ?f = "find (has_prefix (k @ ''=''))"
  have "env_lookup (merge_env env base) k =
      map_option (drop (Suc (length k))) (case ?f (rev (map (\<lambda>(k, v). kv k v) env)) of
        None \<Rightarrow> ?f (rev base) | Some x \<Rightarrow> Some x)"
    using False by (simp add: env_lookup_def merge_env_def find_append)
  also have "\<dots> = (case map_of env k of Some v \<Rightarrow> Some v | None \<Rightarrow> env_lookup base k)"
    using env_lookup_kvs [OF assms(3,2,1)]
    by (cases "?f (rev (map (\<lambda>(k, v). kv k v) env))"; cases "map_of env k") (simp_all add: env_lookup_def)
  finally show ?thesis .
qed (simp add: merge_env_def)

theorem request_env_overrides_witness:
  "env_lookup (merge_env [(''HOME'', ''/tmp''), (''CI'', ''1'')] [''HOME=/root'', ''PATH=/bin'']) ''HOME'' = Some ''/tmp'' \<and>
   env_lookup (merge_env [(''HOME'', ''/tmp''), (''CI'', ''1'')] [''HOME=/root'', ''PATH=/bin'']) ''PATH'' = Some ''/bin''"
  using request_env_overrides [of "[(''HOME'', ''/tmp''), (''CI'', ''1'')]" "''HOME''" "[''HOME=/root'', ''PATH=/bin'']"]
    request_env_overrides [of "[(''HOME'', ''/tmp''), (''CI'', ''1'')]" "''PATH''" "[''HOME=/root'', ''PATH=/bin'']"]
  by (simp add: env_lookup_def has_prefix_def)

text \<open>
  A process is given the runner's environment, not the interpreter's: variables the script
  exports or sets for one command do not reach it.
\<close>

theorem exported_variables_are_lost:
  "exec_begin prep own env (hc\<lparr>hc_Env := vars\<rparr>) args started r = exec_begin prep own env hc args started r"
  by (simp add: exec_begin_def)

subsection \<open>Decimal process ids\<close>

definition digits_value :: "string \<Rightarrow> int" where
  "digits_value s = fold (\<lambda>c n. 10 * n + (int (of_char c) - 48)) s 0"

definition parse_int :: "string \<Rightarrow> int" where
  "parse_int s = (if has_prefix ''-'' s then - digits_value (drop 1 s) else digits_value s)"

definition all_digits :: "string \<Rightarrow> bool" where
  "all_digits s \<longleftrightarrow> list_all (\<lambda>c. 48 \<le> (of_char c :: nat) \<and> (of_char c :: nat) \<le> 57) s"

lemma digits_value_simps [simp]:
  "digits_value '''' = 0"
  "digits_value (ds @ [c]) = 10 * digits_value ds + (int (of_char c) - 48)"
  by (simp_all add: digits_value_def)

lemma digit_char: "(of_char (char_of (48 + nat (i mod 10)) :: char) :: nat) = 48 + nat (i mod 10)"
proof -
  have "nat (i mod 10) < 10" by (simp add: nat_less_iff)
  then show ?thesis by (simp add: of_char_of)
qed

lemma div_less_by_ten: "(i :: int) < 10 * n \<Longrightarrow> i div 10 < n"
  by presburger

lemma itoa_digits_value:
  assumes "0 \<le> i" "i < 10 ^ pos" "all_digits acc"
  shows "\<exists>ds. itoa_digits i pos acc = Some (ds @ acc) \<and> digits_value ds = i \<and> all_digits (ds @ acc) \<and>
    length ds \<le> pos \<and> (0 < i \<longrightarrow> ds \<noteq> [])"
  using assms
proof (induction i pos acc rule: itoa_digits.induct)
  case (1 i pos acc)
  show ?case
  proof (cases "i = 0")
    case True
    then show ?thesis using 1(4) by (subst itoa_digits.simps) simp
  next
    case False
    with 1(2) have i: "0 < i" by simp
    with 1(3) have pos: "0 < pos" by (cases pos) auto
    let ?c = "char_of (48 + nat (i mod 10)) :: char"
    have c: "(of_char ?c :: nat) = 48 + nat (i mod 10)" by (rule digit_char)
    have m: "nat (i mod 10) \<le> 9" by (simp add: nat_le_iff)
    have "all_digits (?c # acc)" using 1(4) m by (simp add: all_digits_def c)
    moreover have "i div 10 < 10 ^ (pos - 1)"
    proof -
      have "i < 10 * 10 ^ (pos - 1)" using 1(3) pos by (cases pos) simp_all
      then show ?thesis by (rule div_less_by_ten)
    qed
    ultimately obtain ds where ds: "itoa_digits (i div 10) (pos - 1) (?c # acc) = Some (ds @ ?c # acc)"
      "digits_value ds = i div 10" "all_digits (ds @ ?c # acc)" "length ds \<le> pos - 1"
      using 1(1) [OF i] pos i by force
    have "digits_value (ds @ [?c]) = 10 * digits_value ds + (int (of_char ?c) - 48)" by simp
    also have "\<dots> = i" by (simp add: ds(2) c)
    finally have "digits_value (ds @ [?c]) = i" .
    moreover have "itoa_digits i pos acc = Some ((ds @ [?c]) @ acc)"
      using i pos ds(1) by (subst itoa_digits.simps) simp
    ultimately show ?thesis using ds(3,4) pos by (intro exI [of _ "ds @ [?c]"]) simp
  qed
qed


lemma itoa_digits_more:
  "itoa_digits i pos acc = Some s \<Longrightarrow> pos \<le> pos' \<Longrightarrow> itoa_digits i pos' acc = Some s"
proof (induction i pos acc arbitrary: pos' rule: itoa_digits.induct)
  case (1 i pos acc)
  show ?case
  proof (cases "i > 0")
    case True
    with 1(2) have "pos \<noteq> 0" "itoa_digits (i div 10) (pos - 1) (char_of (48 + nat (i mod 10)) # acc) = Some s"
      by (subst (asm) itoa_digits.simps; simp split: if_splits)+
    with 1(1) [OF True this, of "pos' - 1"] True 1(3) show ?thesis
      by (subst itoa_digits.simps) simp
  next
    case False
    with 1(2) show ?thesis by (subst (asm) itoa_digits.simps) (simp add: itoa_digits.simps)
  qed
qed

text \<open>
  A process id prints as its decimal. For every 64-bit integer but the least, \<open>itoa\<close>
  stays inside its 20-byte buffer and its digits spell the integer (the least one prints
  as a lone minus sign, the negation wrapping around).
\<close>

theorem itoa_prints_the_number:
  assumes "- (2 ^ 63) < i" "i < 2 ^ 63"
  shows "\<exists>s. itoa i = Some s \<and> parse_int s = i \<and> length s \<le> 20"
proof -
  have pos: "\<exists>ds. itoa_digits j 20 '''' = Some ds \<and> digits_value ds = j \<and> all_digits ds \<and> length ds \<le> 19 \<and> ds \<noteq> ''''"
    if "0 < j" "j < 2 ^ 63" for j
  proof -
    have range: "0 \<le> j" "j < 10 ^ 19" and gt: "0 < j" using that by auto
    obtain ds where "itoa_digits j 19 '''' = Some ds" "digits_value ds = j" "all_digits ds" "length ds \<le> 19" "ds \<noteq> ''''"
      using itoa_digits_value [OF range, of "''''"] gt by (auto simp: all_digits_def)
    with itoa_digits_more [of j 19 "''''" ds 20] show ?thesis by auto
  qed
  have nominus: "\<not> has_prefix ''-'' ds" if "all_digits ds" for ds
    using that by (cases ds) (auto simp: has_prefix_def all_digits_def)
  consider "i = 0" | "0 < i" | "i < 0" by linarith
  then show ?thesis
  proof cases
    case 1
    then show ?thesis by (simp add: itoa_def parse_int_def has_prefix_def digits_value_def)
  next
    case 2
    from pos [OF 2 assms(2)] nominus 2 show ?thesis by (auto simp: itoa_def Let_def parse_int_def)
  next
    case 3
    have "wrap64 (- i) = - i"
      unfolding wrap64_def sint_sbintrunc' by (rule signed_take_bit_int_eq_self) (use 3 assms in simp_all)
    moreover have "0 < - i" "- i < 2 ^ 63" using 3 assms by simp_all
    ultimately show ?thesis using pos [of "- i"] 3
      by (auto simp: itoa_def Let_def parse_int_def has_prefix_def)
  qed
qed

theorem itoa_prints_the_number_witness:
  "\<exists>s. itoa (- 1203) = Some s \<and> parse_int s = - 1203 \<and> length s \<le> 20"
  by (rule itoa_prints_the_number) simp_all

lemma itoa_least: "itoa (- (2 ^ 63)) = Some ''-''"
  by (simp add: itoa_def wrap64_def itoa_digits.simps)

subsection \<open>Job object handles\<close>

definition opened_handles :: "win_action list \<Rightarrow> handle list" where
  "opened_handles as = List.map_filter (\<lambda>a. case a of OpenedHandle h \<Rightarrow> Some h | _ \<Rightarrow> None) as"

definition closed_handles :: "win_action list \<Rightarrow> handle list" where
  "closed_handles as = List.map_filter (\<lambda>a. case a of ClosedHandle h \<Rightarrow> Some h | _ \<Rightarrow> None) as"

text \<open>
  A command's handles are closed once. On Windows, whichever of the four calls of
  \<open>attach\<close> fails, \<open>attach\<close> followed by \<open>close\<close> closes exactly the handles that were opened,
  each once, and leaves neither the handle nor the registry holding one; a command whose
  attachment succeeded is killed through its job object until then.
\<close>

theorem attach_and_close_balance:
  assumes "win_attach created info_ok opened assign_ok p win_newTreeHandle reg = ((ok, h), reg1, as1)"
    and "win_close h reg1 = (h', reg2, as2)"
  shows "mset (closed_handles (as1 @ as2)) = mset (opened_handles (as1 @ as2)) \<and> \<not> wh_hasJob h' \<and>
    (ok \<and> p \<noteq> 0 \<longrightarrow> map_of reg2 p = None \<and> win_terminate True h = Some [TerminatedJob (wh_job h)] \<and>
       map_of reg1 p = Some (wh_job h))"
  using assms
  by (auto simp: win_attach_def win_close_def win_newTreeHandle_def win_terminate_def Let_def
      opened_handles_def closed_handles_def List.map_filter_simps update_conv' delete_conv'
      split: if_splits option.splits)

theorem attach_and_close_balance_witness:
  "let ((ok, h), reg1, as1) = win_attach (Some 8) True (Some 9) True 77 win_newTreeHandle [];
       (h', reg2, as2) = win_close h reg1
   in ok \<and> mset (closed_handles (as1 @ as2)) = {#8, 9#} \<and> reg2 = []"
  using attach_and_close_balance [of "Some 8" True "Some 9" True 77 "[]"]
  by (simp add: win_attach_def win_close_def win_newTreeHandle_def Let_def opened_handles_def
      List.map_filter_simps)

text \<open>
  After \<open>KillAll\<close> the handle is closed a second time when the command ends: \<open>killAllHandle\<close>
  closes the job object the command's own tree handle still owns.
\<close>

theorem kill_all_closes_twice:
  "let ((ok, h), reg1, as1) = win_attach (Some 8) True (Some 9) True 77 win_newTreeHandle [];
       (reg2, as2) = win_killProcessTree 77 reg1;
       (h', reg3, as3) = win_close h reg2
   in ok \<and> closed_handles (as2 @ as3) = [8, 8]"
  by (simp add: win_attach_def win_close_def win_killProcessTree_def win_newTreeHandle_def Let_def
      closed_handles_def List.map_filter_simps)

end
