(* ===== verification/Config.thy ===== *)
theory Config
  imports Watch FileRpc Runner
begin

text \<open>
  The worker program, \<open>cmd/easyworker/main.go\<close>: settings from flags and environment, the
  environment of jobs, and how the parts are put together. The process environment is a
  map; which files exist, the home directory and the operating system are arguments.
\<close>

type_synonym environ = "string \<rightharpoonup> string"

definition getenv :: "environ \<Rightarrow> string \<Rightarrow> string" where
  "getenv env k = (case env k of None \<Rightarrow> '''' | Some v \<Rightarrow> v)"

definition envOr :: "environ \<Rightarrow> string \<Rightarrow> string \<Rightarrow> string" where
  "envOr env k d = (let v = getenv env k in if v \<noteq> '''' then v else d)"

definition workerStateFile :: "environ \<Rightarrow> string \<Rightarrow> string" where
  "workerStateFile env dbPath =
     (case env ''WORKER_STATE_FILE'' of
        Some v \<Rightarrow> if v = '''' \<or> v = ''off'' then '''' else v
      | None \<Rightarrow> Join [Dir dbPath, ''worker.state''])"

text \<open>\<open>os.UserHomeDir\<close> is an argument; \<open>None\<close> is its error.\<close>

definition defaultWorkspace :: "string option \<Rightarrow> string" where
  "defaultWorkspace home =
     (let h = (case home of None \<Rightarrow> ''.'' | Some h \<Rightarrow> h) in Join [h, ''EasyLab'', ''workspace''])"

subsection \<open>The environment of jobs\<close>

definition containsKey :: "string list \<Rightarrow> string \<Rightarrow> bool" where
  "containsKey env key = list_ex (has_prefix (key @ ''='')) env"

definition firstExistingFile :: "(string \<Rightarrow> bool) \<Rightarrow> string list \<Rightarrow> string" where
  "firstExistingFile exists paths = (case find exists paths of Some p \<Rightarrow> p | None \<Rightarrow> '''')"

definition defaultUnixPath :: string where
  "defaultUnixPath =
     join_with '':'' [''/usr/local/sbin'', ''/usr/local/bin'', ''/usr/sbin'', ''/usr/bin'',
       ''/sbin'', ''/bin'', ''/root/.cargo/bin'', ''/root/go/bin'']"

definition pass_keys :: "string list" where
  "pass_keys =
     [''HTTP_PROXY'', ''HTTPS_PROXY'', ''http_proxy'', ''https_proxy'',
      ''NO_PROXY'', ''no_proxy'',
      ''NPM_CONFIG_REGISTRY'', ''PIP_INDEX_URL'', ''GOPROXY'', ''GOSUMDB'',
      ''CARGO_REGISTRIES_CRATES_IO_INDEX'',
      ''SSL_CERT_FILE'', ''SSL_CERT_DIR'',
      ''CURL_CA_BUNDLE'', ''GIT_SSL_CAINFO'', ''GIT_SSL_CAPATH'',
      ''REQUESTS_CA_BUNDLE'', ''CURL_CA_BUNDLE'', ''PIP_CERT'',
      ''NODE_EXTRA_CA_CERTS'', ''NODE_OPTIONS'',
      ''AWS_CA_BUNDLE'', ''DENO_CERT'', ''CARGO_HTTP_CAINFO'',
      ''COMPOSER_CAFILE'', ''HEX_CACERTS_PATH'', ''NIX_SSL_CERT_FILE'',
      ''DART_VM_OPTIONS'', ''UV_NATIVE_TLS'', ''UV_SYSTEM_CERTS'',
      ''JAVA_TOOL_OPTIONS'', ''JAVA_HOME'',
      ''CC'', ''CXX'', ''CFLAGS'', ''CXXFLAGS'', ''CPPFLAGS'', ''LDFLAGS'', ''CMAKE_GENERATOR'',
      ''PATH'',
      ''HOME'', ''TMPDIR'', ''USER'']"

definition windows_keys :: "string list" where
  "windows_keys = [''SystemRoot'', ''SYSTEMROOT'', ''windir'', ''TEMP'', ''USERPROFILE'', ''APPDATA'']"

definition cert_files :: "string list" where
  "cert_files = [''/etc/ssl/certs/ca-certificates.crt'', ''/etc/ssl/cert.pem'',
     ''/etc/pki/tls/certs/ca-bundle.crt'']"

fun pass_through :: "environ \<Rightarrow> string list \<Rightarrow> string list \<Rightarrow> string list" where
  "pass_through env [] out = out"
| "pass_through env (k # ks) out =
     pass_through env ks (case env k of Some v \<Rightarrow> out @ [kv k v] | None \<Rightarrow> out)"

fun pass_missing :: "environ \<Rightarrow> string list \<Rightarrow> string list \<Rightarrow> string list" where
  "pass_missing env [] out = out"
| "pass_missing env (k # ks) out =
     pass_missing env ks
       (case env k of Some v \<Rightarrow> if \<not> containsKey out k then out @ [kv k v] else out | None \<Rightarrow> out)"

definition jobEnv :: "environ \<Rightarrow> (string \<Rightarrow> bool) \<Rightarrow> string \<Rightarrow> string list" where
  "jobEnv env exists goos =
     (let out = pass_through env pass_keys [];
          out = (if \<not> containsKey out ''SSL_CERT_FILE'' then
                   (let f = firstExistingFile exists cert_files in
                    if f \<noteq> '''' then out @ [kv ''SSL_CERT_FILE'' f] else out)
                 else out);
          out = (if goos = ''windows'' then pass_missing env windows_keys out else out);
          out = (if goos \<noteq> ''windows'' \<and> \<not> containsKey out ''PATH''
                 then out @ [kv ''PATH'' defaultUnixPath] else out)
      in out)"

subsection \<open>Putting the worker together\<close>

record flags =
  f_addr :: string
  f_workspace :: string
  f_db :: string

record settings =
  s_listen :: string
  s_workspace :: string
  s_db :: string
  s_state :: string
  s_auth :: options

definition read_settings :: "flags \<Rightarrow> environ \<Rightarrow> string option \<Rightarrow> string \<Rightarrow> settings" where
  "read_settings f env home boot =
     (let listen = (if f_addr f = '''' then ''0.0.0.0:'' @ envOr env ''WORKER_PORT'' ''8080'' else f_addr f);
          ws = (if f_workspace f = '''' then envOr env ''WORKER_WORKSPACE'' (defaultWorkspace home) else f_workspace f);
          db = (if f_db f = '''' then envOr env ''WORKER_DB'' ''easyworker.db'' else f_db f)
      in \<lparr>s_listen = listen, s_workspace = ws, s_db = db, s_state = workerStateFile env db,
          s_auth = \<lparr>PreAuthorizedToken = getenv env ''WORKER_TOKEN'',
                    OptDisabled = (getenv env ''WORKER_REQUIRE_AUTH'' = ''0''), OptBootID = boot\<rparr>\<rparr>)"

datatype boot_error = BootWorkspace | BootStore open_error | BootAuth auth_error

text \<open>
  \<open>main\<close> up to the handlers: the worker, its runner and its gate. \<open>fs\<close> is the file system
  after \<open>MkdirAll\<close> of the workspace, \<open>open_fs\<close> the state file behind a path, \<open>b\<close> and \<open>e\<close> the
  random bytes of the boot id and the enrollment code.
\<close>

record 's booted =
  b_worker :: worker
  b_runner :: runner
  b_gate :: gate
  b_state :: "'s option"

definition boot ::
  "'s state_store \<Rightarrow> (string \<Rightarrow> 's) \<Rightarrow> open_env \<Rightarrow> database option \<Rightarrow> int \<Rightarrow> file_sys
     \<Rightarrow> (nat \<Rightarrow> byte) \<Rightarrow> entropy \<Rightarrow> flags \<Rightarrow> environ \<Rightarrow> string option \<Rightarrow> (string \<Rightarrow> bool) \<Rightarrow> string
     \<Rightarrow> boot_error + 's booted" where
  "boot ops open_fs oenv dbf now fs0 b e f env home exists goos =
     (let s0 = read_settings f env home '''';
          (mk, fs) = MkdirAll (s_workspace s0) fs0
      in if mk \<noteq> None then Inl BootWorkspace
         else (let r = NewRunner (s_workspace s0) (jobEnv env exists goos) in
           case OpenStore oenv dbf now of
             Inl x \<Rightarrow> Inl (BootStore x)
           | Inr st \<Rightarrow>
               (let w = NewService (NewManager st 10000 1000) (s_workspace s0) fs b;
                    s = read_settings f env home (BootID w);
                    state = (if s_state s \<noteq> '''' then Some (open_fs (s_state s)) else None)
                in case NewGate ops (s_auth s) state e of
                     (Inl x, _) \<Rightarrow> Inl (BootAuth x)
                   | (Inr g, state') \<Rightarrow>
                       Inr \<lparr>b_worker = w, b_runner = r, b_gate = g, b_state = state'\<rparr>)))"

end
