(* ===== verification/Worker.thy ===== *)
theory Worker
  imports Config
begin

text \<open>
  The running worker: the request multiplexer of \<open>cmd/easyworker/main.go\<close>, which mounts
  the worker service behind the interceptor and the enrollment service in front of it, and
  the properties of the whole: who can change what, which environment a job sees, what
  verdict a run gets.
\<close>

subsection \<open>Requests\<close>

datatype msg =
    MInfo
  | MExecute execute_request
  | MListJobs
  | MWatchJob string
  | MJobOutput string string int int
  | MJobWait string int
  | MJobStdin string bytes bool
  | MJobKill string
  | MFileRead string
  | MFileWrite string bytes
  | MFileList string
  | MSyncFolder bytes string bool
  | MEnrollStatus
  | MEnrollClaim string string
  | MUnrelease string
  | MHealthz

datatype resp =
    RespError rpc_error
  | RespPanic
  | RespInfo info_response
  | RespJobId string
  | RespJobs "job_row list"
  | RespStream watch_end "watch_event list"
  | RespPage output_page
  | RespWait wait_response
  | RespOk bool
  | RespContent bytes
  | RespFiles "bool \<times> entry list"
  | RespSynced "int \<times> string"
  | RespStatus enroll_status_response
  | RespToken string
  | RespCode string
  | RespHealth string

text \<open>What the outside decides while one request is served.\<close>

record rpc_env =
  x_bytes :: "nat \<Rightarrow> byte"
  x_entropy :: entropy
  x_now :: int
  x_time :: time
  x_time' :: time
  x_db :: "nat \<Rightarrow> bool"
  x_sql_ord :: "job_row list \<Rightarrow> job_row list"
  x_go_ord :: "job_row list \<Rightarrow> job_row list"
  x_send :: "nat \<Rightarrow> bool"
  x_ctx :: "nat \<Rightarrow> bool"
  x_rings :: "job \<times> job"
  x_lines :: "string list"
  x_closed :: bool
  x_fin :: job
  x_snap :: "nat \<Rightarrow> job"
  x_wakes :: "nat \<Rightarrow> wake"
  x_taken :: nat
  x_stop :: "nat option"
  x_gz :: "bytes \<Rightarrow> tar_item list option"
  x_tar :: "bytes \<Rightarrow> tar_item list"
  x_quote :: "string \<Rightarrow> string"
  x_etext :: "file_error \<Rightarrow> string"
  x_dbtext :: string
  x_os :: "string \<times> string"

definition reply :: "('a \<Rightarrow> resp) \<Rightarrow> rpc_error + 'a \<Rightarrow> resp" where
  "reply f r = (case r of Inl e \<Rightarrow> RespError e | Inr a \<Rightarrow> f a)"

text \<open>The handlers of the worker service; the enrollment messages are not for it.\<close>

fun worker_service :: "rpc_env \<Rightarrow> msg \<Rightarrow> worker \<Rightarrow> resp \<times> worker" where
  "worker_service x MInfo w = (RespInfo (Info (fst (x_os x)) (snd (x_os x)) w), w)"
| "worker_service x (MExecute req) w =
     (let (r, w') = svc_Execute (x_bytes x) (x_now x) (x_db x 0) req w in (reply RespJobId r, w'))"
| "worker_service x MListJobs w = (RespJobs (svc_ListJobs (x_sql_ord x) (x_go_ord x) (x_db x 0) w), w)"
| "worker_service x (MWatchJob i) w =
     (let ((e, sent), w') = WatchJob (x_send x) (x_ctx x) (x_db x 0) (\<lambda>n. x_db x (Suc n)) (fst (x_rings x))
        (snd (x_rings x)) (x_lines x) (x_closed x) (x_fin x) i w in (RespStream e sent, w'))"
| "worker_service x (MJobOutput i stream start end0) w =
     (case JobOutput (x_dbtext x) (x_db x 0) (x_db x 1) i stream start end0 w of
        None \<Rightarrow> RespPanic | Some r \<Rightarrow> reply RespPage r, w)"
| "worker_service x (MJobWait i timeoutMs) w =
     (reply RespWait (fst (JobWait (x_db x 0) (x_snap x) (x_wakes x) i timeoutMs w)), w)"
| "worker_service x (MJobStdin i data cl) w =
     (let (r, w') = JobStdin (x_quote x) i data cl (x_taken x) w in (reply RespOk r, w'))"
| "worker_service x (MJobKill i) w = (let (r, w') = JobKill (x_quote x) i w in (reply RespOk r, w'))"
| "worker_service x (MFileRead path) w = (reply RespContent (FileRead (x_etext x) path w), w)"
| "worker_service x (MFileWrite path data) w =
     (let (r, w') = FileWrite (x_etext x) path data (x_stop x) w in (reply RespOk r, w'))"
| "worker_service x (MFileList path) w = (reply RespFiles (FileList (x_etext x) path w), w)"
| "worker_service x (MSyncFolder tarball dest clean) w =
     (let (r, w') = svc_SyncFolder (x_gz x) (x_tar x) (x_etext x) tarball dest clean w in (reply RespSynced r, w'))"
| "worker_service x _ w = (RespPanic, w)"

text \<open>The interceptor in front of a unary handler and of the stream.\<close>

definition guarded :: "rpc_env \<Rightarrow> headers \<Rightarrow> msg \<Rightarrow> gate \<Rightarrow> worker \<Rightarrow> resp \<times> worker" where
  "guarded x h m g w =
     (case m of
        MWatchJob i \<Rightarrow>
          (let (err, (r, w')) = WrapStreamingHandler g
             (\<lambda>_ (_, w). (None, worker_service x m w)) h (RespPanic, w)
           in (case err of Some e \<Rightarrow> RespError e | None \<Rightarrow> r, w'))
      | _ \<Rightarrow>
          (let (r, w') = WrapUnary g (\<lambda>req w. let (r, w') = worker_service x (req_msg req) w in (Inr r, w'))
             \<lparr>req_header = h, req_msg = m\<rparr> w
           in (case r of Inl e \<Rightarrow> RespError e | Inr a \<Rightarrow> a, w')))"

definition serve ::
  "'s state_store \<Rightarrow> rpc_env \<Rightarrow> headers \<Rightarrow> msg \<Rightarrow> 's booted \<Rightarrow> resp \<times> 's booted" where
  "serve ops x h m b =
     (case m of
        MEnrollStatus \<Rightarrow> (RespStatus (EnrollStatus (b_gate b, b_state b)), b)
      | MEnrollClaim c owner \<Rightarrow>
          (let (r, (g, st)) = EnrollClaim ops c owner (x_time x) (x_time' x) (x_entropy x) (b_gate b, b_state b)
           in (reply RespToken r, b\<lparr>b_gate := g, b_state := st\<rparr>))
      | MUnrelease owner \<Rightarrow>
          (let (r, (g, st)) = Unrelease ops h owner (x_entropy x) (b_gate b, b_state b)
           in (reply RespCode r, b\<lparr>b_gate := g, b_state := st\<rparr>))
      | MHealthz \<Rightarrow> (RespHealth ''ok'', b)
      | _ \<Rightarrow>
          (let (r, w) = guarded x h m (b_gate b) (b_worker b) in (r, b\<lparr>b_worker := w\<rparr>)))"

text \<open>A worker between two requests: it was booted and then served requests, and its jobs ran on.\<close>

inductive worker_reach :: "'s state_store \<Rightarrow> options \<Rightarrow> 's booted \<Rightarrow> bool" for ops opts where
  booted: "boot ops open_fs oenv dbf now fs0 b e f env home exists goos = Inr w \<Longrightarrow>
     opts = s_auth (read_settings f env home (BootID (b_worker w))) \<Longrightarrow> worker_reach ops opts w"
| served: "worker_reach ops opts w \<Longrightarrow> serve ops x h m w = (r, w') \<Longrightarrow> worker_reach ops opts w'"
| moved: "worker_reach ops opts w \<Longrightarrow> worker_reach ops opts (w\<lparr>b_worker := v, b_runner := rn\<rparr>)"


subsection \<open>The interceptor in front of everything\<close>

fun gated :: "msg \<Rightarrow> bool" where
  "gated MEnrollStatus = False"
| "gated (MEnrollClaim c owner) = False"
| "gated (MUnrelease owner) = False"
| "gated MHealthz = False"
| "gated _ = True"

lemma guarded_refused: "auth_check g h = Some e \<Longrightarrow> guarded x h m g w = (RespError e, w)"
  by (cases m) (simp_all add: guarded_def WrapUnary_def WrapStreamingHandler_def)

lemma guarded_served: "auth_check g h = None \<Longrightarrow> guarded x h m g w = worker_service x m w"
  by (cases m) (simp_all add: guarded_def WrapUnary_def WrapStreamingHandler_def split_def Let_def
      del: worker_service.simps)

lemma serve_gated:
  "gated m \<Longrightarrow> serve ops x h m b =
     (let (r, w) = guarded x h m (b_gate b) (b_worker b) in (r, b\<lparr>b_worker := w\<rparr>))"
  by (cases m) (simp_all add: serve_def)

lemma EnrollClaim_state: "snd (EnrollClaim ops c o1 n n' e gs) = snd (Claim ops c o1 n n' e gs)"
  by (auto simp: EnrollClaim_def split: prod.splits sum.splits auth_error.splits)

lemma Unrelease_state:
  "snd (Unrelease ops h o1 e gs) = snd (Release ops (bearerOf (header_get h authorization)) o1 e gs)"
  by (auto simp: Unrelease_def Let_def split: prod.splits sum.splits)

lemma worker_reach_gate: "worker_reach ops opts b \<Longrightarrow> gate_reach ops opts (b_gate b, b_state b)"
proof (induction rule: worker_reach.induct)
  case (booted open_fs oenv dbf now fs0 b e f env home exists goos w)
  then obtain s0 st where "NewGate ops opts s0 e = (Inr (b_gate w), st)" "b_state w = st"
    by (auto simp: boot_def Let_def split: prod.splits if_splits sum.splits)
  with gate_reach.boot [OF this(1)] show ?case by simp
next
  case (served b x h m r b')
  show ?case
  proof (cases "gated m")
    case True
    with served(2) have "b_gate b' = b_gate b" "b_state b' = b_state b"
      by (auto simp: serve_gated split: prod.splits)
    with served(3) show ?thesis by simp
  next
    case False
    then show ?thesis
    proof (cases m)
      case (MEnrollClaim c owner)
      obtain q g st where c: "EnrollClaim ops c owner (x_time x) (x_time' x) (x_entropy x) (b_gate b, b_state b) = (q, (g, st))"
        by (metis surj_pair)
      with EnrollClaim_state [of ops c owner "x_time x" "x_time' x" "x_entropy x" "(b_gate b, b_state b)"]
      obtain q' where "gate_step ops (OpClaim c owner (x_time x) (x_time' x) (x_entropy x)) (b_gate b, b_state b) = (q', (g, st))"
        by (metis gate_step.simps(1) prod.collapse snd_conv)
      from gate_reach.serve [OF served(3) this] c served(2) MEnrollClaim show ?thesis
        by (auto simp: serve_def)
    next
      case (MUnrelease owner)
      obtain q g st where c: "Unrelease ops h owner (x_entropy x) (b_gate b, b_state b) = (q, (g, st))"
        by (metis surj_pair)
      with Unrelease_state [of ops h owner "x_entropy x" "(b_gate b, b_state b)"]
      obtain q' where "gate_step ops (OpRelease (bearerOf (header_get h authorization)) owner (x_entropy x)) (b_gate b, b_state b) = (q', (g, st))"
        by (metis gate_step.simps(2) prod.collapse snd_conv)
      from gate_reach.serve [OF served(3) this] c served(2) MUnrelease show ?thesis
        by (auto simp: serve_def)
    qed (use served(2,3) in \<open>auto simp: serve_def\<close>)
  qed
qed simp

text \<open>The three ways a request goes.\<close>

definition token_holder :: "options \<Rightarrow> headers \<Rightarrow> gate \<Rightarrow> bool" where
  "token_holder opts h g \<longleftrightarrow>
     OptDisabled opts \<or> (claimed g \<and> bearer (header_get h authorization) = token g)"

lemma auth_check_holder:
  assumes "worker_reach ops opts b"
  shows "auth_check (b_gate b) h = (if token_holder opts h (b_gate b) then None
    else Some (RpcError CodeUnauthenticated unauthenticated_text))"
proof -
  have inv: "gate_inv opts (b_gate b)" using gate_reach_inv [OF worker_reach_gate [OF assms]] by simp
  then have "Authorized (b_gate b) t \<longleftrightarrow> OptDisabled opts \<or> (claimed (b_gate b) \<and> t = token (b_gate b))" for t
    by (auto simp: gate_inv_defs Authorized_iff split: if_splits)
  moreover have "disabled (b_gate b) \<Longrightarrow> Authorized (b_gate b) t" for t by (simp add: Authorized_iff)
  ultimately show ?thesis by (auto simp: auth_check_def Let_def token_holder_def)
qed

lemma serve_holder:
  "worker_reach ops opts b \<Longrightarrow> gated m \<Longrightarrow> token_holder opts h (b_gate b) \<Longrightarrow>
   serve ops x h m b = (let (r, w) = worker_service x m (b_worker b) in (r, b\<lparr>b_worker := w\<rparr>))"
  using auth_check_holder [of ops opts b h] by (simp add: serve_gated guarded_served del: worker_service.simps)

lemma serve_stranger:
  "worker_reach ops opts b \<Longrightarrow> gated m \<Longrightarrow> \<not> token_holder opts h (b_gate b) \<Longrightarrow>
   serve ops x h m b = (RespError (RpcError CodeUnauthenticated unauthenticated_text), b)"
  using auth_check_holder [of ops opts b h] by (simp add: serve_gated guarded_refused)

lemma serve_ungated: "\<not> gated m \<Longrightarrow> serve ops x h m b = (r, b') \<Longrightarrow>
    b_worker b' = b_worker b \<and> b_runner b' = b_runner b"
  by (cases m) (auto simp: serve_def Let_def split: prod.splits)

section \<open>Properties\<close>

text \<open>
  C1. Only the holder of the token acts. For a worker at any point of its life, booted from
  any flags and environment: a request of the worker service is served, by its handler and
  with the handler's effect on jobs and files, exactly if access control was disabled at
  boot or the gate is claimed and the request carries its token as bearer; any other is
  answered \<open>Unauthenticated\<close> and changes nothing. Enrollment and health requests never
  touch jobs and files.
\<close>

theorem only_the_token_acts:
  assumes "worker_reach ops opts b"
  shows "let allowed = OptDisabled opts \<or>
               (claimed (b_gate b) \<and> bearer (header_get h authorization) = token (b_gate b));
             (r, b') = serve ops x h m b
         in if gated m then
              (if allowed then (r, b') = (let (r, w) = worker_service x m (b_worker b) in (r, b\<lparr>b_worker := w\<rparr>))
               else (r, b') = (RespError (RpcError CodeUnauthenticated unauthenticated_text), b))
            else b_worker b' = b_worker b"
proof (cases "gated m")
  case True
  show ?thesis
  proof (cases "token_holder opts h (b_gate b)")
    case ok: True
    from serve_holder [OF assms True ok, of x] True ok show ?thesis
      by (simp add: Let_def token_holder_def case_prod_beta del: worker_service.simps)
  next
    case no: False
    from serve_stranger [OF assms True no, of x] True no show ?thesis
      by (auto simp: Let_def token_holder_def simp del: worker_service.simps)
  qed
next
  case False
  obtain r b' where s: "serve ops x h m b = (r, b')" by (metis surj_pair)
  from serve_ungated [OF False s] False show ?thesis by (simp add: s Let_def)
qed


definition sample_environ :: environ where
  "sample_environ = [''WORKER_TOKEN'' \<mapsto> ''tok'', ''HOME'' \<mapsto> ''/root'', ''PATH'' \<mapsto> ''/bin'',
     ''WORKER_STATE_FILE'' \<mapsto> ''off'']"

definition sample_boot :: "boot_error + unit booted" where
  "sample_boot = boot no_store (\<lambda>_. ()) \<lparr>oe_mkdir = True, oe_open = True, oe_migrate = True, oe_recover = True\<rparr>
     None 0 sample_fs (\<lambda>_. CHR ''x'') None \<lparr>f_addr = '''', f_workspace = ''/ws'', f_db = ''/db''\<rparr> sample_environ
     None (\<lambda>_. False) ''linux''"

lemma sample_booted:
  "\<exists>b. sample_boot = Inr b \<and> claimed (b_gate b) \<and> token (b_gate b) = ''tok'' \<and>
     \<not> OptDisabled (s_auth (read_settings \<lparr>f_addr = '''', f_workspace = ''/ws'', f_db = ''/db''\<rparr> sample_environ None
       (BootID (b_worker b))))"
proof -
  have "fst (MkdirAll ''/ws'' sample_fs) = None" by (simp add: fs_eval)
  moreover obtain e fs where "MkdirAll ''/ws'' sample_fs = (e, fs)" by (metis surj_pair)
  ultimately have mk: "MkdirAll ''/ws'' sample_fs = (None, fs)" by simp
  show ?thesis
    by (simp add: sample_boot_def boot_def read_settings_def mk OpenStore_def NewGate_def getenv_def
        sample_environ_def workerStateFile_def Let_def)
qed

theorem only_the_token_acts_witness:
  "\<exists>b. sample_boot = Inr b \<and> (\<forall>x.
     serve no_store x Map.empty (MJobKill ''j'') b = (RespError (RpcError CodeUnauthenticated unauthenticated_text), b))"
proof -
  from sample_booted obtain b where b: "sample_boot = Inr b" "claimed (b_gate b)" "token (b_gate b) = ''tok''"
    "\<not> OptDisabled (s_auth (read_settings \<lparr>f_addr = '''', f_workspace = ''/ws'', f_db = ''/db''\<rparr> sample_environ None
       (BootID (b_worker b))))" by blast
  have no: "bearer (header_get Map.empty authorization) = ''''"
    by (simp add: header_get_def bearer_def has_prefix_def bearer_prefix_def)
  have "serve no_store x Map.empty (MJobKill ''j'') b =
      (RespError (RpcError CodeUnauthenticated unauthenticated_text), b)" for x
    using only_the_token_acts [OF worker_reach.booted [OF b(1) [unfolded sample_boot_def] refl],
        of Map.empty x "MJobKill ''j''"] b(2-4) no
    by (simp add: Let_def split: prod.splits)
  with b(1) show ?thesis by blast
qed

subsection \<open>What a job sees of the worker's environment\<close>

definition visible_keys :: "string list" where
  "visible_keys = pass_keys @ windows_keys"

text \<open>The entries the environment of jobs may have, and those it must have.\<close>

definition allowed_entry :: "environ \<Rightarrow> (string \<Rightarrow> bool) \<Rightarrow> string \<Rightarrow> bool" where
  "allowed_entry env ex x \<longleftrightarrow>
     (\<exists>k v. k \<in> set visible_keys \<and> env k = Some v \<and> x = kv k v) \<or>
     (\<exists>f. f \<in> set cert_files \<and> ex f \<and> x = kv ''SSL_CERT_FILE'' f) \<or> x = kv ''PATH'' defaultUnixPath"

lemma set_pass_through:
  "set (pass_through env ks out) = set out \<union> {kv k v | k v. k \<in> set ks \<and> env k = Some v}"
proof (induction ks arbitrary: out)
  case (Cons k ks)
  then show ?case by (cases "env k") auto
qed simp

lemma set_pass_missing:
  "set out \<subseteq> set (pass_missing env ks out) \<and>
   set (pass_missing env ks out) \<subseteq> set out \<union> {kv k v | k v. k \<in> set ks \<and> env k = Some v}"
proof (induction ks arbitrary: out)
  case (Cons k ks)
  define out' where "out' = (case env k of Some v \<Rightarrow> if \<not> containsKey out k then out @ [kv k v] else out | None \<Rightarrow> out)"
  have "set out \<subseteq> set out'" "set out' \<subseteq> set out \<union> {kv k v | v. env k = Some v}"
    by (auto simp: out'_def split: option.splits)
  moreover have "pass_missing env (k # ks) out = pass_missing env ks out'" by (simp add: out'_def)
  moreover have "{kv k v | v. env k = Some v} \<union> {kv k v | k v. k \<in> set ks \<and> env k = Some v} =
      {kv k' v | k' v. k' \<in> set (k # ks) \<and> env k' = Some v}" by auto
  ultimately show ?case using Cons.IH [of out'] by (simp only: ) blast
qed simp

lemma first_existing: "firstExistingFile ex ps \<noteq> [] \<Longrightarrow> firstExistingFile ex ps \<in> set ps \<and> ex (firstExistingFile ex ps)"
  by (induction ps) (auto simp: firstExistingFile_def split: if_splits)

lemma jobEnv_entries:
  "x \<in> set (jobEnv env ex goos) \<Longrightarrow> allowed_entry env ex x"
  "k \<in> set pass_keys \<Longrightarrow> env k = Some v \<Longrightarrow> kv k v \<in> set (jobEnv env ex goos)"
proof -
  let ?a = "pass_through env pass_keys []"
  let ?f = "firstExistingFile ex cert_files"
  define b where "b = (if \<not> containsKey ?a ''SSL_CERT_FILE'' then if ?f \<noteq> '''' then ?a @ [kv ''SSL_CERT_FILE'' ?f] else ?a else ?a)"
  define c where "c = (if goos = ''windows'' then pass_missing env windows_keys b else b)"
  have e: "jobEnv env ex goos = (if goos \<noteq> ''windows'' \<and> \<not> containsKey c ''PATH'' then c @ [kv ''PATH'' defaultUnixPath] else c)"
    by (simp add: jobEnv_def Let_def b_def c_def)
  have a: "set ?a = {kv k v | k v. k \<in> set pass_keys \<and> env k = Some v}" by (simp add: set_pass_through)
  have f: "?f \<in> set cert_files" "ex ?f" if "?f \<noteq> ''''"
    using first_existing [OF that] by blast+
  have "allowed_entry env ex x" if "x \<in> set b" for x
    using that f a by (auto simp: b_def allowed_entry_def visible_keys_def split: if_splits)
  moreover have "allowed_entry env ex x" if "x \<in> set c" "x \<notin> set b" for x
  proof -
    have "set c \<subseteq> set b \<union> {kv k v | k v. k \<in> set windows_keys \<and> env k = Some v}"
      using set_pass_missing [of b env windows_keys] by (auto simp: c_def)
    with that obtain k v where "k \<in> set windows_keys" "env k = Some v" "x = kv k v" by blast
    then show ?thesis by (auto simp: allowed_entry_def visible_keys_def)
  qed
  ultimately have "allowed_entry env ex x" if "x \<in> set c" for x using that by blast
  moreover have "allowed_entry env ex (kv ''PATH'' defaultUnixPath)" by (simp add: allowed_entry_def)
  ultimately show "allowed_entry env ex x" if "x \<in> set (jobEnv env ex goos)"
    using that by (auto simp: e split: if_splits)
  have "set ?a \<subseteq> set c" using set_pass_missing [of b env windows_keys] by (auto simp: b_def c_def)
  then show "kv k v \<in> set (jobEnv env ex goos)" if "k \<in> set pass_keys" "env k = Some v"
    using that by (auto simp: e a)
qed

lemma jobEnv_not_empty:
  assumes "goos \<noteq> ''windows'' \<or> (\<exists>k \<in> set pass_keys. env k \<noteq> None)"
  shows "jobEnv env ex goos \<noteq> []"
proof (cases "goos = ''windows''")
  case True
  with assms obtain k v where "k \<in> set pass_keys" "env k = Some v" by auto
  with jobEnv_entries(2) show ?thesis by (metis empty_iff empty_set)
next
  case False
  then show ?thesis by (auto simp: jobEnv_def Let_def containsKey_def)
qed

lemma boot_runner_env:
  "boot ops open_fs oenv dbf now fs0 b e f env home ex goos = Inr w \<Longrightarrow> r_Env (b_runner w) = jobEnv env ex goos"
  by (auto simp: boot_def NewRunner_def Let_def split: prod.splits if_splits sum.splits)

text \<open>
  C26. Jobs do not see the worker's secrets. For a worker booted from any flags and environment, on
  Unix or, on Windows, with one of the variables it always passes on (\<open>PATH\<close>, say) set:
  what a process of a job is started with is never the worker's own environment \<open>own\<close>, but
  the list made for the job. Each entry of it is a variable of the request, an allow-listed
  variable of the worker with its value, the certificate bundle found on the disk, or the
  default \<open>PATH\<close>; conversely each variable that is passed on is there, and those of the
  request too. The token, the state file and the other settings of the worker are not
  allow-listed. (The directory, which is the workspace, is a setting that a job does see.)
\<close>

theorem job_sees_no_secret:
  assumes "boot ops open_fs oenv dbf now fs0 b e f env home ex goos = Inr w"
    and "goos \<noteq> ''windows'' \<or> (\<exists>k \<in> set pass_keys. env k \<noteq> None)"
    and "exec_begin prep own (merge_env req (r_Env (b_runner w))) hc args started r = (Inr (p, c), r')"
  shows "c_Env c = merge_env req (r_Env (b_runner w)) \<and>
    (\<forall>x \<in> set (c_Env c). (\<exists>k v. (k, v) \<in> set req \<and> x = kv k v) \<or>
      (\<exists>k v. k \<in> set visible_keys \<and> env k = Some v \<and> x = kv k v) \<or>
      (\<exists>f. f \<in> set cert_files \<and> ex f \<and> x = kv ''SSL_CERT_FILE'' f) \<or> x = kv ''PATH'' defaultUnixPath) \<and>
    (\<forall>k v. k \<in> set pass_keys \<and> env k = Some v \<or> (k, v) \<in> set req \<longrightarrow> kv k v \<in> set (c_Env c)) \<and>
    set visible_keys \<inter> {''WORKER_TOKEN'', ''WORKER_STATE_FILE'', ''WORKER_REQUIRE_AUTH'', ''WORKER_DB'',
      ''WORKER_PORT'', ''WORKER_WORKSPACE''} = {}"
proof -
  let ?es = "merge_env req (r_Env (b_runner w))"
  note rn = boot_runner_env [OF assms(1)]
  have ne: "?es \<noteq> []" using jobEnv_not_empty [OF assms(2)] by (auto simp: rn merge_env_def)
  with assms(3) have c: "c_Env c = ?es"
    by (auto simp: exec_begin_def Let_def split: if_splits prod.splits sum.splits)
  have es: "set ?es = set (jobEnv env ex goos) \<union> {kv k v | k v. (k, v) \<in> set req}"
    by (auto simp: merge_env_def rn)
  have "set visible_keys \<inter> {''WORKER_TOKEN'', ''WORKER_STATE_FILE'', ''WORKER_REQUIRE_AUTH'', ''WORKER_DB'',
      ''WORKER_PORT'', ''WORKER_WORKSPACE''} = {}"
    by (simp add: visible_keys_def pass_keys_def windows_keys_def)
  moreover have "(\<exists>k v. (k, v) \<in> set req \<and> x = kv k v) \<or> allowed_entry env ex x" if "x \<in> set ?es" for x
    using that jobEnv_entries(1) [of x env ex goos] by (auto simp: es)
  moreover have "kv k v \<in> set ?es" if "k \<in> set pass_keys \<and> env k = Some v \<or> (k, v) \<in> set req" for k v
    using that jobEnv_entries(2) [of k env v ex goos] by (auto simp: es)
  ultimately show ?thesis unfolding c allowed_entry_def by blast
qed

theorem job_sees_no_secret_witness:
  "\<exists>w c. sample_boot = Inr w \<and>
     exec_begin prepareExec [''WORKER_TOKEN=tok''] (merge_env [(''CI'', ''1'')] (r_Env (b_runner w)))
       \<lparr>hc_Dir = ''/ws'', hc_Env = []\<rparr> [''env''] (Inr 7) (b_runner w) = (Inr (7, c), track 7 c (b_runner w)) \<and>
     ''HOME=/root'' \<in> set (c_Env c) \<and> ''CI=1'' \<in> set (c_Env c) \<and> ''WORKER_TOKEN=tok'' \<notin> set (c_Env c)"
proof -
  obtain w where w: "sample_boot = Inr w" using sample_booted by blast
  let ?es = "merge_env [(''CI'', ''1'')] (r_Env (b_runner w))"
  let ?c = "\<lparr>c_Name = ''env'', c_Args = [], c_Dir = ''/ws'', c_Env = (if ?es = [] then [''WORKER_TOKEN=tok''] else ?es)\<rparr>"
  have x: "exec_begin prepareExec [''WORKER_TOKEN=tok''] ?es \<lparr>hc_Dir = ''/ws'', hc_Env = []\<rparr> [''env''] (Inr 7) (b_runner w) =
      (Inr (7, ?c), track 7 ?c (b_runner w))"
    by (simp add: exec_begin_def prepareExec_def Let_def)
  note all = job_sees_no_secret [OF w [unfolded sample_boot_def] _ x]
  have "r_Env (b_runner w) = [''PATH=/bin'', ''HOME=/root'']"
    unfolding boot_runner_env [OF w [unfolded sample_boot_def]]
    by (simp add: jobEnv_def pass_keys_def sample_environ_def kv_def containsKey_def has_prefix_def
        firstExistingFile_def cert_files_def Let_def)
  then have "''WORKER_TOKEN=tok'' \<notin> set (c_Env ?c)"
    by (simp add: merge_env_def kv_def)
  moreover have "kv k v \<in> set (c_Env ?c)"
    if "k \<in> set pass_keys \<and> sample_environ k = Some v \<or> (k, v) \<in> set [(''CI'', ''1'')]" for k v
    using all that by blast
  from this [of "''HOME''" "''/root''"] this [of "''CI''" "''1''"]
  have "''HOME=/root'' \<in> set (c_Env ?c)" "''CI=1'' \<in> set (c_Env ?c)"
    by (simp_all only: kv_def append.simps) (simp_all add: pass_keys_def sample_environ_def)
  ultimately show ?thesis using w x by blast
qed

text \<open>
  On Windows, a worker with none of these variables set makes an empty list for its jobs, and
  their processes inherit its whole environment, the token included.
\<close>

theorem empty_job_environment_inherits:
  assumes "\<forall>k \<in> set visible_keys. env k = None" "\<forall>f \<in> set cert_files. \<not> ex f"
  shows "jobEnv env ex ''windows'' = [] \<and>
    exec_begin prep own (merge_env [] (jobEnv env ex ''windows'')) hc [a] (Inr p) r =
      (let c = \<lparr>c_Name = fst (prep a []), c_Args = snd (prep a []), c_Dir = hc_Dir hc, c_Env = own\<rparr>
       in (Inr (p, c), track p c r))"
proof -
  have "pass_through env ks out = out" if "set ks \<subseteq> set visible_keys" for ks out
    using that assms(1) by (induction ks arbitrary: out) auto
  moreover have "pass_missing env ks out = out" if "set ks \<subseteq> set visible_keys" for ks out
    using that assms(1) by (induction ks arbitrary: out) auto
  moreover have "find ex cert_files = None" using assms(2) by (auto simp: find_None_iff)
  ultimately have "jobEnv env ex ''windows'' = []"
    by (simp add: jobEnv_def firstExistingFile_def visible_keys_def containsKey_def)
  then show ?thesis by (simp add: merge_env_def exec_begin_def Let_def split: prod.split)
qed

subsection \<open>The verdict of a run\<close>

text \<open>
  C27. The verdict reflects the run. The job's goroutine takes the error and the exit code of
  \<open>RunWithEnv\<close> (0 with an error), and judges them; \<open>cancelled\<close> is whether the job was
  cancelled by then. A command that does not parse, or for which no interpreter can be made,
  is \<open>failed\<close> with code 0. Otherwise a cancelled job is \<open>killed\<close>, with code 130 if the run
  was interrupted; one that is not cancelled is \<open>done\<close> with code 0 if the script ran to its
  end without error, has the script's exit status as code if it ended with one (\<open>done\<close> if that
  is 0, else \<open>failed\<close>), and is \<open>failed\<close> with code 127 if the interpreter failed.
\<close>

theorem verdict_reflects_the_run:
  assumes "(e, x0) = (case RunWithEnv parse new_interp interp c d req r of
      Inl err \<Rightarrow> (Some err, 0) | Inr res \<Rightarrow> (None, rr_ExitCode res))"
    and "job_outcome e cancelled x0 = (state, x)"
    and "(runErr, ctx_done, out, err) = interp (run_dir (r_Workspace r) d) (merge_env req (r_Env r)) p"
    and "ctx_done \<longrightarrow> cancelled"
  shows "case parse c of Inl _ \<Rightarrow> state = StateFailed \<and> x = 0
    | Inr q \<Rightarrow> if new_interp (run_dir (r_Workspace r) d) (merge_env req (r_Env r)) \<noteq> None
        then state = StateFailed \<and> x = 0
        else q = p \<longrightarrow>
          (cancelled \<longrightarrow> state = StateKilled) \<and> (ctx_done \<and> runErr \<noteq> None \<longrightarrow> x = 130) \<and>
          (case runErr of
             None \<Rightarrow> x = 0 \<and> (\<not> cancelled \<longrightarrow> state = StateDone)
           | Some (ExitStatus es) \<Rightarrow> \<not> ctx_done \<longrightarrow> x = uint es \<and>
               (\<not> cancelled \<longrightarrow> state = (if es = 0 then StateDone else StateFailed))
           | Some (OtherError _) \<Rightarrow> \<not> ctx_done \<longrightarrow> x = 127 \<and> (\<not> cancelled \<longrightarrow> state = StateFailed))"
proof (cases "parse c")
  case (Inl e')
  with assms(1,2) show ?thesis by (simp add: RunWithEnv_def run_command_def job_outcome_def int32_def)
next
  case (Inr q)
  let ?d = "run_dir (r_Workspace r) d" and ?v = "merge_env req (r_Env r)"
  show ?thesis
  proof (cases "new_interp ?d ?v")
    case (Some e')
    with Inr assms(1,2) show ?thesis by (simp add: RunWithEnv_def run_command_def job_outcome_def int32_def)
  next
    case None
    show ?thesis
    proof (cases "q = p")
      case True
      with Inr None assms(1) assms(3) [symmetric] have e: "e = None" "x0 = exitCodeOf runErr ctx_done"
        by (simp_all add: RunWithEnv_def run_command_def Let_def)
      have byte: "0 \<le> uint es \<and> uint es < 2 ^ 31 \<and> (uint es = 0 \<longleftrightarrow> es = 0)" for es :: "8 word"
        using uint_bounded [of es] by (simp add: uint_0_iff)
      have ids: "int32 0 = 0" "int32 127 = 127" "int32 130 = 130" by (simp_all add: int32_def)
      have id: "int32 (uint es) = uint es" for es :: "8 word"
      proof (rule int32_id)
        from byte [of es] show "- (2 ^ 31) \<le> uint es" "uint es < 2 ^ 31" by linarith+
      qed
      show ?thesis
        using assms(2,4) Inr None byte
        by (cases runErr rule: option.exhaust; cases "the runErr")
          (auto simp: job_outcome_def e(1) ids id e(2) exitCodeOf_def split: if_splits)
    qed (use Inr None in simp)
  qed
qed

theorem verdict_reflects_the_run_witness:
  "let run = (\<lambda>(_ :: string) (_ :: string list) (_ :: string). (Some (OtherError ''unbound''), False, OtherWriter, OtherWriter))
   in \<exists>res. RunWithEnv (\<lambda>c. Inr c) (\<lambda>_ _. None) run ''set -u; $x'' '''' [] (NewRunner ''/ws'' []) = Inr res \<and>
     job_outcome None False (rr_ExitCode res) = (StateFailed, 127)"
proof -
  let ?interp = "\<lambda>(_ :: string) (_ :: string list) (_ :: string). (Some (OtherError ''unbound''), False, OtherWriter, OtherWriter)"
  let ?r = "NewRunner ''/ws'' []"
  obtain res where run: "RunWithEnv (\<lambda>c. Inr c) (\<lambda>_ _. None) ?interp ''set -u; $x'' '''' [] ?r = Inr res"
    by (simp add: RunWithEnv_def run_command_def Let_def)
  obtain st x where out: "job_outcome None False (rr_ExitCode res) = (st, x)" by (metis surj_pair)
  have "st = StateFailed \<and> x = 127"
    using verdict_reflects_the_run [of None "rr_ExitCode res" "\<lambda>c. Inr c" "\<lambda>_ _. None" ?interp "''set -u; $x''"
        "''''" "[]" ?r False st x "Some (OtherError ''unbound'')" False OtherWriter OtherWriter "''set -u; $x''"] run out
    by simp
  with run out show ?thesis by (auto simp: Let_def)
qed

subsection \<open>The notice at start-up\<close>

datatype notice = NoticeResumed | NoticeUnclaimed string | NoticeQuiet

definition startup_notice :: "gate \<Rightarrow> notice" where
  "startup_notice g =
     (if Resumed g then NoticeResumed
      else if Code g \<noteq> '''' then NoticeUnclaimed (Code g)
      else NoticeQuiet)"

lemma fresh_gate: "NewGate ops opts st e = (Inr g, st') \<Longrightarrow>
   failures g = 0 \<and> maxFailures g = 10 \<and> (claimed g \<longrightarrow> preauth g \<or> resumed g)"
  by (auto simp: zero_gate_def NewGate_def mint_code_def Let_def split: if_splits option.splits prod.splits sum.splits)

text \<open>
  What the worker announces at start is how to get in. An announced code, presented at any
  time as the first attempt, enrolls the caller, and the token of the answer is accepted; a
  resumed worker accepts a token already; and it announces nothing only where it was told to
  run without authentication or was given a token.
\<close>

theorem notice_tells_how_to_enter:
  assumes "NewGate ops opts st e = (Inr g, st')"
  shows "case startup_notice g of
      NoticeUnclaimed c \<Rightarrow> \<forall>owner now now' f. \<exists>tok gs'.
        Claim ops c owner now now' (Some f) (g, st') = (Inr tok, gs') \<and> Authorized (fst gs') tok
    | NoticeResumed \<Rightarrow> Authorized g (token g) \<and> st_Claimed (Status g)
    | NoticeQuiet \<Rightarrow> OptDisabled opts \<or> PreAuthorizedToken opts \<noteq> ''''"
proof -
  from NewGate_inv [OF assms] have i: "gate_inv opts g" .
  note fr = fresh_gate [OF assms]
  show ?thesis
  proof (cases "startup_notice g")
    case NoticeResumed
    with i show ?thesis
      by (auto simp: startup_notice_def Resumed_def gate_inv_defs Authorized_iff Status_def split: if_splits)
  next
    case (NoticeUnclaimed c)
    with i have g: "\<not> disabled g" "\<not> claimed g" "code g = c" "c \<noteq> ''''"
      by (auto simp: startup_notice_def Code_def Resumed_def gate_inv_defs split: if_splits)
    have "\<exists>tok gs'. Claim ops c owner n n' (Some f) (g, st') = (Inr tok, gs') \<and> Authorized (fst gs') tok"
      for owner n n' f
      using g fr randomHex_nonempty [of 32 "Some f"]
      by (auto simp: Claim_def allowAttemptLocked_def randomHex_def Authorized_iff)
    with NoticeUnclaimed show ?thesis by simp
  next
    case NoticeQuiet
    with i fr show ?thesis
      by (auto simp: startup_notice_def Code_def Resumed_def gate_inv_defs split: if_splits)
  qed
qed

theorem notice_tells_how_to_enter_witness:
  "startup_notice sample_gate = NoticeUnclaimed (code sample_gate) \<and>
   (\<exists>tok gs'. Claim no_store (code sample_gate) ''me'' 0 0 (Some (\<lambda>_. CHR 0x42)) (sample_gate, None) = (Inr tok, gs') \<and>
      Authorized (fst gs') tok)"
proof -
  have n: "startup_notice sample_gate = NoticeUnclaimed (code sample_gate)"
    by (simp add: startup_notice_def Resumed_def Code_def sample_gate_def zero_gate_def)
  with notice_tells_how_to_enter [OF sample_gate_new] show ?thesis by simp
qed

end
