(* ===== verification/Routes.thy ===== *)
theory Routes
  imports Worker
begin

text \<open>
  From a client's call to the handler that serves it: the procedures, stubs and handlers of
  \<open>gen/worker/v1/workerv1connect/worker.connect.go\<close> and the multiplexer of
  \<open>cmd/easyworker/main.go\<close>. \<open>net/http\<close>'s \<open>ServeMux\<close> is modelled as far as the program uses
  it (paths without percent escapes, patterns without methods or wildcards). The wire format
  belongs to package \<open>connect\<close> and is a parameter: \<open>codec p q\<close> is the message a handler of
  procedure \<open>p\<close> reads from the request \<open>q\<close>, if the protocol accepts it.
\<close>

subsection \<open>Procedures\<close>

datatype proc =
    PInfo | PExecute | PListJobs | PWatchJob | PJobOutput | PJobWait | PJobStdin | PJobKill
  | PFileRead | PFileWrite | PFileList | PSyncFolder
  | PStatus | PClaim | PUnrelease

text \<open>The finitely many procedures can be checked one by one.\<close>

instantiation proc :: enum
begin

definition enum_proc :: "proc list" where
  "enum_proc = [PInfo, PExecute, PListJobs, PWatchJob, PJobOutput, PJobWait, PJobStdin, PJobKill,
     PFileRead, PFileWrite, PFileList, PSyncFolder, PStatus, PClaim, PUnrelease]"

definition enum_all_proc :: "(proc \<Rightarrow> bool) \<Rightarrow> bool" where
  "enum_all_proc P = list_all P enum_class.enum"

definition enum_ex_proc :: "(proc \<Rightarrow> bool) \<Rightarrow> bool" where
  "enum_ex_proc P = list_ex P enum_class.enum"

instance
proof
  show "(UNIV :: proc set) = set enum_class.enum"
  proof (rule UNIV_eq_I)
    show "p \<in> set enum_class.enum" for p :: proc by (cases p) (simp_all add: enum_proc_def)
  qed
  then show "enum_class.enum_all P = Ball (UNIV :: proc set) P" "enum_class.enum_ex P = Bex (UNIV :: proc set) P" for P
    by (simp_all add: enum_all_proc_def enum_ex_proc_def list_all_iff list_ex_iff)
  show "distinct (enum_class.enum :: proc list)" by (simp add: enum_proc_def)
qed

end

definition WorkerServiceName :: string where "WorkerServiceName = ''worker.v1.WorkerService''"
definition WorkerEnrollName :: string where "WorkerEnrollName = ''worker.v1.WorkerEnroll''"

fun procedure :: "proc \<Rightarrow> string" where
  "procedure PInfo = ''/worker.v1.WorkerService/Info''"
| "procedure PExecute = ''/worker.v1.WorkerService/Execute''"
| "procedure PListJobs = ''/worker.v1.WorkerService/ListJobs''"
| "procedure PWatchJob = ''/worker.v1.WorkerService/WatchJob''"
| "procedure PJobOutput = ''/worker.v1.WorkerService/JobOutput''"
| "procedure PJobWait = ''/worker.v1.WorkerService/JobWait''"
| "procedure PJobStdin = ''/worker.v1.WorkerService/JobStdin''"
| "procedure PJobKill = ''/worker.v1.WorkerService/JobKill''"
| "procedure PFileRead = ''/worker.v1.WorkerService/FileRead''"
| "procedure PFileWrite = ''/worker.v1.WorkerService/FileWrite''"
| "procedure PFileList = ''/worker.v1.WorkerService/FileList''"
| "procedure PSyncFolder = ''/worker.v1.WorkerService/SyncFolder''"
| "procedure PStatus = ''/worker.v1.WorkerEnroll/Status''"
| "procedure PClaim = ''/worker.v1.WorkerEnroll/Claim''"
| "procedure PUnrelease = ''/worker.v1.WorkerEnroll/Unrelease''"

subsection \<open>Client stubs\<close>

text \<open>
  \<open>connect.NewClient\<close> with the URL of its procedure and the method of the schema; a stub
  calls it as a unary or as a server-streaming procedure.
\<close>

record endpoint =
  ep_url :: string
  ep_schema :: string

datatype call_kind = CallUnary | CallServerStream

definition trim_right :: "char \<Rightarrow> string \<Rightarrow> string" where
  "trim_right c s = rev (dropWhile (\<lambda>x. x = c) (rev s))"

definition NewWorkerServiceClient :: "string \<Rightarrow> (proc \<times> endpoint) list" where
  "NewWorkerServiceClient baseURL =
     (let base = trim_right slash baseURL in
      [(PInfo, \<lparr>ep_url = base @ procedure PInfo, ep_schema = ''Info''\<rparr>),
       (PExecute, \<lparr>ep_url = base @ procedure PExecute, ep_schema = ''Execute''\<rparr>),
       (PListJobs, \<lparr>ep_url = base @ procedure PListJobs, ep_schema = ''ListJobs''\<rparr>),
       (PWatchJob, \<lparr>ep_url = base @ procedure PWatchJob, ep_schema = ''WatchJob''\<rparr>),
       (PJobOutput, \<lparr>ep_url = base @ procedure PJobOutput, ep_schema = ''JobOutput''\<rparr>),
       (PJobWait, \<lparr>ep_url = base @ procedure PJobWait, ep_schema = ''JobWait''\<rparr>),
       (PJobStdin, \<lparr>ep_url = base @ procedure PJobStdin, ep_schema = ''JobStdin''\<rparr>),
       (PJobKill, \<lparr>ep_url = base @ procedure PJobKill, ep_schema = ''JobKill''\<rparr>),
       (PFileRead, \<lparr>ep_url = base @ procedure PFileRead, ep_schema = ''FileRead''\<rparr>),
       (PFileWrite, \<lparr>ep_url = base @ procedure PFileWrite, ep_schema = ''FileWrite''\<rparr>),
       (PFileList, \<lparr>ep_url = base @ procedure PFileList, ep_schema = ''FileList''\<rparr>),
       (PSyncFolder, \<lparr>ep_url = base @ procedure PSyncFolder, ep_schema = ''SyncFolder''\<rparr>)])"

definition NewWorkerEnrollClient :: "string \<Rightarrow> (proc \<times> endpoint) list" where
  "NewWorkerEnrollClient baseURL =
     (let base = trim_right slash baseURL in
      [(PStatus, \<lparr>ep_url = base @ procedure PStatus, ep_schema = ''Status''\<rparr>),
       (PClaim, \<lparr>ep_url = base @ procedure PClaim, ep_schema = ''Claim''\<rparr>),
       (PUnrelease, \<lparr>ep_url = base @ procedure PUnrelease, ep_schema = ''Unrelease''\<rparr>)])"

text \<open>The methods of the two clients: which endpoint they call, and how.\<close>

fun service_stub :: "proc \<Rightarrow> call_kind option" where
  "service_stub PInfo = Some CallUnary"
| "service_stub PExecute = Some CallUnary"
| "service_stub PListJobs = Some CallUnary"
| "service_stub PWatchJob = Some CallServerStream"
| "service_stub PJobOutput = Some CallUnary"
| "service_stub PJobWait = Some CallUnary"
| "service_stub PJobStdin = Some CallUnary"
| "service_stub PJobKill = Some CallUnary"
| "service_stub PFileRead = Some CallUnary"
| "service_stub PFileWrite = Some CallUnary"
| "service_stub PFileList = Some CallUnary"
| "service_stub PSyncFolder = Some CallUnary"
| "service_stub _ = None"

fun enroll_stub :: "proc \<Rightarrow> call_kind option" where
  "enroll_stub PStatus = Some CallUnary"
| "enroll_stub PClaim = Some CallUnary"
| "enroll_stub PUnrelease = Some CallUnary"
| "enroll_stub _ = None"

subsection \<open>Handlers\<close>

text \<open>
  \<open>connect.NewUnaryHandler\<close> and \<open>NewServerStreamHandler\<close>: the procedure, the method of the
  service it wraps and the schema; then the switch on the path.
\<close>

record proc_handler =
  ph_procedure :: string
  ph_method :: proc
  ph_schema :: string
  ph_kind :: call_kind

definition unary_handler :: "proc \<Rightarrow> proc \<Rightarrow> string \<Rightarrow> proc_handler" where
  "unary_handler p m s = \<lparr>ph_procedure = procedure p, ph_method = m, ph_schema = s, ph_kind = CallUnary\<rparr>"

definition stream_handler :: "proc \<Rightarrow> proc \<Rightarrow> string \<Rightarrow> proc_handler" where
  "stream_handler p m s = \<lparr>ph_procedure = procedure p, ph_method = m, ph_schema = s, ph_kind = CallServerStream\<rparr>"

fun switch_path :: "(proc \<times> proc_handler) list \<Rightarrow> string \<Rightarrow> proc_handler option" where
  "switch_path [] path = None"
| "switch_path ((p, hdl) # cases) path = (if path = procedure p then Some hdl else switch_path cases path)"

definition NewWorkerServiceHandler :: "string \<times> (string \<Rightarrow> proc_handler option)" where
  "NewWorkerServiceHandler =
     (let infoHandler = unary_handler PInfo PInfo ''Info'';
          executeHandler = unary_handler PExecute PExecute ''Execute'';
          listJobsHandler = unary_handler PListJobs PListJobs ''ListJobs'';
          watchJobHandler = stream_handler PWatchJob PWatchJob ''WatchJob'';
          jobOutputHandler = unary_handler PJobOutput PJobOutput ''JobOutput'';
          jobWaitHandler = unary_handler PJobWait PJobWait ''JobWait'';
          jobStdinHandler = unary_handler PJobStdin PJobStdin ''JobStdin'';
          jobKillHandler = unary_handler PJobKill PJobKill ''JobKill'';
          fileReadHandler = unary_handler PFileRead PFileRead ''FileRead'';
          fileWriteHandler = unary_handler PFileWrite PFileWrite ''FileWrite'';
          fileListHandler = unary_handler PFileList PFileList ''FileList'';
          syncFolderHandler = unary_handler PSyncFolder PSyncFolder ''SyncFolder''
      in (''/worker.v1.WorkerService/'',
          switch_path
            [(PInfo, infoHandler), (PExecute, executeHandler), (PListJobs, listJobsHandler),
             (PWatchJob, watchJobHandler), (PJobOutput, jobOutputHandler), (PJobWait, jobWaitHandler),
             (PJobStdin, jobStdinHandler), (PJobKill, jobKillHandler), (PFileRead, fileReadHandler),
             (PFileWrite, fileWriteHandler), (PFileList, fileListHandler),
             (PSyncFolder, syncFolderHandler)]))"

definition NewWorkerEnrollHandler :: "string \<times> (string \<Rightarrow> proc_handler option)" where
  "NewWorkerEnrollHandler =
     (let statusHandler = unary_handler PStatus PStatus ''Status'';
          claimHandler = unary_handler PClaim PClaim ''Claim'';
          unreleaseHandler = unary_handler PUnrelease PUnrelease ''Unrelease''
      in (''/worker.v1.WorkerEnroll/'',
          switch_path [(PStatus, statusHandler), (PClaim, claimHandler), (PUnrelease, unreleaseHandler)]))"

text \<open>The stand-ins for services that lack a method.\<close>

fun UnimplementedWorkerServiceHandler :: "proc \<Rightarrow> rpc_error option" where
  "UnimplementedWorkerServiceHandler PInfo = Some (RpcError CodeUnimplemented ''worker.v1.WorkerService.Info is not implemented'')"
| "UnimplementedWorkerServiceHandler PExecute = Some (RpcError CodeUnimplemented ''worker.v1.WorkerService.Execute is not implemented'')"
| "UnimplementedWorkerServiceHandler PListJobs = Some (RpcError CodeUnimplemented ''worker.v1.WorkerService.ListJobs is not implemented'')"
| "UnimplementedWorkerServiceHandler PWatchJob = Some (RpcError CodeUnimplemented ''worker.v1.WorkerService.WatchJob is not implemented'')"
| "UnimplementedWorkerServiceHandler PJobOutput = Some (RpcError CodeUnimplemented ''worker.v1.WorkerService.JobOutput is not implemented'')"
| "UnimplementedWorkerServiceHandler PJobWait = Some (RpcError CodeUnimplemented ''worker.v1.WorkerService.JobWait is not implemented'')"
| "UnimplementedWorkerServiceHandler PJobStdin = Some (RpcError CodeUnimplemented ''worker.v1.WorkerService.JobStdin is not implemented'')"
| "UnimplementedWorkerServiceHandler PJobKill = Some (RpcError CodeUnimplemented ''worker.v1.WorkerService.JobKill is not implemented'')"
| "UnimplementedWorkerServiceHandler PFileRead = Some (RpcError CodeUnimplemented ''worker.v1.WorkerService.FileRead is not implemented'')"
| "UnimplementedWorkerServiceHandler PFileWrite = Some (RpcError CodeUnimplemented ''worker.v1.WorkerService.FileWrite is not implemented'')"
| "UnimplementedWorkerServiceHandler PFileList = Some (RpcError CodeUnimplemented ''worker.v1.WorkerService.FileList is not implemented'')"
| "UnimplementedWorkerServiceHandler PSyncFolder = Some (RpcError CodeUnimplemented ''worker.v1.WorkerService.SyncFolder is not implemented'')"
| "UnimplementedWorkerServiceHandler _ = None"

fun UnimplementedWorkerEnrollHandler :: "proc \<Rightarrow> rpc_error option" where
  "UnimplementedWorkerEnrollHandler PStatus = Some (RpcError CodeUnimplemented ''worker.v1.WorkerEnroll.Status is not implemented'')"
| "UnimplementedWorkerEnrollHandler PClaim = Some (RpcError CodeUnimplemented ''worker.v1.WorkerEnroll.Claim is not implemented'')"
| "UnimplementedWorkerEnrollHandler PUnrelease = Some (RpcError CodeUnimplemented ''worker.v1.WorkerEnroll.Unrelease is not implemented'')"
| "UnimplementedWorkerEnrollHandler _ = None"

subsection \<open>The multiplexer\<close>

text \<open>\<open>net/http\<close>'s \<open>cleanPath\<close>: \<open>path.Clean\<close>, but a trailing slash is kept.\<close>

definition cleanPath :: "string \<Rightarrow> string" where
  "cleanPath p0 =
     (if p0 = '''' then [slash]
      else let p = (if p0 ! 0 \<noteq> slash then slash # p0 else p0);
               np = Clean p
           in if last p = slash \<and> np \<noteq> [slash]
              then (if length p = length np + 1 \<and> has_prefix np p then p else np @ [slash])
              else np)"

datatype target = ServeWorker | ServeEnroll | ServeHealth
datatype routed = Goto target | RedirectTo string | NotFound

text \<open>What \<open>main\<close> registers, and the pattern that matches a path.\<close>

definition mux_table :: "(string \<times> target) list" where
  "mux_table = [(fst NewWorkerServiceHandler, ServeWorker), (fst NewWorkerEnrollHandler, ServeEnroll),
     (''/healthz'', ServeHealth)]"

definition pattern_matches :: "string \<Rightarrow> string \<Rightarrow> bool" where
  "pattern_matches pat path \<longleftrightarrow> path = pat \<or> has_suffix [slash] pat \<and> has_prefix pat path"

definition mux :: "bool \<Rightarrow> string \<Rightarrow> routed" where
  "mux is_connect path =
     (let np = (if is_connect then path else cleanPath path) in
      if \<not> has_suffix [slash] np \<and> np @ [slash] \<in> fst ` set mux_table then RedirectTo (np @ [slash])
      else if np \<noteq> path then RedirectTo np
      else case find (\<lambda>(pat, _). pattern_matches pat np) mux_table of
             Some (_, t) \<Rightarrow> Goto t | None \<Rightarrow> NotFound)"

record http_request =
  hr_connect :: bool
  hr_path :: string
  hr_headers :: headers
  hr_body :: bytes

datatype http_response =
    HttpRpc resp
  | HttpRefused
  | HttpRedirect string
  | HttpNotFound

text \<open>A request to the listener of a running worker.\<close>

definition http_serve ::
  "'s state_store \<Rightarrow> (proc \<Rightarrow> http_request \<Rightarrow> msg option) \<Rightarrow> rpc_env \<Rightarrow> http_request \<Rightarrow> 's booted
     \<Rightarrow> http_response \<times> 's booted" where
  "http_serve ops codec x q b =
     (let rpc = (\<lambda>handler. case handler (hr_path q) of
            None \<Rightarrow> (HttpNotFound, b)
          | Some hdl \<Rightarrow> (case codec (ph_method hdl) q of
              None \<Rightarrow> (HttpRefused, b)
            | Some m \<Rightarrow> (let (r, b') = serve ops x (hr_headers q) m b in (HttpRpc r, b'))))
      in case mux (hr_connect q) (hr_path q) of
        RedirectTo p \<Rightarrow> (HttpRedirect p, b)
      | NotFound \<Rightarrow> (HttpNotFound, b)
      | Goto ServeHealth \<Rightarrow> (let (r, b') = serve ops x (hr_headers q) MHealthz b in (HttpRpc r, b'))
      | Goto ServeWorker \<Rightarrow> rpc (snd NewWorkerServiceHandler)
      | Goto ServeEnroll \<Rightarrow> rpc (snd NewWorkerEnrollHandler))"

subsection \<open>Every procedure is reached by its own path\<close>

lemma procedures_differ: "procedure p = procedure q \<longleftrightarrow> p = q"
  by (cases p; cases q) simp_all

fun service_name :: "proc \<Rightarrow> string" where
  "service_name PStatus = WorkerEnrollName"
| "service_name PClaim = WorkerEnrollName"
| "service_name PUnrelease = WorkerEnrollName"
| "service_name _ = WorkerServiceName"

fun method_name :: "proc \<Rightarrow> string" where
  "method_name PInfo = ''Info''"
| "method_name PExecute = ''Execute''"
| "method_name PListJobs = ''ListJobs''"
| "method_name PWatchJob = ''WatchJob''"
| "method_name PJobOutput = ''JobOutput''"
| "method_name PJobWait = ''JobWait''"
| "method_name PJobStdin = ''JobStdin''"
| "method_name PJobKill = ''JobKill''"
| "method_name PFileRead = ''FileRead''"
| "method_name PFileWrite = ''FileWrite''"
| "method_name PFileList = ''FileList''"
| "method_name PSyncFolder = ''SyncFolder''"
| "method_name PStatus = ''Status''"
| "method_name PClaim = ''Claim''"
| "method_name PUnrelease = ''Unrelease''"

abbreviation enrolls :: "proc \<Rightarrow> bool" where
  "enrolls p \<equiv> service_name p = WorkerEnrollName"

lemma enrolls_simps [simp]: "WorkerServiceName \<noteq> WorkerEnrollName" "WorkerEnrollName \<noteq> WorkerServiceName"
  by (simp_all add: WorkerServiceName_def WorkerEnrollName_def)

lemma procedure_abs_path: "procedure p = abs_path [service_name p, method_name p]"
  by (cases p) (simp_all add: abs_path_def slash_def WorkerServiceName_def WorkerEnrollName_def)

lemma names_plain: "plain [service_name p, method_name p]"
  by (cases p) (simp_all add: plain_comp_def slash_def WorkerServiceName_def WorkerEnrollName_def)

lemma cleanPath_plain:
  assumes "plain cs" "cs \<noteq> []"
  shows "cleanPath (abs_path cs) = abs_path cs" "\<not> has_suffix [slash] (abs_path cs)"
proof -
  have l: "last (abs_path cs) \<noteq> slash" using assms
  proof (induction cs)
    case (Cons c cs)
    show ?case
    proof (cases cs)
      case Nil
      with Cons.prems show ?thesis by (cases c rule: rev_cases) (auto simp: abs_path_def plain_comp_def)
    next
      case (Cons c2 r)
      with Cons.IH Cons.prems show ?thesis by (auto simp: abs_path_def)
    qed
  qed simp
  then show "cleanPath (abs_path cs) = abs_path cs"
    using Clean_abs_path [OF assms(1)] by (simp add: cleanPath_def abs_path_def)
  have "abs_path cs \<noteq> []" by (simp add: abs_path_def)
  with l show "\<not> has_suffix [slash] (abs_path cs)"
    by (cases "abs_path cs" rule: rev_cases) (auto simp: has_suffix_def)
qed

lemma mux_procedure: "mux False (procedure p) = Goto (if enrolls p then ServeEnroll else ServeWorker)"
proof -
  have np: "cleanPath (procedure p) = procedure p" "\<not> has_suffix [slash] (procedure p)"
    using cleanPath_plain [OF names_plain] by (simp_all add: procedure_abs_path)
  have "procedure p @ [slash] \<notin> fst ` set mux_table"
    by (cases p) (simp_all add: mux_table_def NewWorkerServiceHandler_def NewWorkerEnrollHandler_def Let_def slash_def)
  moreover have "find (\<lambda>(pat, _). pattern_matches pat (procedure p)) mux_table =
      Some (if enrolls p then fst NewWorkerEnrollHandler else fst NewWorkerServiceHandler,
        if enrolls p then ServeEnroll else ServeWorker)"
    by (cases p) (simp_all add: mux_table_def pattern_matches_def has_prefix_def has_suffix_def
        NewWorkerServiceHandler_def NewWorkerEnrollHandler_def Let_def slash_def)
  ultimately show ?thesis by (simp add: mux_def np Let_def)
qed

definition handler_of :: "proc \<Rightarrow> proc_handler" where
  "handler_of p = \<lparr>ph_procedure = procedure p, ph_method = p, ph_schema = method_name p,
     ph_kind = (if p = PWatchJob then CallServerStream else CallUnary)\<rparr>"

lemma switch_path_map:
  "switch_path (map (\<lambda>p. (p, f p)) ps) path = Some hdl \<longleftrightarrow>
     (\<exists>p \<in> set ps. path = procedure p \<and> hdl = f p)"
proof (induction ps)
  case (Cons a ps)
  show ?case
  proof (cases "path = procedure a")
    case True
    then have "path = procedure p \<longleftrightarrow> p = a" for p by (simp only: procedures_differ) blast
    with True show ?thesis by auto
  next
    case False
    with Cons show ?thesis by simp
  qed
qed simp

definition service_procs :: "proc list" where
  "service_procs = filter (\<lambda>p. \<not> enrolls p) enum_class.enum"

definition enroll_procs :: "proc list" where
  "enroll_procs = filter (\<lambda>p. enrolls p) enum_class.enum"

lemma procs_listed:
  "service_procs = [PInfo, PExecute, PListJobs, PWatchJob, PJobOutput, PJobWait, PJobStdin, PJobKill,
     PFileRead, PFileWrite, PFileList, PSyncFolder]"
  "enroll_procs = [PStatus, PClaim, PUnrelease]"
  by (simp_all add: service_procs_def enroll_procs_def enum_proc_def)

lemma handler_tables:
  "snd NewWorkerServiceHandler = switch_path (map (\<lambda>p. (p, handler_of p)) service_procs)"
  "snd NewWorkerEnrollHandler = switch_path (map (\<lambda>p. (p, handler_of p)) enroll_procs)"
  unfolding NewWorkerServiceHandler_def NewWorkerEnrollHandler_def Let_def snd_conv procs_listed
  by (simp_all add: unary_handler_def stream_handler_def handler_of_def del: procedure.simps)

lemma service_handler: "snd NewWorkerServiceHandler path = Some hdl \<longleftrightarrow>
    (\<exists>p. \<not> enrolls p \<and> path = procedure p \<and> hdl = handler_of p)"
  by (simp add: handler_tables switch_path_map service_procs_def enum_UNIV)

lemma enroll_handler: "snd NewWorkerEnrollHandler path = Some hdl \<longleftrightarrow>
    (\<exists>p. enrolls p \<and> path = procedure p \<and> hdl = handler_of p)"
  by (simp add: handler_tables switch_path_map enroll_procs_def enum_UNIV)

subsection \<open>Messages and their procedures\<close>

fun msg_proc :: "msg \<Rightarrow> proc option" where
  "msg_proc MInfo = Some PInfo"
| "msg_proc (MExecute req) = Some PExecute"
| "msg_proc MListJobs = Some PListJobs"
| "msg_proc (MWatchJob i) = Some PWatchJob"
| "msg_proc (MJobOutput i st a e) = Some PJobOutput"
| "msg_proc (MJobWait i t) = Some PJobWait"
| "msg_proc (MJobStdin i d c) = Some PJobStdin"
| "msg_proc (MJobKill i) = Some PJobKill"
| "msg_proc (MFileRead p) = Some PFileRead"
| "msg_proc (MFileWrite p d) = Some PFileWrite"
| "msg_proc (MFileList p) = Some PFileList"
| "msg_proc (MSyncFolder t d c) = Some PSyncFolder"
| "msg_proc MEnrollStatus = Some PStatus"
| "msg_proc (MEnrollClaim c w) = Some PClaim"
| "msg_proc (MUnrelease w) = Some PUnrelease"
| "msg_proc MHealthz = None"

text \<open>
  The codec of a procedure reads messages of that procedure, with 32-bit values in the
  fields of type \<open>int32\<close>.
\<close>

fun int_fields :: "msg \<Rightarrow> bool" where
  "int_fields (MJobOutput i st a e) = (int32 a = a \<and> int32 e = e)"
| "int_fields (MJobWait i t) = (int32 t = t)"
| "int_fields m = True"

definition typed_codec :: "(proc \<Rightarrow> http_request \<Rightarrow> msg option) \<Rightarrow> bool" where
  "typed_codec codec \<longleftrightarrow> (\<forall>p q m. codec p q = Some m \<longrightarrow> msg_proc m = Some p \<and> int_fields m)"

lemma gated_proc: "msg_proc m = Some p \<Longrightarrow> gated m \<longleftrightarrow> \<not> enrolls p"
  by (cases m) auto

lemma mux_health: "mux c path = Goto ServeHealth \<Longrightarrow> path = ''/healthz''"
  by (auto simp: mux_def mux_table_def pattern_matches_def has_suffix_def slash_def Let_def
      split: if_splits)

text \<open>What serving a request amounts to.\<close>

lemma http_serve_cases:
  assumes "http_serve ops codec x q b = (r, b')"
  obtains (answered) p m v where "hr_path q = procedure p" "codec p q = Some m"
      "serve ops x (hr_headers q) m b = (v, b')" "r = HttpRpc v"
  | (health) "hr_path q = ''/healthz''" "r = HttpRpc (RespHealth ''ok'')" "b' = b"
  | (refused) "r \<in> {HttpRefused, HttpNotFound} \<union> range HttpRedirect" "b' = b"
proof (cases "mux (hr_connect q) (hr_path q)")
  case (Goto t)
  show thesis
  proof (cases t)
    case ServeHealth
    with Goto assms mux_health [of "hr_connect q" "hr_path q"] show thesis
      by (intro health) (simp_all add: http_serve_def serve_def)
  next
    case ServeWorker
    note serves = assms [unfolded http_serve_def Let_def Goto ServeWorker routed.case target.case]
    show thesis
    proof (cases "snd NewWorkerServiceHandler (hr_path q)")
      case (Some hdl)
      then obtain p where p: "hr_path q = procedure p" "hdl = handler_of p" by (auto simp: service_handler)
      with serves Some show thesis
        by (cases "codec p q") (auto simp: handler_of_def split: prod.splits intro: refused answered)
    qed (use serves in \<open>auto intro: refused\<close>)
  next
    case ServeEnroll
    note serves = assms [unfolded http_serve_def Let_def Goto ServeEnroll routed.case target.case]
    show thesis
    proof (cases "snd NewWorkerEnrollHandler (hr_path q)")
      case (Some hdl)
      then obtain p where p: "hr_path q = procedure p" "hdl = handler_of p" by (auto simp: enroll_handler)
      with serves Some show thesis
        by (cases "codec p q") (auto simp: handler_of_def split: prod.splits intro: refused answered)
    qed (use serves in \<open>auto intro: refused\<close>)
  qed
qed (use assms in \<open>auto simp: http_serve_def Let_def intro: refused\<close>)

subsection \<open>URLs\<close>

text \<open>
  The path of a URL without query and fragment, as the HTTP client sends it: what follows the
  authority, which follows \<open>://\<close>.
\<close>

fun after_scheme :: "string \<Rightarrow> string" where
  "after_scheme [] = []"
| "after_scheme (c # s) = (if has_prefix ''://'' (c # s) then drop 3 (c # s) else after_scheme s)"

definition url_path :: "string \<Rightarrow> string" where
  "url_path u = dropWhile (\<lambda>c. c \<noteq> slash) (after_scheme u)"

lemma after_scheme_skip:
  "CHR 0x3A \<notin> set sch \<Longrightarrow> after_scheme (sch @ ''://'' @ rest) = rest"
  by (induction sch) (auto simp: has_prefix_def)

lemma trim_right_slashes:
  assumes "slash \<notin> set host" "host \<noteq> []"
  shows "trim_right slash (pre @ host @ replicate n slash) = pre @ host"
proof -
  obtain h c where h: "host = h @ [c]" "c \<noteq> slash" using assms by (cases host rule: rev_cases) auto
  have "dropWhile (\<lambda>x. x = slash) (replicate n slash @ ys) = dropWhile (\<lambda>x. x = slash) ys" for ys
    by (induction n) simp_all
  with h show ?thesis by (simp add: trim_right_def)
qed

lemma url_path_stub:
  assumes "CHR 0x3A \<notin> set sch" "slash \<notin> set host" "host \<noteq> []"
  shows "url_path (trim_right slash (sch @ ''://'' @ host @ replicate n slash) @ procedure p) = procedure p"
proof -
  have "trim_right slash ((sch @ ''://'') @ host @ replicate n slash) = (sch @ ''://'') @ host"
    by (rule trim_right_slashes [OF assms(2,3)])
  then have "after_scheme (trim_right slash (sch @ ''://'' @ host @ replicate n slash) @ procedure p) =
      host @ procedure p"
    using after_scheme_skip [OF assms(1), of "host @ procedure p"] by simp
  moreover have "dropWhile (\<lambda>c. c \<noteq> slash) (host @ slash # rest) = slash # rest" for rest
    using assms(2) by (induction host) auto
  ultimately show ?thesis by (simp add: url_path_def procedure_abs_path abs_path_def)
qed

subsection \<open>Calls\<close>

definition client_endpoint :: "string \<Rightarrow> proc \<Rightarrow> endpoint option" where
  "client_endpoint base = map_of (NewWorkerServiceClient base @ NewWorkerEnrollClient base)"

definition stub_kind :: "proc \<Rightarrow> call_kind option" where
  "stub_kind p = (case service_stub p of Some k \<Rightarrow> Some k | None \<Rightarrow> enroll_stub p)"

lemma client_endpoint_eq: "client_endpoint base p =
    Some \<lparr>ep_url = trim_right slash base @ procedure p, ep_schema = method_name p\<rparr>"
  by (cases p) (simp_all add: client_endpoint_def NewWorkerServiceClient_def NewWorkerEnrollClient_def Let_def
      del: procedure.simps)

text \<open>
  What the stub of a message's procedure sends, with \<open>enc\<close> the encoding of the wire format
  and \<open>h\<close> the headers its interceptors set.
\<close>

definition stub_request :: "(msg \<Rightarrow> bytes) \<Rightarrow> string \<Rightarrow> headers \<Rightarrow> proc \<Rightarrow> msg \<Rightarrow> http_request option" where
  "stub_request enc base h p m =
     map_option (\<lambda>e. \<lparr>hr_connect = False, hr_path = url_path (ep_url e), hr_headers = h, hr_body = enc m\<rparr>)
       (client_endpoint base p)"

text \<open>Which answers a message may get.\<close>

definition fits :: "msg \<Rightarrow> resp \<Rightarrow> bool" where
  "fits m r =
     (case r of
        RespError e \<Rightarrow> m \<notin> {MHealthz, MEnrollStatus} \<and> (m \<in> {MInfo, MListJobs} \<longrightarrow> CodeOf e = CodeUnauthenticated)
      | RespPanic \<Rightarrow> msg_proc m = Some PJobOutput
      | RespInfo _ \<Rightarrow> msg_proc m = Some PInfo
      | RespJobId _ \<Rightarrow> msg_proc m = Some PExecute
      | RespJobs _ \<Rightarrow> msg_proc m = Some PListJobs
      | RespStream _ _ \<Rightarrow> msg_proc m = Some PWatchJob
      | RespPage _ \<Rightarrow> msg_proc m = Some PJobOutput
      | RespWait _ \<Rightarrow> msg_proc m = Some PJobWait
      | RespOk ok \<Rightarrow> ok \<and> msg_proc m \<in> {Some PJobStdin, Some PJobKill, Some PFileWrite}
      | RespContent _ \<Rightarrow> msg_proc m = Some PFileRead
      | RespFiles _ \<Rightarrow> msg_proc m = Some PFileList
      | RespSynced _ \<Rightarrow> msg_proc m = Some PSyncFolder
      | RespStatus _ \<Rightarrow> msg_proc m = Some PStatus
      | RespToken _ \<Rightarrow> msg_proc m = Some PClaim
      | RespCode _ \<Rightarrow> msg_proc m = Some PUnrelease
      | RespHealth t \<Rightarrow> m = MHealthz \<and> t = ''ok'')"

text \<open>No history is longer than an \<open>int32\<close> can count.\<close>

definition short_histories :: "worker \<Rightarrow> bool" where
  "short_histories w \<longleftrightarrow> (\<forall>ok i st rs. readMerged ok i st (w_jobs w) = Inr rs \<longrightarrow> int (length rs) < 2 ^ 31)"

lemma int32_least: "int32 a = a \<Longrightarrow> - (2 ^ 31) \<le> a"
  by (metis int32_range)

lemma JobOutput_answers:
  assumes "short_histories w" "- (2 ^ 31) \<le> start"
  shows "JobOutput dbe lok jok i stream start end0 w \<noteq> None"
proof (cases "readMerged lok i (streamOf stream) (w_jobs w)")
  case (Inl e)
  then show ?thesis by (simp add: JobOutput_def OutputLines_def)
next
  case (Inr rs)
  with assms have "int (length rs) < 2 ^ 31" unfolding short_histories_def by blast
  from OutputLines_page [OF Inr this assms(2)] show ?thesis by (simp add: JobOutput_def Let_def)
qed

lemma reply_fits: "(\<And>e. r = Inl e \<Longrightarrow> P (RespError e)) \<Longrightarrow> (\<And>a. r = Inr a \<Longrightarrow> P (f a)) \<Longrightarrow> P (reply f r)"
  by (simp add: reply_def split: sum.split)

lemma worker_service_fits:
  assumes "gated m" "int_fields m" "short_histories w" "worker_service x m w = (r, w')"
  shows "fits m r \<and> r \<noteq> RespPanic"
proof (cases m)
  case (MJobOutput i st a e)
  obtain y where "JobOutput (x_dbtext x) (x_db x 0) (x_db x 1) i st a e w = Some y"
    using JobOutput_answers [OF assms(3)] int32_least assms(2) MJobOutput by fastforce
  with assms(4) MJobOutput show ?thesis by (auto simp: fits_def reply_def split: sum.splits)
next
  case (MWatchJob i)
  with assms(4) show ?thesis by (auto simp: fits_def split: prod.splits)
next
  case (MExecute req)
  with assms(4) show ?thesis by (auto simp: fits_def reply_def split: prod.splits sum.splits)
next
  case (MJobStdin i d c)
  with assms(4) show ?thesis
    by (auto simp: fits_def reply_def JobStdin_def split: prod.splits sum.splits option.splits if_splits)
next
  case (MJobKill i)
  with assms(4) show ?thesis
    by (auto simp: fits_def reply_def JobKill_def split: prod.splits sum.splits option.splits)
next
  case (MFileWrite p d)
  with assms(4) show ?thesis
    by (auto simp: fits_def reply_def FileWrite_def split: prod.splits sum.splits option.splits if_splits)
next
  case (MSyncFolder t d c)
  with assms(4) show ?thesis by (auto simp: fits_def reply_def split: prod.splits sum.splits)
qed (use assms in \<open>auto simp: fits_def reply_def split: sum.splits\<close>)

lemma serve_fits:
  assumes "int_fields m" "short_histories (b_worker b)" "serve ops x h m b = (r, b')"
  shows "fits m r \<and> r \<noteq> RespPanic"
proof (cases "gated m")
  case True
  obtain v w where g: "guarded x h m (b_gate b) (b_worker b) = (v, w)" by (metis surj_pair)
  with assms(3) have r: "r = v" by (simp add: serve_gated [OF True])
  show ?thesis
  proof (cases "auth_check (b_gate b) h")
    case None
    with g have "worker_service x m (b_worker b) = (v, w)" by (simp add: guarded_served)
    from worker_service_fits [OF True assms(1,2) this] r show ?thesis by simp
  next
    case (Some e)
    with g r have "r = RespError e" by (simp add: guarded_refused)
    with auth_check_code [OF Some] True show ?thesis by (cases m) (auto simp: fits_def)
  qed
next
  case False
  with assms(3) show ?thesis
    by (cases m) (auto simp: serve_def fits_def reply_def split: prod.splits sum.splits)
qed

section \<open>Properties\<close>

text \<open>
  C3. Every call reaches its own handler. A client built for a base URL, with any number of
  slashes at its end, sends the message of each procedure to a path that the worker's
  multiplexer gives to the right service and that service to the handler of the same
  procedure, schema and kind; so what the client gets is what serving that message with its
  headers gives.
\<close>

theorem call_reaches_its_handler:
  assumes "stub_request enc base h p m = Some q" "codec p q = Some m"
    and "base = sch @ ''://'' @ host @ replicate n slash"
    and "CHR 0x3A \<notin> set sch" "slash \<notin> set host" "host \<noteq> ''''"
  shows "http_serve ops codec x q b = (let (r, b') = serve ops x h m b in (HttpRpc r, b')) \<and>
    (\<exists>e hdl. client_endpoint base p = Some e \<and>
       (if enrolls p then snd NewWorkerEnrollHandler else snd NewWorkerServiceHandler) (hr_path q) = Some hdl \<and>
       ph_procedure hdl = hr_path q \<and> ph_method hdl = p \<and> ph_schema hdl = ep_schema e \<and>
       stub_kind p = Some (ph_kind hdl))"
proof -
  have q: "q = \<lparr>hr_connect = False, hr_path = procedure p, hr_headers = h, hr_body = enc m\<rparr>"
    using assms(1) url_path_stub [OF assms(4-6), of n p]
    by (simp add: stub_request_def client_endpoint_eq assms(3))
  have hdl: "(if enrolls p then snd NewWorkerEnrollHandler else snd NewWorkerServiceHandler) (hr_path q) =
      Some (handler_of p)"
    using service_handler [of "procedure p" "handler_of p"] enroll_handler [of "procedure p" "handler_of p"]
    by (auto simp: q procedures_differ)
  moreover have "stub_kind p = Some (ph_kind (handler_of p))"
    by (cases p) (simp_all add: stub_kind_def handler_of_def)
  moreover have "http_serve ops codec x q b = (let (r, b') = serve ops x h m b in (HttpRpc r, b'))"
    using hdl assms(2) mux_procedure [of p]
    by (auto simp: http_serve_def q handler_of_def split: if_splits)
  ultimately show ?thesis
    by (simp add: client_endpoint_eq handler_of_def q)
qed

definition sample_codec :: "proc \<Rightarrow> http_request \<Rightarrow> msg option" where
  "sample_codec p q =
     (case p of
        PFileRead \<Rightarrow> Some (MFileRead (hr_body q))
      | PStatus \<Rightarrow> Some MEnrollStatus
      | PJobOutput \<Rightarrow> Some (MJobOutput (hr_body q) '''' 0 0)
      | _ \<Rightarrow> None)"

lemma sample_typed: "typed_codec sample_codec"
  by (simp add: typed_codec_def sample_codec_def int32_def split: proc.splits)

theorem call_reaches_its_handler_witness:
  "\<exists>q. stub_request (\<lambda>_. ''log'') ''http://h:8080//'' Map.empty PFileRead (MFileRead ''log'') = Some q \<and>
     (\<forall>ops x (b :: unit booted). http_serve ops sample_codec x q b =
        (let (r, b') = serve ops x Map.empty (MFileRead ''log'') b in (HttpRpc r, b')))"
proof -
  obtain q where q: "stub_request (\<lambda>_. ''log'') ''http://h:8080//'' Map.empty PFileRead (MFileRead ''log'') = Some q"
    by (simp add: stub_request_def client_endpoint_eq)
  then have "hr_body q = ''log''" by (auto simp: stub_request_def client_endpoint_eq)
  then have c: "sample_codec PFileRead q = Some (MFileRead ''log'')" by (simp add: sample_codec_def)
  have "http_serve ops sample_codec x q b = (let (r, b') = serve ops x Map.empty (MFileRead ''log'') b in (HttpRpc r, b'))"
    for ops x and b :: "unit booted"
    by (rule call_reaches_its_handler [where enc = "\<lambda>_. ''log''" and base = "''http://h:8080//''" and p = PFileRead
          and sch = "''http''" and host = "''h:8080''" and n = 2, THEN conjunct1])
      (use q c in \<open>simp_all add: slash_def numeral_2_eq_2\<close>)
  with q show ?thesis by blast
qed

text \<open>
  C2. There is no path around the gate. Whatever is sent to the listener of a worker at any
  point of its life, by whatever method, path and body: without the token (and unless
  access control is disabled) it leaves jobs, files and runner as they are, and is answered
  by \<open>Unauthenticated\<close>, a refusal or redirection of the transport or the health text, or by
  the enrollment service.
\<close>

theorem no_path_around_the_gate:
  assumes "worker_reach ops opts b" "typed_codec codec"
    and "\<not> token_holder opts (hr_headers q) (b_gate b)"
    and "http_serve ops codec x q b = (r, b')"
  shows "b_worker b' = b_worker b \<and> b_runner b' = b_runner b \<and>
    (r \<in> {HttpRefused, HttpNotFound, HttpRpc (RespHealth ''ok''),
        HttpRpc (RespError (RpcError CodeUnauthenticated unauthenticated_text))} \<union> range HttpRedirect \<or>
     (\<exists>p. enrolls p \<and> hr_path q = procedure p))"
  using assms(4)
proof (cases rule: http_serve_cases)
  case (answered p m v)
  with assms(2) have "msg_proc m = Some p" by (simp add: typed_codec_def)
  then have g: "gated m \<longleftrightarrow> \<not> enrolls p" by (rule gated_proc)
  show ?thesis
  proof (cases "gated m")
    case True
    from serve_stranger [OF assms(1) True assms(3), of x] answered(3,4) show ?thesis by simp
  next
    case False
    from serve_ungated [OF this answered(3)] False g answered(1) show ?thesis by blast
  qed
qed auto

theorem no_path_around_the_gate_witness:
  "\<exists>b. sample_boot = Inr b \<and> (\<forall>x. fst (http_serve no_store sample_codec x
     \<lparr>hr_connect = False, hr_path = procedure PFileRead, hr_headers = Map.empty, hr_body = ''log''\<rparr> b) \<noteq>
       HttpRpc (RespContent ''one''))"
proof -
  from sample_booted obtain b where b: "sample_boot = Inr b" "claimed (b_gate b)" "token (b_gate b) = ''tok''"
    "\<not> OptDisabled (s_auth (read_settings \<lparr>f_addr = '''', f_workspace = ''/ws'', f_db = ''/db''\<rparr> sample_environ None
       (BootID (b_worker b))))" by blast
  let ?opts = "s_auth (read_settings \<lparr>f_addr = '''', f_workspace = ''/ws'', f_db = ''/db''\<rparr> sample_environ None
       (BootID (b_worker b)))"
  let ?q = "\<lparr>hr_connect = False, hr_path = procedure PFileRead, hr_headers = Map.empty, hr_body = ''log''\<rparr>"
  have no: "\<not> token_holder ?opts (hr_headers ?q) (b_gate b)"
    using b(2-4) by (simp add: token_holder_def header_get_def bearer_def has_prefix_def bearer_prefix_def)
  have reach: "worker_reach no_store ?opts b"
    by (rule worker_reach.booted [OF b(1) [unfolded sample_boot_def] refl])
  have "\<not> enrolls p" if "hr_path ?q = procedure p" for p
    using that procedures_differ [of PFileRead p] by auto
  then have "fst (http_serve no_store sample_codec x ?q b) \<noteq> HttpRpc (RespContent ''one'')" for x
    using no_path_around_the_gate [OF reach sample_typed no prod.collapse [symmetric], of x] by auto
  with b(1) show ?thesis by blast
qed

text \<open>
  C4. Responses have the type of their requests. Whatever the state of the worker, a request
  whose message was read is answered by an RPC error or by the response of that message's
  procedure (for \<open>Info\<close> and \<open>ListJobs\<close> no error but \<open>Unauthenticated\<close>, for \<open>Status\<close> none, an
  acknowledgement only if it succeeded), and no handler panics as long as histories are
  counted by an \<open>int32\<close>.
\<close>

theorem responses_fit_requests:
  assumes "typed_codec codec" "short_histories (b_worker b)"
    and "http_serve ops codec x q b = (HttpRpc r, b')"
  shows "(\<exists>p m. hr_path q = procedure p \<and> codec p q = Some m \<and> msg_proc m = Some p \<and> fits m r \<and> r \<noteq> RespPanic) \<or>
    hr_path q = ''/healthz'' \<and> r = RespHealth ''ok''"
  using assms(3)
proof (cases rule: http_serve_cases)
  case (answered p m v)
  with assms(1) have "msg_proc m = Some p" "int_fields m" by (simp_all add: typed_codec_def)
  with serve_fits [OF _ assms(2) answered(3)] answered show ?thesis by auto
qed auto

lemma file_worker_short: "short_histories file_worker"
  by (auto simp: short_histories_def file_worker_def NewService_def NewManager_def readMerged_def Get_def
      QueryLines_def sql_query_lines_def new_store_def Let_def split: if_splits)

theorem responses_fit_requests_witness:
  "\<forall>x g. \<exists>r b'. http_serve no_store sample_codec x
       \<lparr>hr_connect = False, hr_path = procedure PJobOutput, hr_headers = Map.empty, hr_body = ''j''\<rparr>
       (\<lparr>b_worker = file_worker, b_runner = NewRunner ''/ws'' [], b_gate = g, b_state = None\<rparr> :: unit booted) =
         (HttpRpc r, b') \<and>
     fits (MJobOutput ''j'' '''' 0 0) r"
proof (intro allI)
  fix x g
  let ?q = "\<lparr>hr_connect = False, hr_path = procedure PJobOutput, hr_headers = Map.empty, hr_body = ''j''\<rparr>"
  let ?b = "\<lparr>b_worker = file_worker, b_runner = NewRunner ''/ws'' [], b_gate = g, b_state = None\<rparr> :: unit booted"
  have "snd NewWorkerServiceHandler (procedure PJobOutput) = Some (handler_of PJobOutput)"
    by (simp only: service_handler) (intro exI [of _ PJobOutput], simp)
  then obtain r b' where s: "http_serve no_store sample_codec x ?q ?b = (HttpRpc r, b')"
    using mux_procedure [of PJobOutput]
    by (simp add: http_serve_def handler_of_def sample_codec_def Let_def case_prod_beta del: procedure.simps)
  have "short_histories (b_worker ?b)" by (simp add: file_worker_short)
  from responses_fit_requests [OF sample_typed this s] obtain p m where
    p: "procedure PJobOutput = procedure p" "sample_codec p ?q = Some m" "fits m r" by auto
  from p(1) have "p = PJobOutput" by (simp only: procedures_differ)
  with p(2,3) have "fits (MJobOutput ''j'' '''' 0 0) r" by (simp add: sample_codec_def)
  with s show "\<exists>r b'. http_serve no_store sample_codec x ?q ?b = (HttpRpc r, b') \<and>
      fits (MJobOutput ''j'' '''' 0 0) r" by blast
qed

end
