(* ===== verification/Tools.thy ===== *)
theory Tools
  imports Service
begin

text \<open>
  The command-line tools \<open>cmd/easyworker-enroll\<close> and \<open>cmd/trustprobe\<close>: the calls they make
  are arguments, what they print is a result. The list of probes, a table of commands for
  other programs, is an argument too.
\<close>

subsection \<open>easyworker-enroll\<close>

record enroll_flags =
  ef_addr :: string
  ef_code :: string
  ef_owner :: string
  ef_status :: bool

datatype tool_output =
    Usage
  | CodeRequired
  | StatusFailed client_error
  | StatusLine enroll_status_response
  | EnrollFailed client_error
  | TokenLine string

text \<open>The exit code and what is printed.\<close>

definition enroll_main ::
  "(unit \<Rightarrow> rpc_error + enroll_status_response) \<Rightarrow> (string \<Rightarrow> string \<Rightarrow> rpc_error + string option)
     \<Rightarrow> enroll_flags \<Rightarrow> nat \<times> tool_output" where
  "enroll_main status_call claim_call f =
     (if ef_addr f = '''' then (2, Usage)
      else if ef_status f then
        (case client_Status status_call of
           Inl e \<Rightarrow> (1, StatusFailed e) | Inr st \<Rightarrow> (0, StatusLine st))
      else if ef_code f = '''' then (2, CodeRequired)
      else (case client_Enroll claim_call (ef_code f) (ef_owner f) of
              Inl e \<Rightarrow> (1, EnrollFailed e) | Inr tok \<Rightarrow> (0, TokenLine tok)))"

subsection \<open>trustprobe\<close>

record probe =
  pr_name :: string
  pr_need :: string
  pr_cmd :: string

definition probe_command :: "probe \<Rightarrow> string" where
  "probe_command p =
     (if pr_need p \<noteq> '''' then ''command -v '' @ pr_need p @ '' >/dev/null 2>&1 || exit 127; '' @ pr_cmd p
      else pr_cmd p)"

fun split_on :: "char \<Rightarrow> string \<Rightarrow> string list" where
  "split_on c [] = ['''']"
| "split_on c (x # xs) =
     (if x = c then '''' # split_on c xs
      else case split_on c xs of [] \<Rightarrow> [[x]] | y # ys \<Rightarrow> (x # y) # ys)"

definition wanted :: "string \<Rightarrow> string list" where
  "wanted only = filter (\<lambda>n. n \<noteq> '''') (map trim_space (split_on (CHR 0x2C) only))"

text \<open>What the stream of \<open>WatchJob\<close> adds up to: the output and the last exit code, or -1.\<close>

fun watch_sum :: "watch_event list \<Rightarrow> string \<times> int \<Rightarrow> string \<times> int" where
  "watch_sum [] acc = acc"
| "watch_sum (Output l # es) (out, ec) = watch_sum es (out @ l, ec)"
| "watch_sum (DoneEvent c a b # es) (out, ec) = watch_sum es (out, c)"

definition probe_run ::
  "(string \<Rightarrow> rpc_error + string) \<Rightarrow> (string \<Rightarrow> rpc_error + watch_event list \<times> rpc_error option) \<Rightarrow> string
     \<Rightarrow> string \<times> int \<times> rpc_error option" where
  "probe_run execute watch cmd =
     (case execute cmd of
        Inl e \<Rightarrow> ('''', -1, Some e)
      | Inr i \<Rightarrow>
          (case watch i of
             Inl e \<Rightarrow> ('''', -1, Some e)
           | Inr (es, err) \<Rightarrow> (let (out, ec) = watch_sum es ('''', -1) in (out, ec, err))))"

text \<open>\<open>strings.TrimRight\<close> of newlines.\<close>

definition trim_newlines :: "string \<Rightarrow> string" where
  "trim_newlines s = rev (dropWhile (\<lambda>c. c = LF) (rev s))"

definition lastLine :: "string \<Rightarrow> string" where
  "lastLine s =
     (let lines = split_on LF (trim_newlines s) in
      if lines = [] then '''' else trim_space (last lines))"

datatype probe_verdict = ProbeError rpc_error | Skipped | Passed string | Failed int string

definition judge :: "string \<times> int \<times> rpc_error option \<Rightarrow> probe_verdict" where
  "judge r =
     (let (out, ec, err) = r in
      case err of
        Some e \<Rightarrow> ProbeError e
      | None \<Rightarrow>
          if ec = 127 then Skipped else if ec = 0 then Passed (lastLine out) else Failed ec (lastLine out))"

fun probe_loop ::
  "(string \<Rightarrow> string \<times> int \<times> rpc_error option) \<Rightarrow> string list \<Rightarrow> probe list \<Rightarrow> nat \<times> nat
     \<Rightarrow> (string \<times> probe_verdict) list \<times> nat \<times> nat" where
  "probe_loop run want [] (pass, fail) = ([], pass, fail)"
| "probe_loop run want (p # ps) (pass, fail) =
     (if want \<noteq> [] \<and> pr_name p \<notin> set want then probe_loop run want ps (pass, fail)
      else let v = judge (run (probe_command p));
               (pass, fail) = (case v of
                  ProbeError _ \<Rightarrow> (pass, Suc fail) | Skipped \<Rightarrow> (pass, fail)
                | Passed _ \<Rightarrow> (Suc pass, fail) | Failed _ _ \<Rightarrow> (pass, Suc fail));
               (vs, r) = probe_loop run want ps (pass, fail)
           in ((pr_name p, v) # vs, r))"

definition probe_main ::
  "(string \<Rightarrow> string \<times> int \<times> rpc_error option) \<Rightarrow> probe list \<Rightarrow> string \<Rightarrow> string
     \<Rightarrow> nat \<times> ((string \<times> probe_verdict) list \<times> nat \<times> nat)" where
  "probe_main run probes addr only =
     (if addr = '''' then (2, [], 0, 0)
      else let (vs, pass, fail) = probe_loop run (wanted only) probes (0, 0)
           in (if fail > 0 then 1 else 0, vs, pass, fail))"

subsection \<open>What the tools report\<close>

definition selected :: "string list \<Rightarrow> probe list \<Rightarrow> probe list" where
  "selected want ps = filter (\<lambda>p. want = [] \<or> pr_name p \<in> set want) ps"

definition bad :: "probe_verdict \<Rightarrow> bool" where
  "bad v \<longleftrightarrow> (case v of ProbeError _ \<Rightarrow> True | Failed _ _ \<Rightarrow> True | _ \<Rightarrow> False)"

lemma bad_simps [simp]: "bad (ProbeError e)" "\<not> bad Skipped" "\<not> bad (Passed l)" "bad (Failed n l)"
  by (simp_all add: bad_def)

lemma probe_loop_result:
  "probe_loop run want ps (pass, fail) = (vs, pass', fail') \<Longrightarrow>
   vs = map (\<lambda>p. (pr_name p, judge (run (probe_command p)))) (selected want ps) \<and>
   fail' = fail + length (filter (bad \<circ> snd) vs) \<and>
   pass' + fail' + length (filter (\<lambda>v. snd v = Skipped) vs) = pass + fail + length vs"
proof (induction ps arbitrary: pass fail vs)
  case (Cons p ps)
  show ?case
  proof (cases "want \<noteq> [] \<and> pr_name p \<notin> set want")
    case True
    with Cons show ?thesis by (auto simp: selected_def)
  next
    case False
    obtain vs1 r where "probe_loop run want ps (case judge (run (probe_command p)) of
        ProbeError _ \<Rightarrow> (pass, Suc fail) | Skipped \<Rightarrow> (pass, fail)
      | Passed _ \<Rightarrow> (Suc pass, fail) | Failed _ _ \<Rightarrow> (pass, Suc fail)) = (vs1, r)" by (metis surj_pair)
    with Cons.prems False show ?thesis
      by (cases "judge (run (probe_command p))") (auto simp: Let_def selected_def dest!: Cons.IH)
  qed
qed (simp add: selected_def)

lemma watch_sum_outputs: "watch_sum (map Output ls @ es) (out, ec) = watch_sum es (out @ concat ls, ec)"
  by (induction ls arbitrary: out) simp_all

text \<open>
  The lines of a stream come without their newlines, so a probe's output is their plain
  concatenation: of an output of several lines \<open>lastLine\<close> shows all.
\<close>

theorem probe_output_runs_lines_together:
  "watch_sum [Output ''one'', Output ''two'', DoneEvent 0 '''' ''''] ('''', -1) = (''onetwo'', 0) \<and>
   lastLine ''onetwo'' = ''onetwo''"
  by (simp add: lastLine_def trim_newlines_def LF_def trim_space_def is_space_def)

lemma enroll_main_token:
  "enroll_main status_call claim_call f = (0, TokenLine tok) \<longleftrightarrow>
   ef_addr f \<noteq> '''' \<and> \<not> ef_status f \<and> ef_code f \<noteq> '''' \<and>
   client_Enroll claim_call (ef_code f) (ef_owner f) = Inr tok"
  by (auto simp: enroll_main_def split: sum.splits)

lemma probe_main_exit:
  "addr \<noteq> '''' \<Longrightarrow> fst (probe_main run probes addr only) = 0 \<longleftrightarrow>
   (\<forall>p \<in> set (selected (wanted only) probes). \<not> bad (judge (run (probe_command p))))"
proof -
  assume a: "addr \<noteq> ''''"
  obtain vs pass fail where l: "probe_loop run (wanted only) probes (0, 0) = (vs, pass, fail)"
    by (metis surj_pair)
  from probe_loop_result [OF l] a l show ?thesis
    by (auto simp: probe_main_def filter_empty_conv)
qed

end
