(* ===== verification/Ewtest.thy ===== *)
theory Ewtest
  imports Tools FileRpc
begin

text \<open>
  The end-to-end test \<open>cmd/ewtest/main.go\<close> as the client it is: a script of calls and
  checks against any worker. The calls, the clock and the pause are the fields of a record
  over the state of the outside world; a run ends, stops the process early (the \<open>FATAL\<close>
  exits) or is still polling when the bound on polls is used up. What is printed is the
  list of checks with their results.
\<close>

subsection \<open>The outside world\<close>

record 'w api =
  a_Info :: "'w \<Rightarrow> (rpc_error + info_response) \<times> 'w"
  a_Execute :: "string \<Rightarrow> 'w \<Rightarrow> (rpc_error + string) \<times> 'w"
  a_WatchJob :: "string \<Rightarrow> 'w \<Rightarrow> (rpc_error + watch_event list \<times> rpc_error option) \<times> 'w"
  a_JobOutput :: "string \<Rightarrow> string \<Rightarrow> 'w \<Rightarrow> (rpc_error + string list \<times> bool) \<times> 'w"
  a_JobWait :: "string \<Rightarrow> int \<Rightarrow> 'w \<Rightarrow> (rpc_error + wait_response) \<times> 'w"
  a_JobStdin :: "string \<Rightarrow> bytes \<Rightarrow> bool \<Rightarrow> 'w \<Rightarrow> (rpc_error + bool) \<times> 'w"
  a_JobKill :: "string \<Rightarrow> 'w \<Rightarrow> (rpc_error + bool) \<times> 'w"
  a_FileRead :: "string \<Rightarrow> 'w \<Rightarrow> (rpc_error + bytes) \<times> 'w"
  a_FileWrite :: "string \<Rightarrow> bytes \<Rightarrow> 'w \<Rightarrow> (rpc_error + bool) \<times> 'w"
  a_FileList :: "string \<Rightarrow> 'w \<Rightarrow> (rpc_error + bool \<times> entry list) \<times> 'w"
  a_now :: "'w \<Rightarrow> int \<times> 'w"
  a_sleep :: "int \<Rightarrow> 'w \<Rightarrow> 'w"

record 'w script =
  sc_checks :: "(string \<times> bool) list"
  sc_world :: 'w

datatype ('w, 'a) progress = Ret 'a "'w script" | Fatal "'w script" | Polling

definition failures :: "'w script \<Rightarrow> nat" where
  "failures s = length (filter (\<lambda>c. \<not> snd c) (sc_checks s))"

definition check :: "string \<Rightarrow> bool \<Rightarrow> 'w script \<Rightarrow> ('w, unit) progress" where
  "check name ok s = Ret () (s\<lparr>sc_checks := sc_checks s @ [(name, ok)]\<rparr>)"

definition andThen ::
  "('w script \<Rightarrow> ('w, 'a) progress) \<Rightarrow> ('a \<Rightarrow> 'w script \<Rightarrow> ('w, 'b) progress) \<Rightarrow> 'w script \<Rightarrow> ('w, 'b) progress"
where
  "andThen m k s = (case m s of Ret a s' \<Rightarrow> k a s' | Fatal s' \<Rightarrow> Fatal s' | Polling \<Rightarrow> Polling)"

definition calls :: "('w \<Rightarrow> 'a \<times> 'w) \<Rightarrow> 'w script \<Rightarrow> ('w, 'a) progress" where
  "calls f s = (let (r, w) = f (sc_world s) in Ret r (s\<lparr>sc_world := w\<rparr>))"

definition orFatal :: "('e + 'a) \<Rightarrow> 'w script \<Rightarrow> ('w, 'a) progress" where
  "orFatal r s = (case r of Inl e \<Rightarrow> Fatal s | Inr a \<Rightarrow> Ret a s)"

subsection \<open>Helpers\<close>

definition contains :: "string list \<Rightarrow> string \<Rightarrow> bool" where
  "contains xs s = list_ex (\<lambda>x. x = s) xs"

definition stateOf :: "wait_response option \<Rightarrow> string" where
  "stateOf r = (case r of None \<Rightarrow> ''<nil>'' | Some a \<Rightarrow> state_text (wr_State a))"

definition exitOf :: "wait_response option \<Rightarrow> int" where
  "exitOf r = (case r of None \<Rightarrow> -1 | Some a \<Rightarrow> wr_ExitCode a)"

definition doneExit :: "watch_event option \<Rightarrow> int" where
  "doneExit d = (case d of Some (DoneEvent c _ _) \<Rightarrow> c | _ \<Rightarrow> -1)"

definition short :: "string \<Rightarrow> string" where
  "short s = (if length s > 8 then take 8 s else s)"

definition resultWord :: "'w script \<Rightarrow> string" where
  "resultWord s = (if failures s = 0 then ''ALL PASS'' else ''HAS FAILURES'')"

definition execIDOf :: "'w api \<Rightarrow> string \<Rightarrow> 'w script \<Rightarrow> ('w, string) progress" where
  "execIDOf a cmd = andThen (calls (a_Execute a cmd)) orFatal"

text \<open>The poll loops; the first argument bounds the polls. Times are in milliseconds.\<close>

fun lines_loop :: "nat \<Rightarrow> 'w api \<Rightarrow> string \<Rightarrow> int \<Rightarrow> int \<Rightarrow> 'w \<Rightarrow> (string list \<times> 'w) option" where
  "lines_loop 0 a i d deadline w = None"
| "lines_loop (Suc n) a i d deadline w =
     (let (r, w) = a_JobOutput a i '''' w;
          hit = (case r of
              Inr (lines, fin) \<Rightarrow>
                if fin \<or> d = 0 then (if lines \<noteq> [] then Some lines else if fin then Some lines else None)
                else None
            | Inl _ \<Rightarrow> None)
      in case hit of
           Some lines \<Rightarrow> Some (lines, w)
         | None \<Rightarrow>
             (let (t, w) = a_now a w in
              if t > deadline then Some ([], w)
              else if d = 0 then Some ([], w)
              else lines_loop n a i d deadline (a_sleep a 100 w)))"

definition waitForLines :: "nat \<Rightarrow> 'w api \<Rightarrow> string \<Rightarrow> int \<Rightarrow> 'w \<Rightarrow> (string list \<times> 'w) option" where
  "waitForLines n a i d w = (let (t, w) = a_now a w in lines_loop n a i d (t + d) w)"

fun output_loop :: "nat \<Rightarrow> 'w api \<Rightarrow> string \<Rightarrow> int \<Rightarrow> 'w \<Rightarrow> (string \<times> 'w) option" where
  "output_loop 0 a i deadline w = None"
| "output_loop (Suc n) a i deadline w =
     (let (t, w) = a_now a w in
      if \<not> t < deadline then Some ('''', w)
      else case waitForLines 1 a i 0 w of
        None \<Rightarrow> None
      | Some (lines, w) \<Rightarrow>
          if length lines > 0 then Some (lines ! 0, w)
          else output_loop n a i deadline (a_sleep a 100 w))"

definition waitForOutput :: "nat \<Rightarrow> 'w api \<Rightarrow> string \<Rightarrow> int \<Rightarrow> 'w \<Rightarrow> (string \<times> 'w) option" where
  "waitForOutput n a i d w = (let (t, w) = a_now a w in output_loop n a i (t + d) w)"

definition polls :: "('w \<Rightarrow> ('a \<times> 'w) option) \<Rightarrow> 'w script \<Rightarrow> ('w, 'a) progress" where
  "polls f s = (case f (sc_world s) of None \<Rightarrow> Polling | Some (r, w) \<Rightarrow> Ret r (s\<lparr>sc_world := w\<rparr>))"

definition runSimple :: "nat \<Rightarrow> 'w api \<Rightarrow> string \<Rightarrow> 'w script \<Rightarrow> ('w, string) progress" where
  "runSimple n a cmd = andThen (execIDOf a cmd) (\<lambda>i. polls (waitForOutput n a i 10000))"

definition linesOf :: "'w api \<Rightarrow> string \<Rightarrow> string \<Rightarrow> 'w script \<Rightarrow> ('w, string list) progress" where
  "linesOf a i stream = andThen (calls (a_JobOutput a i stream))
     (\<lambda>r. Ret (case r of Inl _ \<Rightarrow> [] | Inr (lines, _) \<Rightarrow> lines))"

subsection \<open>The script\<close>

definition isInr :: "'e + 'a \<Rightarrow> bool" where
  "isInr r = (case r of Inl _ \<Rightarrow> False | Inr _ \<Rightarrow> True)"

definition ew_info :: "'w api \<Rightarrow> 'w script \<Rightarrow> ('w, string) progress" where
  "ew_info a = andThen (calls (a_Info a)) (\<lambda>r. andThen (orFatal r) (\<lambda>info.
     andThen (check ''info'' (info_Shell info = ''builtin(mvdan-sh)'')) (\<lambda>_. Ret (info_Os info))))"

fun live_lines :: "watch_event list \<Rightarrow> string list" where
  "live_lines [] = []"
| "live_lines (Output l # es) = l # live_lines es"
| "live_lines (DoneEvent c a b # es) = live_lines es"

fun last_done :: "watch_event list \<Rightarrow> watch_event option \<Rightarrow> watch_event option" where
  "last_done [] d = d"
| "last_done (Output l # es) d = last_done es d"
| "last_done (DoneEvent c a b # es) d = last_done es (Some (DoneEvent c a b))"

definition ew_watch :: "'w api \<Rightarrow> string \<Rightarrow> 'w script \<Rightarrow> ('w, string) progress" where
  "ew_watch a os =
     andThen (execIDOf a (''echo hello-from-'' @ os @ '' && echo to-stderr >&2 && printf tail-no-newline''))
     (\<lambda>i. andThen (calls (a_WatchJob a i)) (\<lambda>st.
        let (err, evs) = (case st of Inl e \<Rightarrow> (Some e, []) | Inr (es, e) \<Rightarrow> (e, es));
            live = live_lines evs; fin = last_done evs None
        in andThen (check ''watch-live+done''
             (err = None \<and> fin \<noteq> None \<and> contains live (''hello-from-'' @ os))) (\<lambda>_. Ret i)))"

definition ew_outputs :: "'w api \<Rightarrow> string \<Rightarrow> string \<Rightarrow> 'w script \<Rightarrow> ('w, unit) progress" where
  "ew_outputs a os i =
     andThen (calls (a_JobWait a i 10000)) (\<lambda>r.
     let w = (case r of Inl _ \<Rightarrow> None | Inr x \<Rightarrow> Some x) in
     andThen (check ''jobwait-done'' (w \<noteq> None \<and> stateOf w = ''done'')) (\<lambda>_.
     andThen (linesOf a i ''all'') (\<lambda>all.
     andThen (linesOf a i ''stdout'') (\<lambda>out.
     andThen (linesOf a i ''stderr'') (\<lambda>err.
     andThen (check ''output-all'' (length all = 3 \<and> contains all ''tail-no-newline'')) (\<lambda>_.
     andThen (check ''output-stdout-filter'' (length out = 2 \<and> contains out (''hello-from-'' @ os))) (\<lambda>_.
     check ''output-stderr-filter'' (length err = 1 \<and> err ! 0 = ''to-stderr''))))))))"

definition ew_commands :: "nat \<Rightarrow> 'w api \<Rightarrow> string \<Rightarrow> 'w script \<Rightarrow> ('w, unit) progress" where
  "ew_commands n a os =
     (let windows = (os = ''windows'');
          bs = [CHR 0x5C]; q = [CHR 0x27];
          extCmd = (if windows then ''cmd /c echo external-cmd-works'' else ''uname -s'');
          pipeCmd = (if windows then ''printf '' @ q @ ''apple'' @ bs @ ''nbanana'' @ bs @ ''n'' @ q @ '' | findstr apple''
                     else ''printf '' @ q @ ''b'' @ bs @ ''na'' @ bs @ ''n'' @ q @ '' | sort'');
          wantPipe = (if windows then ''apple'' else ''a'')
      in andThen (runSimple n a extCmd) (\<lambda>ext.
         andThen (check ''external-exec'' (ext \<noteq> '''')) (\<lambda>_.
         andThen (runSimple n a pipeCmd) (\<lambda>pipe.
         check ''builtin-pipe'' (pipe = wantPipe)))))"

definition bin_dat :: bytes where
  "bin_dat = [CHR 0x00, CHR 0x01, CHR 0x02, CHR 0xFF]"

definition ew_files :: "'w api \<Rightarrow> 'w script \<Rightarrow> ('w, unit) progress" where
  "ew_files a =
     andThen (calls (a_FileWrite a ''ewtest/bin.dat'' bin_dat)) (\<lambda>wr.
     andThen (check ''file-write'' (isInr wr)) (\<lambda>_.
     andThen (calls (a_FileRead a ''ewtest/bin.dat'')) (\<lambda>rd.
     andThen (check ''file-read-binary''
       (case rd of Inl _ \<Rightarrow> False | Inr c \<Rightarrow> length c = 4 \<and> c ! 3 = CHR 0xFF)) (\<lambda>_.
     andThen (calls (a_FileList a ''ewtest'')) (\<lambda>ls.
     andThen (check ''file-list'' (case ls of Inl _ \<Rightarrow> False | Inr (isdir, fs) \<Rightarrow> isdir \<and> length fs = 1)) (\<lambda>_.
     andThen (calls (a_FileRead a ''../../etc/passwd'')) (\<lambda>esc.
     check ''file-containment'' (\<not> isInr esc))))))))"

definition ew_stdin :: "nat \<Rightarrow> 'w api \<Rightarrow> 'w script \<Rightarrow> ('w, unit) progress" where
  "ew_stdin n a =
     andThen (execIDOf a ''sort'') (\<lambda>i.
     andThen (calls (a_JobStdin a i (''piped-stdin'' @ [LF]) True)) (\<lambda>_.
     andThen (polls (waitForLines n a i 10000)) (\<lambda>lines.
     check ''stdin-pipe'' (length lines = 1 \<and> lines ! 0 = ''piped-stdin''))))"

definition ew_kill :: "'w api \<Rightarrow> string \<Rightarrow> 'w script \<Rightarrow> ('w, unit) progress" where
  "ew_kill a os =
     (let longCmd = (if os = ''windows'' then ''ping -n 60 127.0.0.1'' else ''sleep 60'') in
      andThen (execIDOf a longCmd) (\<lambda>i.
      andThen (calls (\<lambda>w. ((), a_sleep a 500 w))) (\<lambda>_.
      andThen (calls (a_JobKill a i)) (\<lambda>k.
      andThen (calls (a_JobWait a i 10000)) (\<lambda>r.
      let kw = (case r of Inl _ \<Rightarrow> None | Inr x \<Rightarrow> Some x) in
      check ''kill-tree'' (isInr k \<and> kw \<noteq> None \<and> stateOf kw = ''killed''))))))"

definition ew_script :: "nat \<Rightarrow> 'w api \<Rightarrow> 'w script \<Rightarrow> ('w, unit) progress" where
  "ew_script n a =
     andThen (ew_info a) (\<lambda>os.
     andThen (ew_watch a os) (\<lambda>i.
     andThen (ew_outputs a os i) (\<lambda>_.
     andThen (ew_commands n a os) (\<lambda>_.
     andThen (ew_files a) (\<lambda>_.
     andThen (ew_stdin n a) (\<lambda>_.
     ew_kill a os))))))"

record ew_flags =
  et_token :: string
  et_code :: string

text \<open>
  The exit code and the checks printed; \<open>dial tok\<close> is the client with the bearer token
  \<open>tok\<close>, \<open>enroll\<close> the call of package \<open>client\<close>.
\<close>

definition ewtest_main ::
  "(string \<Rightarrow> 'w api) \<Rightarrow> (string \<Rightarrow> string \<Rightarrow> 'w \<Rightarrow> (client_error + string) \<times> 'w) \<Rightarrow> ew_flags \<Rightarrow> string \<Rightarrow> nat
     \<Rightarrow> 'w \<Rightarrow> (nat \<times> (string \<times> bool) list) option" where
  "ewtest_main dial enroll f env_token n w0 =
     (let tok0 = (if et_token f = '''' then env_token else et_token f);
          (login, w) = (if et_code f \<noteq> '''' then enroll (et_code f) ''ewtest'' w0 else (Inr tok0, w0))
      in case login of
           Inl e \<Rightarrow> Some (1, [])
         | Inr tok \<Rightarrow>
             (case ew_script n (dial tok) \<lparr>sc_checks = [], sc_world = w\<rparr> of
                Polling \<Rightarrow> None
              | Fatal s \<Rightarrow> Some (1, sc_checks s)
              | Ret _ s \<Rightarrow> Some (if failures s > 0 then 1 else 0, sc_checks s)))"

subsection \<open>The checks of a run\<close>

definition tally_names :: "('w script \<Rightarrow> ('w, 'a) progress) \<Rightarrow> string list \<Rightarrow> bool" where
  "tally_names m ns \<longleftrightarrow> (\<forall>s. case m s of
      Ret a s' \<Rightarrow> map fst (sc_checks s') = map fst (sc_checks s) @ ns
    | Fatal s' \<Rightarrow> \<exists>k. map fst (sc_checks s') = map fst (sc_checks s) @ take k ns \<and> (k < length ns \<or> ns = [])
    | Polling \<Rightarrow> True)"

lemma tally_Ret: "tally_names m ns \<Longrightarrow> m s = Ret a s' \<Longrightarrow> map fst (sc_checks s') = map fst (sc_checks s) @ ns"
  unfolding tally_names_def by (drule spec [of _ s]) simp

lemma tally_Fatal: "tally_names m ns \<Longrightarrow> m s = Fatal s' \<Longrightarrow>
    \<exists>k. map fst (sc_checks s') = map fst (sc_checks s) @ take k ns \<and> (k < length ns \<or> ns = [])"
  unfolding tally_names_def by (drule spec [of _ s]) simp

lemma tally_andThen:
  assumes "tally_names m ns" "\<And>a. tally_names (k a) ns'" "ns = [] \<or> ns' \<noteq> []"
  shows "tally_names (andThen m k) (ns @ ns')"
  unfolding tally_names_def
proof
  fix s
  show "case andThen m k s of
      Ret a s' \<Rightarrow> map fst (sc_checks s') = map fst (sc_checks s) @ ns @ ns'
    | Fatal s' \<Rightarrow> \<exists>j. map fst (sc_checks s') = map fst (sc_checks s) @ take j (ns @ ns') \<and>
        (j < length (ns @ ns') \<or> ns @ ns' = [])
    | Polling \<Rightarrow> True"
  proof (cases "m s")
    case (Ret a s1)
    from tally_Ret [OF assms(1) Ret] have one: "map fst (sc_checks s1) = map fst (sc_checks s) @ ns" .
    show ?thesis
    proof (cases "k a s1")
      case two: (Ret b s2)
      from tally_Ret [OF assms(2) two] one Ret two show ?thesis by (simp add: andThen_def)
    next
      case (Fatal s2)
      from tally_Fatal [OF assms(2) Fatal] obtain j where
        "map fst (sc_checks s2) = map fst (sc_checks s1) @ take j ns'" "j < length ns' \<or> ns' = []" by blast
      with Fatal Ret one assms(3) show ?thesis
        by (auto simp: andThen_def intro!: exI [of _ "length ns + j"])
    qed (use Ret in \<open>simp add: andThen_def\<close>)
  next
    case (Fatal s1)
    from tally_Fatal [OF assms(1) Fatal] obtain j where
      "map fst (sc_checks s1) = map fst (sc_checks s) @ take j ns" "j < length ns \<or> ns = []" by blast
    with Fatal show ?thesis
      by (cases "ns = []") (auto simp: andThen_def intro: exI [of _ 0] exI [of _ j])
  qed (simp add: andThen_def)
qed

lemma tally_step [inv_intros]:
  "tally_names (check n ok) [n]" "tally_names (calls f) []" "tally_names (orFatal r) []"
  "tally_names (polls g) []" "tally_names (Ret a) []"
  "tally_names (andThen (check n ok) (\<lambda>_. Ret a)) [n]"
  by (auto simp: tally_names_def check_def calls_def orFatal_def polls_def andThen_def case_prod_beta Let_def
      split: sum.split option.split)

lemma tally_silent:
  "tally_names m [] \<Longrightarrow> (\<And>a. tally_names (k a) ns) \<Longrightarrow> tally_names (andThen m k) ns"
  using tally_andThen [of m "[]" k ns] by simp

lemma tally_check:
  "(\<And>a. tally_names (k a) (n2 # ns)) \<Longrightarrow> tally_names (andThen (check n ok) k) (n # n2 # ns)"
  using tally_andThen [OF tally_step(1), of k "n2 # ns" n ok] by simp

lemma tally_helpers [inv_intros]:
  "tally_names (execIDOf a cmd) []" "tally_names (runSimple n a cmd) []" "tally_names (linesOf a i st) []"
  unfolding runSimple_def execIDOf_def linesOf_def
  by (intro tally_silent tally_step)+

lemma tally_sections:
  "tally_names (ew_info a) [''info'']"
  "tally_names (ew_watch a os) [''watch-live+done'']"
  "tally_names (ew_outputs a os i)
     [''jobwait-done'', ''output-all'', ''output-stdout-filter'', ''output-stderr-filter'']"
  "tally_names (ew_commands n a os) [''external-exec'', ''builtin-pipe'']"
  "tally_names (ew_files a) [''file-write'', ''file-read-binary'', ''file-list'', ''file-containment'']"
  "tally_names (ew_stdin n a) [''stdin-pipe'']"
  "tally_names (ew_kill a os) [''kill-tree'']"
  unfolding ew_info_def ew_watch_def ew_outputs_def ew_commands_def ew_files_def ew_stdin_def ew_kill_def
    Let_def case_prod_beta
  by (intro tally_check tally_silent tally_step tally_helpers)+

definition all_checks :: "string list" where
  "all_checks = [''info'', ''watch-live+done'', ''jobwait-done'', ''output-all'', ''output-stdout-filter'',
     ''output-stderr-filter'', ''external-exec'', ''builtin-pipe'', ''file-write'', ''file-read-binary'',
     ''file-list'', ''file-containment'', ''stdin-pipe'', ''kill-tree'']"

lemma tally_script: "tally_names (ew_script n a) all_checks"
proof -
  have "tally_names (ew_script n a) ([''info''] @ [''watch-live+done''] @
     [''jobwait-done'', ''output-all'', ''output-stdout-filter'', ''output-stderr-filter''] @
     [''external-exec'', ''builtin-pipe''] @
     [''file-write'', ''file-read-binary'', ''file-list'', ''file-containment''] @ [''stdin-pipe''] @ [''kill-tree''])"
    unfolding ew_script_def by (intro tally_andThen tally_sections) simp_all
  then show ?thesis by (simp add: all_checks_def)
qed

text \<open>
  A run of the test exits with 0 exactly if it went through to the end and each of its
  fourteen checks, in this order, passed.
\<close>

theorem ewtest_passes_iff_all_checks_pass:
  assumes "ewtest_main dial enroll f env_token n w = Some (x, cs)"
  shows "x = 0 \<longleftrightarrow> map fst cs = all_checks \<and> list_all snd cs"
    and "x \<le> 1" "\<exists>k. map fst cs = take k all_checks"
proof -
  obtain login w1 where l: "(if et_code f \<noteq> [] then enroll (et_code f) ''ewtest'' w
      else (Inr (if et_token f = [] then env_token else et_token f), w)) = (login, w1)" by (metis surj_pair)
  have "(x = 0 \<longleftrightarrow> map fst cs = all_checks \<and> list_all snd cs) \<and> x \<le> 1 \<and> (\<exists>k. map fst cs = take k all_checks)"
  proof (cases login)
    case (Inl e)
    with assms l show ?thesis by (auto simp: ewtest_main_def Let_def all_checks_def intro: exI [of _ 0])
  next
    case (Inr tok)
    let ?s = "\<lparr>sc_checks = [], sc_world = w1\<rparr>"
    from assms l Inr have run: "(case ew_script n (dial tok) ?s of
        Polling \<Rightarrow> None | Fatal s \<Rightarrow> Some (1, sc_checks s)
      | Ret _ s \<Rightarrow> Some (if failures s > 0 then 1 else 0, sc_checks s)) = Some (x, cs)"
      by (simp add: ewtest_main_def Let_def)
    show ?thesis
    proof (cases "ew_script n (dial tok) ?s")
      case (Ret a s)
      with run have "cs = sc_checks s" "x = (if failures s > 0 then 1 else 0)" by simp_all
      moreover have "failures s = 0 \<longleftrightarrow> list_all snd (sc_checks s)"
        by (auto simp: failures_def filter_empty_conv list_all_iff)
      ultimately show ?thesis
        using tally_Ret [OF tally_script Ret] by (auto intro: exI [of _ "length all_checks"])
    next
      case (Fatal s)
      with run have "cs = sc_checks s" "x = 1" by simp_all
      moreover from tally_Fatal [OF tally_script Fatal] obtain k where
        k: "map fst (sc_checks s) = take k all_checks" "k < length all_checks"
        by (auto simp: all_checks_def)
      then have "length (map fst (sc_checks s)) < length all_checks" by simp
      ultimately show ?thesis using k(1) by auto
    qed (use run in simp)
  qed
  then show "x = 0 \<longleftrightarrow> map fst cs = all_checks \<and> list_all snd cs" "x \<le> 1" "\<exists>k. map fst cs = take k all_checks"
    by blast+
qed

subsection \<open>Polling ends\<close>

text \<open>
  If time passes while the test sleeps and never runs back, a poll loop ends before it has
  polled once per tenth of a second of its allowance, and twice more.
\<close>

definition time_passes :: "('w \<Rightarrow> int) \<Rightarrow> 'w api \<Rightarrow> bool" where
  "time_passes clock a \<longleftrightarrow>
     (\<forall>w. fst (a_now a w) = clock w \<and> clock w \<le> clock (snd (a_now a w))) \<and>
     (\<forall>w i st. clock w \<le> clock (snd (a_JobOutput a i st w))) \<and>
     (\<forall>w ms. clock w + ms \<le> clock (a_sleep a ms w))"

lemma lines_loop_returns:
  assumes "time_passes clock a"
  shows "deadline < clock w + 100 * int n \<Longrightarrow> lines_loop (Suc n) a i d deadline w \<noteq> None"
proof (induction n arbitrary: w)
  case (0 w)
  obtain r w1 where r: "a_JobOutput a i '''' w = (r, w1)" by (metis surj_pair)
  obtain t w2 where t: "a_now a w1 = (t, w2)" by (metis surj_pair)
  from assms r t have "clock w \<le> clock w1" "t = clock w1"
    unfolding time_passes_def by (metis fst_conv snd_conv)+
  with 0 r t show ?case by (auto simp: Let_def split: option.split)
next
  case (Suc n w)
  obtain r w1 where r: "a_JobOutput a i '''' w = (r, w1)" by (metis surj_pair)
  obtain t w2 where t: "a_now a w1 = (t, w2)" by (metis surj_pair)
  have "clock w \<le> clock w1" "clock w1 \<le> clock w2" "clock w2 + 100 \<le> clock (a_sleep a 100 w2)"
    using assms r t unfolding time_passes_def by (metis fst_conv snd_conv)+
  with Suc.prems have "deadline < clock (a_sleep a 100 w2) + 100 * int n" by simp
  from Suc.IH [OF this] r t show ?case
    by (simp del: lines_loop.simps add: lines_loop.simps(2) [of "Suc n"] Let_def split: option.split)
qed

lemma waitForLines_returns:
  assumes "time_passes clock a" "d < 100 * int n"
  shows "waitForLines (Suc n) a i d w \<noteq> None"
proof -
  obtain t w1 where t: "a_now a w = (t, w1)" by (metis surj_pair)
  with assms(1) have "t = clock w" "clock w \<le> clock w1"
    unfolding time_passes_def by (metis fst_conv snd_conv)+
  with assms(2) have "t + d < clock w1 + 100 * int n" by simp
  from lines_loop_returns [OF assms(1) this] t show ?thesis by (simp add: waitForLines_def)
qed

lemma one_look_returns: "\<exists>r w'. waitForLines (Suc 0) a i 0 w = Some (r, w')"
proof -
  obtain t w1 where t: "a_now a w = (t, w1)" by (metis surj_pair)
  obtain r w2 where r: "a_JobOutput a i '''' w1 = (r, w2)" by (metis surj_pair)
  obtain t' w3 where t': "a_now a w2 = (t', w3)" by (metis surj_pair)
  show ?thesis by (auto simp: waitForLines_def t r t' Let_def split: option.split)
qed

lemma one_look_time:
  assumes "time_passes clock a" "waitForLines (Suc 0) a i 0 w = Some (r, w')"
  shows "clock w \<le> clock w'"
proof -
  obtain t w1 where t: "a_now a w = (t, w1)" by (metis surj_pair)
  obtain x w2 where x: "a_JobOutput a i '''' w1 = (x, w2)" by (metis surj_pair)
  obtain t' w3 where t': "a_now a w2 = (t', w3)" by (metis surj_pair)
  have "clock w \<le> clock w1" "clock w1 \<le> clock w2" "clock w2 \<le> clock w3"
    using assms(1) t x t' unfolding time_passes_def by (metis snd_conv)+
  moreover from assms(2) t x t' have "w' = w2 \<or> w' = w3"
    by (auto simp: waitForLines_def Let_def split: option.splits if_splits)
  ultimately show ?thesis by auto
qed

lemma output_loop_returns:
  assumes "time_passes clock a"
  shows "deadline < clock w + 100 * int n \<Longrightarrow> output_loop (Suc n) a i deadline w \<noteq> None"
proof (induction n arbitrary: w)
  case (0 w)
  obtain t w1 where t: "a_now a w = (t, w1)" by (metis surj_pair)
  with assms have "t = clock w" unfolding time_passes_def by (metis fst_conv)
  with 0 t show ?case by simp
next
  case (Suc n w)
  obtain t w1 where t: "a_now a w = (t, w1)" by (metis surj_pair)
  obtain ls w2 where look: "waitForLines (Suc 0) a i 0 w1 = Some (ls, w2)"
    using one_look_returns [of a i w1] by auto
  have "clock w \<le> clock w1" "clock w2 + 100 \<le> clock (a_sleep a 100 w2)"
    using assms t unfolding time_passes_def by (metis snd_conv)+
  with Suc.prems one_look_time [OF assms look]
  have "deadline < clock (a_sleep a 100 w2) + 100 * int n" by simp
  from Suc.IH [OF this] t look show ?case
    by (simp del: output_loop.simps add: output_loop.simps(2) [of "Suc n"] Let_def)
qed

lemma waitForOutput_returns:
  assumes "time_passes clock a" "d < 100 * int n"
  shows "waitForOutput (Suc n) a i d w \<noteq> None"
proof -
  obtain t w1 where t: "a_now a w = (t, w1)" by (metis surj_pair)
  with assms(1) have "t = clock w" "clock w \<le> clock w1"
    unfolding time_passes_def by (metis fst_conv snd_conv)+
  with assms(2) have "t + d < clock w1 + 100 * int n" by simp
  from output_loop_returns [OF assms(1) this] t show ?thesis by (simp add: waitForOutput_def)
qed

definition ends :: "('w script \<Rightarrow> ('w, 'a) progress) \<Rightarrow> bool" where
  "ends m \<longleftrightarrow> (\<forall>s. m s \<noteq> Polling)"

lemma ends_andThen: "ends m \<Longrightarrow> (\<And>a. ends (k a)) \<Longrightarrow> ends (andThen m k)"
  by (auto simp: ends_def andThen_def split: progress.split)

lemma ends_polls: "(\<And>w. f w \<noteq> None) \<Longrightarrow> ends (polls f)"
  by (auto simp: ends_def polls_def split: option.split)

lemma ends_step: "ends (check n ok)" "ends (calls f)" "ends (orFatal r)" "ends (Ret a)"
  by (auto simp: ends_def check_def calls_def orFatal_def case_prod_beta Let_def split: sum.split)

lemma ends_script:
  assumes "time_passes clock a" "101 < n"
  shows "ends (ew_script n a)"
proof -
  obtain k where k: "n = Suc k" "(10000::int) < 100 * int k" using assms(2) by (cases n) auto
  have p: "ends (polls (waitForLines n a i 10000))" "ends (polls (waitForOutput n a i 10000))" for i
    unfolding k(1) using waitForLines_returns [OF assms(1) k(2)] waitForOutput_returns [OF assms(1) k(2)]
    by (simp_all add: ends_polls)
  show ?thesis
    unfolding ew_script_def ew_info_def ew_watch_def ew_outputs_def ew_commands_def ew_files_def
      ew_stdin_def ew_kill_def runSimple_def execIDOf_def linesOf_def Let_def case_prod_beta
    by (intro ends_andThen ends_step p)
qed

text \<open>
  The end-to-end test always comes to an end. If the clock advances while the test sleeps
  and never runs back, no poll loop of a run asks more than 102 times, whatever the worker
  answers: with that bound on polls the run produces an exit code.
\<close>

theorem ewtest_always_ends:
  assumes "\<forall>tok. time_passes clock (dial tok)" "101 < n"
  shows "ewtest_main dial enroll f env_token n w \<noteq> None"
proof -
  have e: "ew_script n (dial tok) s \<noteq> Polling" for tok s
    using ends_script [OF assms(1) [rule_format] assms(2)] by (simp add: ends_def)
  have "(case ew_script n (dial tok) s of Polling \<Rightarrow> None | Fatal s' \<Rightarrow> Some (1, sc_checks s')
      | Ret _ s' \<Rightarrow> Some (if failures s' > 0 then 1 else 0, sc_checks s')) \<noteq> None" for tok s
    using e [of tok s] by (simp split: progress.split)
  then show ?thesis by (auto simp: ewtest_main_def Let_def split: prod.split sum.split)
qed

text \<open>A worker that knows every command and never finishes a job, and a clock that is the state.\<close>

definition stuck_api :: "int api" where
  "stuck_api = \<lparr>a_Info = Pair (Inl not_found), a_Execute = \<lambda>_. Pair (Inr ''j''),
     a_WatchJob = \<lambda>_. Pair (Inr ([], None)), a_JobOutput = \<lambda>_ _. Pair (Inr ([], False)),
     a_JobWait = \<lambda>_ _. Pair (Inl not_found), a_JobStdin = \<lambda>_ _ _. Pair (Inr True),
     a_JobKill = \<lambda>_. Pair (Inr True), a_FileRead = \<lambda>_. Pair (Inl not_found),
     a_FileWrite = \<lambda>_ _. Pair (Inl not_found), a_FileList = \<lambda>_. Pair (Inl not_found),
     a_now = \<lambda>w. (w, w), a_sleep = \<lambda>ms w. w + ms\<rparr>"

theorem ewtest_always_ends_witness:
  "ewtest_main (\<lambda>_. stuck_api) (\<lambda>_ _ w. (Inr ''t'', w)) \<lparr>et_token = '''', et_code = ''c''\<rparr> '''' 102 0 \<noteq> None"
  by (rule ewtest_always_ends [where clock = id]) (simp_all add: time_passes_def stuck_api_def)

subsection \<open>The file checks against the worker\<close>

text \<open>Writing into a directory that is not there yet makes the directory and the file.\<close>

lemma write_in_new_directory:
  assumes "tree_ok rc fs" "plain [d, c]" "node_at fs (rc @ [d]) = None" "node_at fs (rc @ [d, c]) = None"
  shows "fWrite (abs_path rc) (d @ slash # c) data None fs =
    (None, put_node (rc @ [d, c]) (NFile data 420) (put_node (rc @ [d]) NDir fs))"
proof -
  note rc = tree_okD [OF assms(1)]
  have pl: "plain (rc @ [d])" "plain (rc @ [d, c])" using rc assms(2) by simp_all
  have dirs: "dirs_above fs (rc @ [d])" using rc by (simp add: solid_def)
  have gone: "walk fs kernel_links [] (rc @ [d]) = Missing (rc @ [d])"
    using walk_missing [OF pl(1) _ dirs assms(3)] by simp
  have res: "resolve fs (abs_path rc) (d @ slash # c) = Inr (abs_path (rc @ [d, c]))"
    using resolve_plain_path [OF assms(1,2)] by simp
  have dir: "Dir (abs_path (rc @ [d, c])) = abs_path (rc @ [d])"
    using Dir_abs_path [OF pl(2)] by (simp add: butlast_append)
  let ?fs1 = "put_node (rc @ [d]) NDir fs"
  have "mkdir fs (rc @ [d]) = Some ?fs1"
    using rc assms(3) by (simp add: mkdir_def walk_solid)
  moreover have "mkdir_all fs rc = (None, fs)"
    using Stat_root [OF assms(1)] by (subst mkdir_all.simps) simp
  moreover have "Stat fs (abs_path (rc @ [d])) = None"
    using gone by (simp add: Stat_def kernel_walk_abs [OF pl(1)])
  ultimately have "mkdir_all fs (rc @ [d]) = (None, ?fs1)"
    by (subst mkdir_all.simps) simp
  then have mk: "MkdirAll (abs_path (rc @ [d])) fs = (None, ?fs1)"
    by (simp add: MkdirAll_def abs_comps_abs [OF pl(1)])
  have "dirs_above ?fs1 (rc @ [d])" by (rule dirs_above_put [OF dirs]) simp
  then have "dirs_above ?fs1 ((rc @ [d]) @ [c])" by (simp only: dirs_above_simps) (simp add: node_at_put)
  then have "walk ?fs1 kernel_links [] (rc @ [d, c]) = Missing (rc @ [d, c])"
    using walk_missing [OF pl(2), of ?fs1 kernel_links] assms(4) by (simp add: node_at_put)
  then show ?thesis
    by (simp add: fWrite_def res dir mk WriteFile_def open_write_def Let_def kernel_walk_abs [OF pl(2)])
qed

lemma names_ok_put: "names_ok fs \<Longrightarrow> plain l \<Longrightarrow> names_ok (put_node l n fs)"
  by (simp add: names_ok_def put_node_def update_keys)

text \<open>The file calls of a client, served by the handlers of the worker.\<close>

definition file_api :: "(file_error \<Rightarrow> string) \<Rightarrow> worker api \<Rightarrow> worker api" where
  "file_api etext a = a\<lparr>
     a_FileRead := \<lambda>p w. (FileRead etext p w, w),
     a_FileWrite := \<lambda>p d w. FileWrite etext p d None w,
     a_FileList := \<lambda>p w. (FileList etext p w, w)\<rparr>"

definition ewtest_fs :: "loc \<Rightarrow> file_sys \<Rightarrow> file_sys" where
  "ewtest_fs rc fs = put_node (rc @ [''ewtest'', ''bin.dat'']) (NFile bin_dat 420) (put_node (rc @ [''ewtest'']) NDir fs)"

lemma ewtest_names: "plain [''ewtest'', ''bin.dat'']" "dest_comps ''ewtest/bin.dat'' = [''ewtest'', ''bin.dat'']"
  "dest_comps ''ewtest'' = [''ewtest'']" "''ewtest'' @ slash # ''bin.dat'' = ''ewtest/bin.dat''"
  by (simp_all add: plain_comp_def slash_def dest_comps_def)

lemma bin_dat_read: "length bin_dat = 4" "bin_dat ! 3 = CHR 0xFF"
  by (simp_all add: bin_dat_def)

lemma set_singleton_card: "(\<And>c. c \<in> A \<longleftrightarrow> c = x) \<Longrightarrow> card A = 1"
proof -
  assume "\<And>c. c \<in> A \<longleftrightarrow> c = x"
  then have "A = {x}" by blast
  then show "card A = 1" by simp
qed

lemma solid_ewtest: "solid fs l \<Longrightarrow> \<not> prefix rc l \<Longrightarrow> rc \<noteq> [] \<Longrightarrow> solid (ewtest_fs rc fs) l"
proof -
  assume l: "solid fs l" "\<not> prefix rc l" "rc \<noteq> []"
  have "\<not> prefix rc (take k l)" for k
    using l(2) prefix_order.trans [of rc "take k l" l] take_is_prefix by blast
  then have "take k l \<noteq> rc @ c" for k c by (metis prefixI)
  then have same: "node_at (ewtest_fs rc fs) (take k l) = node_at fs (take k l)" for k
    using l(3) by (simp add: ewtest_fs_def node_at_put)
  from l(1) same same [of "length l"] show "solid (ewtest_fs rc fs) l" by (simp add: solid_def dirs_above_def)
qed

lemma resolve_outside:
  assumes "tree_ok rc fs" "solid fs (lexical rc p)" "\<not> prefix rc (lexical rc p)"
  shows "resolve fs (abs_path rc) p = Inl ErrEscapes"
proof -
  let ?l = "lexical rc p"
  note rc = tree_okD [OF assms(1)]
  have l: "EvalSymlinks fs (abs_path ?l) = Some (abs_path ?l)" "plain ?l"
    using assms(2) by (simp_all add: EvalSymlinks_solid solid_def)
  moreover have "abs_path ?l \<noteq> abs_path rc"
    using abs_path_inj [of ?l rc] rc l(2) assms(3) by auto
  moreover have "\<not> hasRootPrefix (abs_path ?l) (abs_path rc)"
    using hasRootPrefix_abs [OF l(2), of rc] rc assms(3) by blast
  ultimately show ?thesis
    using resolve_lexical [of rc fs p] assms(1) by (simp add: tree_ok_def Let_def)
qed

text \<open>What the four calls return on a workspace without the directory \<open>ewtest\<close>.\<close>

lemma ewtest_calls:
  assumes "tree_ok rc fs" "names_ok fs" "node_at fs (rc @ [''ewtest'']) = None"
    and "\<forall>c. node_at fs (rc @ [''ewtest'', c]) = None"
  shows "fWrite (abs_path rc) ''ewtest/bin.dat'' bin_dat None fs = (None, ewtest_fs rc fs)"
    and "fRead (ewtest_fs rc fs) (abs_path rc) ''ewtest/bin.dat'' = Inr bin_dat"
    and "\<exists>e. fList (ewtest_fs rc fs) (abs_path rc) ''ewtest'' = Inr (True, [e])"
    and "tree_ok rc (ewtest_fs rc fs)"
proof -
  let ?fs = "ewtest_fs rc fs" and ?d = "rc @ [''ewtest'']"
  have rc: "plain rc" "rc \<noteq> []" using tree_okD [OF assms(1)] by auto
  note pl = ewtest_names(1)
  show w: "fWrite (abs_path rc) ''ewtest/bin.dat'' bin_dat None fs = (None, ?fs)"
    using write_in_new_directory [OF assms(1) pl assms(3), of bin_dat] assms(4)
    unfolding ewtest_names(4) ewtest_fs_def by simp
  from write_effect [OF assms(1) _ w] ewtest_names(1,2)
  show read: "fRead ?fs (abs_path rc) ''ewtest/bin.dat'' = Inr bin_dat" by simp
  from fWrite_confined [OF assms(1) w] show t: "tree_ok rc ?fs" by (simp add: confined_def)
  have n: "names_ok ?fs" using assms(2) rc pl by (simp add: ewtest_fs_def names_ok_put)
  have kid: "c \<in> set (children ?fs ?d) \<longleftrightarrow> c = ''bin.dat''" for c
    using assms(4) by (simp add: children_iff ewtest_fs_def node_at_put)
  have "distinct (children ?fs ?d)" by (simp add: children_def)
  from distinct_card [OF this] kid have kids: "length (children ?fs ?d) = 1"
    by (simp add: set_singleton_card)
  have p: "plain (dest_comps ''ewtest'')" using pl by (simp add: ewtest_names(3))
  have "node_at ?fs ?d = Some NDir" by (simp add: ewtest_fs_def node_at_put)
  moreover from this have "solid ?fs ?d"
    using tree_okD [OF t] pl by (simp add: solid_def)
  ultimately have "Stat ?fs (abs_path ?d) = Some (?d, NDir)"
    using rc pl by (simp add: Stat_def kernel_walk_abs walk_solid)
  with resolve_dest [OF t p] obtain es where l: "fList ?fs (abs_path rc) ''ewtest'' = Inr (True, es)"
    by (simp add: fList_def ewtest_names(3))
  from fList_directory [OF t n p l] kids have "length es = 1" by (simp add: ewtest_names(3))
  with l show "\<exists>e. fList ?fs (abs_path rc) ''ewtest'' = Inr (True, [e])"
    by (auto simp: length_Suc_conv)
qed

text \<open>
  C40. The end-to-end test of the files agrees with the worker. Run against a worker whose
  workspace has no links and no directory \<open>ewtest\<close>, on a system where the file that
  \<open>../../etc/passwd\<close> names lies outside the workspace, the file section of the test passes
  its four checks: the write succeeds, the four bytes read back, the directory lists one
  file, and the traversal is refused.
\<close>

theorem ewtest_file_checks_pass:
  assumes "tree_ok rc (w_fs (sc_world s))" "names_ok (w_fs (sc_world s))" "w_files (sc_world s) = abs_path rc"
    and "node_at (w_fs (sc_world s)) (rc @ [''ewtest'']) = None"
    and "\<forall>c. node_at (w_fs (sc_world s)) (rc @ [''ewtest'', c]) = None"
    and "solid (w_fs (sc_world s)) (lexical rc ''../../etc/passwd'')"
    and "\<not> prefix rc (lexical rc ''../../etc/passwd'')"
  shows "ew_files (file_api etext a) s = Ret ()
    \<lparr>sc_checks = sc_checks s @ [(''file-write'', True), (''file-read-binary'', True), (''file-list'', True),
        (''file-containment'', True)],
     sc_world = (sc_world s)\<lparr>w_fs := ewtest_fs rc (w_fs (sc_world s))\<rparr>\<rparr>"
proof -
  let ?w = "sc_world s" and ?l = "lexical rc ''../../etc/passwd''"
  let ?fs = "ewtest_fs rc (w_fs ?w)"
  note c = ewtest_calls [OF assms(1,2,4,5)]
  have rc: "plain rc" "rc \<noteq> []" using tree_okD [OF assms(1)] by auto
  from solid_ewtest [OF assms(6,7) rc(2)] resolve_outside [OF c(4) _ assms(7)]
  have "resolve ?fs (abs_path rc) ''../../etc/passwd'' = Inl ErrEscapes" by blast
  then have "fRead ?fs (abs_path rc) ''../../etc/passwd'' = Inl ErrEscapes" by (simp add: fRead_def)
  then have esc: "\<not> isInr (FileRead etext ''../../etc/passwd'' (?w\<lparr>w_fs := ?fs\<rparr>))"
    using assms(3) by (simp add: FileRead_def isInr_def)
  have wr: "FileWrite etext ''ewtest/bin.dat'' bin_dat None ?w = (Inr True, ?w\<lparr>w_fs := ?fs\<rparr>)"
    using c(1) assms(3) by (simp add: FileWrite_def)
  have rd: "FileRead etext ''ewtest/bin.dat'' (?w\<lparr>w_fs := ?fs\<rparr>) = Inr bin_dat"
    using c(2) assms(3) by (simp add: FileRead_def)
  obtain e where ls: "FileList etext ''ewtest'' (?w\<lparr>w_fs := ?fs\<rparr>) = Inr (True, [e])"
    using c(3) assms(3) by (auto simp: FileList_def)
  from esc show ?thesis
    by (simp add: ew_files_def andThen_def calls_def check_def file_api_def wr rd ls isInr_def
        bin_dat_read)
qed

definition etc_fs :: file_sys where
  "etc_fs = put_node [''etc'', ''passwd''] (NFile ''root'' 420) sample_fs"

definition no_api :: "worker api" where
  "no_api = \<lparr>a_Info = Pair (Inl not_found), a_Execute = \<lambda>_. Pair (Inl not_found),
     a_WatchJob = \<lambda>_. Pair (Inl not_found), a_JobOutput = \<lambda>_ _. Pair (Inl not_found),
     a_JobWait = \<lambda>_ _. Pair (Inl not_found), a_JobStdin = \<lambda>_ _ _. Pair (Inl not_found),
     a_JobKill = \<lambda>_. Pair (Inl not_found), a_FileRead = \<lambda>_. Pair (Inl not_found),
     a_FileWrite = \<lambda>_ _. Pair (Inl not_found), a_FileList = \<lambda>_. Pair (Inl not_found),
     a_now = Pair 0, a_sleep = \<lambda>_ w. w\<rparr>"

theorem ewtest_file_checks_pass_witness:
  "\<exists>s. ew_files (file_api (\<lambda>_. ''e'') no_api) \<lparr>sc_checks = [], sc_world = file_worker\<lparr>w_fs := etc_fs\<rparr>\<rparr> = Ret () s \<and>
     failures s = 0 \<and> length (sc_checks s) = 4"
proof -
  let ?s = "\<lparr>sc_checks = [], sc_world = file_worker\<lparr>w_fs := etc_fs\<rparr>\<rparr>"
  have at: "node_at etc_fs l = (if l = [''etc'', ''passwd''] then Some (NFile ''root'' 420) else node_at sample_fs l)" for l
    by (simp add: etc_fs_def node_at_put)
  have lex: "lexical [''ws''] ''../../etc/passwd'' = [''etc'', ''passwd'']"
    by (simp add: lexical_def is_abs_def has_prefix_def slash_def)
  have tree: "tree_ok [''ws''] etc_fs"
    using sample_ok by (auto simp: tree_ok_def root_ok_def solid_def dirs_above_def at prefix_def)
  have names: "names_ok etc_fs"
    by (simp add: etc_fs_def names_ok_put names_ok_def sample_fs_def put_node_def plain_comp_def slash_def)
  have out: "solid etc_fs [''etc'', ''passwd'']"
    unfolding solid_def dirs_above_def
    by (auto simp: etc_fs_def fs_eval plain_comp_def less_Suc_eq)
  have fresh: "node_at etc_fs [''ws'', ''ewtest''] = None" "\<forall>c. node_at etc_fs [''ws'', ''ewtest'', c] = None"
    by (simp_all add: etc_fs_def fs_eval)
  have w: "w_fs (sc_world ?s) = etc_fs" "w_files (sc_world ?s) = abs_path [''ws'']"
    by (simp_all add: file_worker_def NewService_def abs_path_def slash_def)
  have "ew_files (file_api (\<lambda>_. ''e'') no_api) ?s = Ret ()
    \<lparr>sc_checks = sc_checks ?s @ [(''file-write'', True), (''file-read-binary'', True), (''file-list'', True),
        (''file-containment'', True)],
     sc_world = (sc_world ?s)\<lparr>w_fs := ewtest_fs [''ws''] (w_fs (sc_world ?s))\<rparr>\<rparr>"
    by (rule ewtest_file_checks_pass; unfold w lex) (use tree names out fresh in simp_all)
  then show ?thesis by (simp add: failures_def)
qed

end
