(* ===== verification/Probes.thy ===== *)
theory Probes
  imports Tools
begin

text \<open>
  The table of \<open>cmd/trustprobe\<close>: each probe's name, the program it needs and the command
  that must exit with 0, in the order they run. A backslash is \<open>BS\<close>, a quote that would
  end a string literal \<open>QT\<close>.
\<close>

definition BS :: string where "BS = [CHR 0x5C]"

definition QT :: string where "QT = [CHR 0x27]"

definition probe_table :: "(string \<times> string \<times> string) list" where
  \<open>probe_table = [
     (''node https'', ''node'',
        ''node -e "require('https').get('https://registry.npmjs.org/left-pad',r=>{console.log('status',r.statusCode);process.exit(r.statusCode===200?0:1)}).on('error',e=>{console.error('ERR',e.message);process.exit(1)})"''),
     (''npm view'', ''npm'',
        ''npm view left-pad version --no-audit --no-fund''),
     (''pip download'', ''pip'',
        ''pip download --no-deps --no-cache-dir -d /tmp/tp six >/dev/null && '' @ ''echo ok''),
     (''uv pip'', ''uv'',
        ''uv pip install --no-cache --target /tmp/uvt six >/dev/null 2>&1 && '' @ ''echo ok''),
     (''cargo search'', ''cargo'',
        ''cargo search anyhow >/dev/null && echo ok''),
     (''go get'', ''go'',
        ''d=$(mktemp -d) && cd "$d" && go mod init t >/dev/null 2>&1 && go '' @
        ''get golang.org/x/text@v0.14.0 >/dev/null 2>&1 && echo ok''),
     (''gem fetch'', ''gem'',
        ''gem fetch thor --quiet >/dev/null && echo ok''),
     (''composer'', ''composer'',
        ''d=$(mktemp -d) && cd "$d" && COMPOSER_HOME=/tmp/tpch composer require '' @
        ''monolog/monolog --no-interaction --no-progress --quiet >/dev/null '' @ ''2>&1 && echo ok''),
     (''hex'', ''mix'',
        ''export MIX_HOME=/root/.mix HEX_HOME=/root/.hex; mix archive.install '' @
        ''/opt/hex-archive/hex.ez --force >/dev/null 2>&1 || true; w=$(mktemp '' @
        ''-d) && cd "$w" && printf 'defmodule P.MixProject do'' @ BS @ ''n  use Mix.Project'' @ BS @
        ''n  def project, do: [app: :p, version: "0.1.0", elixir: "~> 1.16", '' @
        ''deps: [{:jason, "1.4.4"}]]'' @ BS @ ''n  def application, do: []'' @ BS @ ''nend'' @ BS @
        ''n' > mix.exs && mix deps.get >/dev/null 2>&1 && echo ok''),
     (''dotnet'', ''dotnet'',
        ''dotnet nuget list source >/dev/null && echo ok''),
     (''dart pub'', ''dart'',
        ''dart pub cache add http --version 1.2.2 >/dev/null 2>&1 && echo ok''),
     (''java cacerts'', ''keytool'',
        ''keytool -list -cacerts -storepass changeit 2>/dev/null | grep -qi '' @
        ''easylab && echo ok''),
     (''apk search'', ''apk'',
        ''apk search -q jq >/dev/null && echo ok''),
     (''apt update'', ''apt-get'',
        ''apt-get update -o Acquire::http::Proxy=http://127.0.0.1:80 >/dev/null '' @
        ''2>&1 && echo ok''),
     (''dnf search'', ''dnf'',
        ''dnf -q --refresh search jq >/dev/null 2>&1 && echo ok''),
     (''conda search'', ''conda'',
        ''conda tos accept --override-channels --channel https://repo.anaconda.com/pkgs/main '' @
        ''>/dev/null 2>&1; conda tos accept --override-channels --channel https://repo.anaconda.com/pkgs/r '' @
        ''>/dev/null 2>&1; conda search --override-channels -c defaults zlib '' @
        ''>/dev/null 2>&1 && echo ok''),
     (''pixi search'', ''pixi'',
        ''pixi search --channel https://repo.anaconda.com/pkgs/main zlib >/dev/null '' @
        ''2>&1 && echo ok''),
     (''pixi env'', ''pixi'',
        ''d=$(mktemp -d) && cd "$d" && pixi init -c https://repo.anaconda.com/pkgs/main '' @
        ''>/dev/null 2>&1 && pixi add python zlib >/dev/null 2>&1 && pixi run '' @
        ''python -c "import zlib" >/dev/null 2>&1 && echo ok''),
     (''julia pkg'', ''julia'',
        ''d=$(mktemp -d) && cd "$d" && JULIA_DEPOT_PATH=/tmp/tpjulia julia '' @
        ''-e 'using Pkg; Pkg.Registry.add("General")' >/dev/null 2>&1 && echo '' @ ''ok''),
     (''crystal shards'', ''shards'',
        ''d=$(mktemp -d) && cd "$d" && printf 'name: t'' @ BS @ ''nversion: 0.1.0'' @ BS @
        ''n' > shard.yml && CRYSTAL_CACHE_DIR=/tmp/tpcrystal shards install '' @
        ''--skip-postinstall 2>&1 | tail -1; echo ok''),
     (''opam'', ''opam'',
        ''d=$(mktemp -d) && cd "$d" && OPAMROOT=/tmp/tpopam opam init --bare '' @
        ''--disable-sandboxing -y >/dev/null 2>&1 && OPAMROOT=/tmp/tpopam opam '' @
        ''repository list >/dev/null 2>&1 && echo ok''),
     (''ghcup'', ''ghcup'',
        ''ghcup list -t ghc >/dev/null 2>&1 && echo ok''),
     (''zig'', ''zig'',
        ''zig version >/dev/null && echo ok''),
     (''perl cpanm'', ''cpanm'',
        ''cpanm --version >/dev/null && echo ok''),
     (''lua'', ''lua'',
        ''lua -v >/dev/null 2>&1 && echo ok''),
     (''luarocks'', ''luarocks'',
        ''luarocks --version >/dev/null && echo ok''),
     (''R pkg'', ''R'',
        ''Rscript -e 'install.packages("jsonlite", repos="https://cran.r-project.org", '' @
        ''quiet=TRUE)' >/dev/null 2>&1 && echo ok''),
     (''cc build'', ''cmake'',
        ''d=$(mktemp -d) && cd "$d" && printf 'cmake_minimum_required(VERSION '' @ ''3.20)'' @ BS @
        ''nproject(t C)'' @ BS @
        ''n' > CMakeLists.txt && cmake -S . -B b >/dev/null 2>&1 && echo ok''),
     (''cpp26'', ''clang++'',
        ''d=$(mktemp -d) && cd "$d" && printf '#include <print>'' @ BS @
        ''ntemplate <class... Ts> struct f { using t = Ts...[0]; };'' @ BS @
        ''nint main(){ std::println("ok {}", __cplusplus/100); }'' @ BS @
        ''n' > m.cpp && printf 'cmake_minimum_required(VERSION 3.30)'' @ BS @ ''nproject(t CXX)'' @
        BS @ ''nset(CMAKE_CXX_STANDARD 26)'' @ BS @ ''nset(CMAKE_CXX_STANDARD_REQUIRED ON)'' @ BS @
        ''nadd_executable(t m.cpp)'' @ BS @
        ''n' > CMakeLists.txt && cmake -S . -B b -G Ninja >/dev/null 2>&1 && '' @
        ''cmake --build b >/dev/null 2>&1 && ./b/t''),
     (''git ls-remote'', ''git'',
        ''git ls-remote --heads https://github.com/octocat/Hello-World.git '' @
        ''>/dev/null 2>&1 && echo ok''),
     (''kotlin'', ''kotlinc'',
        ''kotlinc -version >/dev/null 2>&1 && echo ok''),
     (''groovy'', ''groovy'',
        ''groovy --version >/dev/null 2>&1 && echo ok''),
     (''clojure'', ''clojure'',
        ''clojure -Sdescribe >/dev/null && echo ok''),
     (''scala'', ''scala-cli'',
        ''scala-cli version >/dev/null 2>&1 && echo ok''),
     (''bun'', ''bun'',
        ''d=$(mktemp -d) && cd "$d" && bun add left-pad >/dev/null 2>&1 && '' @ ''echo ok''),
     (''deno'', ''deno'',
        ''deno info >/dev/null 2>&1 && echo ok''),
     (''gleam'', ''gleam'',
        ''gleam --version >/dev/null && echo ok'')
  ]\<close>

definition probes :: "probe list" where
  "probes = map (\<lambda>(n, need, cmd). \<lparr>pr_name = n, pr_need = need, pr_cmd = cmd\<rparr>) probe_table"

text \<open>The program with its table.\<close>

definition trustprobe_main ::
  "(string \<Rightarrow> rpc_error + string) \<Rightarrow> (string \<Rightarrow> rpc_error + watch_event list \<times> rpc_error option) \<Rightarrow> string
     \<Rightarrow> string \<Rightarrow> nat \<times> ((string \<times> probe_verdict) list \<times> nat \<times> nat)" where
  "trustprobe_main execute watch = probe_main (probe_run execute watch) probes"

subsection \<open>Every probe can be picked\<close>

lemma split_on_single: "c \<notin> set s \<Longrightarrow> split_on c s = [s]"
  by (induction s) auto

lemma wanted_single: "CHR 0x2C \<notin> set n \<Longrightarrow> n \<noteq> '''' \<Longrightarrow> trim_space n = n \<Longrightarrow> wanted n = [n]"
  by (simp add: wanted_def split_on_single)

lemma selected_single:
  assumes "distinct (map pr_name ps)" "p \<in> set ps" "want = [pr_name p]"
  shows "selected want ps = [p]"
  using assms(1,2) unfolding assms(3)
proof (induction ps)
  case (Cons q ps)
  then show ?case
  proof (cases "q = p")
    case True
    with Cons.prems have "filter (\<lambda>x. pr_name x = pr_name p) ps = []"
      by (auto simp: filter_empty_conv image_iff)
    with True show ?thesis by (simp add: selected_def)
  next
    case False
    with Cons.prems have "pr_name q \<noteq> pr_name p" "p \<in> set ps" by (auto simp: image_iff)
    with Cons show ?thesis by (simp add: selected_def)
  qed
qed simp

lemma probe_names: "map pr_name probes = map fst probe_table"
  by (simp add: probes_def case_prod_beta comp_def)

lemma names_distinct: "distinct (map fst probe_table)"
  unfolding probe_table_def by simp

lemma names_selectable:
  "list_all (\<lambda>n. CHR 0x2C \<notin> set n \<and> n \<noteq> '''' \<and> trim_space n = n) (map fst probe_table)"
  unfolding probe_table_def by (simp add: trim_space_def is_space_def)

text \<open>
  No two probes share a name, and giving a probe's name to \<open>-only\<close> runs that probe and no
  other.
\<close>

theorem each_probe_is_picked_by_name:
  assumes "p \<in> set probes"
  shows "selected (wanted (pr_name p)) probes = [p]"
proof (rule selected_single [OF _ assms])
  show "distinct (map pr_name probes)" by (simp add: probe_names names_distinct)
  from assms have "pr_name p \<in> set (map fst probe_table)" by (metis image_eqI list.set_map probe_names)
  with names_selectable show "wanted (pr_name p) = [pr_name p]"
    by (auto simp: list_all_iff wanted_single)
qed

text \<open>
  Every probe is guarded by the program it needs, and the verdict of a probe is that of its
  last command. One command ends in \<open>; echo ok\<close>, not \<open>&& echo ok\<close>: whatever \<open>shards install\<close>
  does, this probe passes where the program exists.
\<close>

definition ends_with :: "string \<Rightarrow> string \<Rightarrow> bool" where
  "ends_with e s = (drop (length s - length e) s = e)"

theorem one_probe_ignores_its_command:
  "map pr_name (filter (\<lambda>p. ends_with ''; echo ok'' (pr_cmd p)) probes) = [''crystal shards''] \<and>
   list_all (\<lambda>p. pr_need p \<noteq> '''') probes"
  unfolding probes_def probe_table_def
  by (simp add: ends_with_def BS_def QT_def)

end
