(* ===== verification/FileEscape.thy ===== *)
theory FileEscape
  imports FileSync
begin

text \<open>
  Where the containment check of \<open>internal/filesvc/service.go\<close> and its purpose part ways:
  \<open>EvalSymlinks\<close> fails for a path that does not exist, and the check then compares the
  lexical path. A link in the workspace lets new files out, a root reached by a link takes
  no new file, and the root of the file system serves nothing below it.
\<close>

subsection \<open>Paths through a link\<close>

text \<open>Resolution enters the directory a link leads to, and goes on there.\<close>

lemma walk_from_solid:
  assumes "solid fs d" "node_at fs d = Some NDir"
  shows "walk fs n [] (d @ cs) = walk fs n d cs"
proof (cases cs)
  case Nil
  with walk_solid [OF assms(1)] show ?thesis by simp
next
  case (Cons x xs)
  have "dirs_above fs ([] @ d @ [x])" using assms by (simp add: solid_def)
  from walk_dirs [OF _ this, of n cs] assms(1) show ?thesis by (simp add: solid_def)
qed

lemma walk_through_link:
  assumes "solid fs d" "node_at fs d = Some NDir" "plain_comp c"
    and "node_at fs (d @ [c]) = Some (NLink (abs_path o1))" "solid fs o1" "node_at fs o1 = Some NDir"
  shows "walk fs (Suc n) [] (d @ c # cs) = walk fs n [] (o1 @ cs)"
proof -
  have o1: "plain o1" using assms(5) by (simp add: solid_def)
  have "walk fs (Suc n) [] (d @ c # cs) = walk fs n [] (split_slash (abs_path o1) @ cs)"
    using walk_from_solid [OF assms(1,2)]
    by (simp add: walk_plain_step [OF assms(3)] assms(4))
  also have "\<dots> = walk fs n [] (o1 @ cs)"
    using o1 by (simp add: split_abs_path)
  finally show ?thesis .
qed

text \<open>
  The situation: below the root \<open>rc\<close> a link \<open>c\<close> to a directory \<open>o1\<close> outside, and a name \<open>x\<close>
  in that directory.
\<close>

definition outward_link :: "file_sys \<Rightarrow> loc \<Rightarrow> string \<Rightarrow> loc \<Rightarrow> string \<Rightarrow> bool" where
  "outward_link fs rc c o1 x \<longleftrightarrow> root_ok rc fs \<and> plain [c, x] \<and>
     node_at fs (rc @ [c]) = Some (NLink (abs_path o1)) \<and>
     solid fs o1 \<and> node_at fs o1 = Some NDir \<and> \<not> prefix rc (o1 @ [x])"

lemma outward_walk:
  assumes "outward_link fs rc c o1 x"
  shows "walk fs (Suc n) [] (rc @ c # cs) = walk fs n [] (o1 @ cs)"
    and "plain (rc @ [c, x])" "plain (o1 @ [x])"
    and "lexical rc (c @ slash # x) = rc @ [c, x]"
proof -
  have rc: "root_ok rc fs" using assms by (simp add: outward_link_def)
  show "walk fs (Suc n) [] (rc @ c # cs) = walk fs n [] (o1 @ cs)"
    using assms root_okD [OF rc] by (intro walk_through_link) (simp_all add: outward_link_def)
  show "plain (rc @ [c, x])" "plain (o1 @ [x])"
    using assms root_okD [OF rc] by (simp_all add: outward_link_def solid_def)
  show "lexical rc (c @ slash # x) = rc @ [c, x]"
    using assms lexical_plain_path [of "[c, x]" rc] by (simp add: outward_link_def)
qed

text \<open>An existing object behind the link is refused.\<close>

lemma outward_existing:
  assumes "outward_link fs rc c o1 x" "solid fs (o1 @ [x])"
  shows "resolve fs (abs_path rc) (c @ slash # x) = Inl ErrEscapes"
proof -
  note w = outward_walk [OF assms(1)]
  have rc: "root_ok rc fs" "\<not> prefix rc (o1 @ [x])" using assms(1) by (simp_all add: outward_link_def)
  have "EvalSymlinks fs (abs_path (rc @ [c, x])) = Some (abs_path (o1 @ [x]))"
    using w(1) [of 254 "[x]"] walk_solid [OF assms(2)]
    by (simp add: EvalSymlinks_def walk_abs_path [OF w(2)] eval_links_def)
  moreover have "abs_path (o1 @ [x]) \<noteq> abs_path rc"
    using abs_path_inj [OF w(3), of rc] root_okD [OF rc(1)] rc(2) by auto
  moreover have "\<not> hasRootPrefix (abs_path (o1 @ [x])) (abs_path rc)"
    using hasRootPrefix_abs [OF w(3), of rc] root_okD [OF rc(1)] rc(2) by auto
  ultimately show ?thesis by (simp add: resolve_lexical [OF rc(1)] w(4) Let_def)
qed

text \<open>A name that does not exist there yet passes the check as it is spelled.\<close>

lemma outward_new:
  assumes "outward_link fs rc c o1 x" "node_at fs (o1 @ [x]) = None"
  shows "resolve fs (abs_path rc) (c @ slash # x) = Inr (abs_path (rc @ [c, x]))"
    and "kernel_walk fs (abs_path (rc @ [c, x])) = Missing (o1 @ [x])"
    and "MkdirAll (Dir (abs_path (rc @ [c, x]))) fs = (None, fs)"
proof -
  note w = outward_walk [OF assms(1)]
  have rc: "root_ok rc fs" using assms(1) by (simp add: outward_link_def)
  have "dirs_above fs (o1 @ [x])" using assms(1) by (simp add: outward_link_def solid_def)
  from walk_missing [OF w(3) _ this assms(2)] have miss: "walk fs n [] (o1 @ [x]) = Missing (o1 @ [x])" for n
    by simp
  have "EvalSymlinks fs (abs_path (rc @ [c, x])) = None"
    using w(1) [of 254 "[x]"] miss
    by (simp add: EvalSymlinks_def walk_abs_path [OF w(2)] eval_links_def)
  moreover have "hasRootPrefix (abs_path (rc @ [c, x])) (abs_path rc)"
    using root_okD [OF rc] join_with_append [of rc "[c, x]"]
    by (simp add: hasRootPrefix_def abs_path_def)
  ultimately show "resolve fs (abs_path rc) (c @ slash # x) = Inr (abs_path (rc @ [c, x]))"
    by (simp add: resolve_lexical [OF rc] w(4) Let_def)
  show "kernel_walk fs (abs_path (rc @ [c, x])) = Missing (o1 @ [x])"
    using w(1) [of 39 "[x]"] miss by (simp add: kernel_walk_abs [OF w(2)] kernel_links_def)
  have d: "Dir (abs_path (rc @ [c, x])) = abs_path (rc @ [c])" "plain (rc @ [c])"
    using Dir_abs_path [OF w(2)] w(2) by (simp_all add: butlast_append)
  have "walk fs kernel_links [] (rc @ [c]) = Found o1"
    using w(1) [of 39 "[]"] walk_solid [of fs o1] assms(1)
    by (simp add: kernel_links_def outward_link_def)
  then have "Stat fs (abs_path (rc @ [c])) = Some (o1, NDir)"
    using assms(1) by (simp add: Stat_def kernel_walk_abs [OF d(2)] outward_link_def)
  then show "MkdirAll (Dir (abs_path (rc @ [c, x]))) fs = (None, fs)"
    by (simp add: d MkdirAll_def abs_comps_abs [OF d(2)] mkdir_all.simps)
qed

text \<open>
  C24. A link out of the workspace lets a new file out. Whatever directory outside the root
  a link in the workspace leads to: a file that exists there is neither read nor written
  through the link, but writing a name that does not exist there succeeds and creates the
  file outside the workspace, since \<open>EvalSymlinks\<close> fails for it and the check sees the
  lexical path.
\<close>

theorem write_through_link_escapes:
  assumes "outward_link fs rc c o1 x"
  shows "case node_at fs (o1 @ [x]) of
      None \<Rightarrow> fWrite (abs_path rc) (c @ slash # x) data None fs =
        (None, put_node (o1 @ [x]) (NFile data 420) fs)
    | Some (NLink t) \<Rightarrow> True
    | Some n \<Rightarrow> fRead fs (abs_path rc) (c @ slash # x) = Inl ErrEscapes \<and>
        fWrite (abs_path rc) (c @ slash # x) data None fs = (Some ErrEscapes, fs)"
proof -
  have "solid fs (o1 @ [x])" if "node_at fs (o1 @ [x]) \<noteq> None" "\<not> is_link (node_at fs (o1 @ [x]))"
    using that assms outward_walk(3) [OF assms] by (simp add: solid_def outward_link_def)
  from outward_existing [OF assms this] outward_new [OF assms] show ?thesis
    by (simp add: fRead_def fWrite_def WriteFile_def open_write_def Let_def split: option.split node.split)
qed

theorem write_through_link_escapes_witness:
  "fWrite (abs_path [''ws'']) ''out/new'' ''x'' None linked_fs =
     (None, put_node [''etc'', ''new''] (NFile ''x'' 420) linked_fs) \<and>
   fRead linked_fs (abs_path [''ws'']) ''out/key'' = Inl ErrEscapes"
proof -
  have o1: "outward_link linked_fs [''ws''] ''out'' [''etc''] x" if "x \<in> {''new'', ''key''}" for x
    using that unfolding outward_link_def root_ok_def solid_def dirs_above_def
    by (auto simp: linked_fs_def sample_fs_def put_node_def node_at_def plain_comp_def slash_def abs_path_def)
  from write_through_link_escapes [OF o1 [of "''new''"], of "''x''"]
    write_through_link_escapes [OF o1 [of "''key''"], of "''x''"]
  show ?thesis
    by (simp add: linked_fs_def sample_fs_def put_node_def node_at_def slash_def)
qed

text \<open>So does an archive with such an entry, with the link of the sample file system.\<close>

theorem archive_through_link_escapes:
  "node_at (snd (SyncFolder (\<lambda>_. None) (\<lambda>_. [Header (sample_entry ''out/new'' TypeReg ''x'')])
     (abs_path [''ws'']) ''tar'' '''' False linked_fs)) [''etc'', ''new''] = Some (NFile ''x'' 436)"
  by (simp add: fs_eval sync_eval)

subsection \<open>Roots that serve less than they hold\<close>

text \<open>
  A root reached by a link takes no new file: with the service rooted at \<open>h\<close>, which resolves
  to a directory \<open>rc\<close> elsewhere, the root is evaluated and the new path is not.
\<close>

theorem linked_root_refuses_new_files:
  assumes "EvalSymlinks fs (abs_path h) = Some (abs_path rc)" "plain (h @ cs)" "cs \<noteq> []"
    and "plain rc" "rc \<noteq> []" "\<not> prefix rc (h @ cs)"
    and "EvalSymlinks fs (abs_path (h @ cs)) = None"
  shows "fWrite (abs_path h) (join_with [slash] cs) data stop fs = (Some ErrEscapes, fs)"
proof -
  have cs: "plain h" "plain cs" using assms(2) by simp_all
  have "abs_path (h @ cs) \<noteq> abs_path rc"
    using abs_path_inj [OF assms(2,4)] assms(6) by auto
  moreover have "\<not> hasRootPrefix (abs_path (h @ cs)) (abs_path rc)"
    using hasRootPrefix_abs [OF assms(2,4,5)] assms(6) by blast
  ultimately have "resolve fs (abs_path h) (join_with [slash] cs) = Inl ErrEscapes"
    using plain_join_start [OF cs(2) assms(3)] assms(1,7)
    by (simp add: resolve_def Join_abs_plain [OF cs assms(3)] trimDevicePrefix_def pathEqual_def Let_def)
  then show ?thesis by (simp add: fWrite_def)
qed

theorem linked_root_refuses_new_files_witness:
  "fWrite (abs_path [''home'']) ''new'' ''x'' None moved_fs = (Some ErrEscapes, moved_fs)"
proof -
  have "fWrite (abs_path [''home'']) (join_with [slash] [''new'']) ''x'' None moved_fs = (Some ErrEscapes, moved_fs)"
    by (rule linked_root_refuses_new_files [where rc = "[''ws'']"])
      (simp_all add: moved_fs_def fs_eval plain_comp_def)
  then show ?thesis by simp
qed

text \<open>
  The root of the file system as the workspace serves nothing below it: the prefix test
  wants a separator after the root, which already ends in one.
\<close>

theorem filesystem_root_serves_nothing:
  assumes "resolve fs (abs_path []) path = Inr p"
  shows "p = abs_path []"
proof (rule ccontr)
  assume neq: "p \<noteq> abs_path []"
  have root: "EvalSymlinks fs (abs_path []) = Some (abs_path [])"
    by (rule EvalSymlinks_solid [OF solid_root])
  have start: "(if \<not> is_abs path then Join [abs_path [], path] else Clean path) = abs_path (lexical [] path)"
    using Join_abs [of "[]" path] Join_empty [of "[]"]
    by (cases "path = ''''") (auto simp: lexical_def Clean_abs is_abs_def has_prefix_def)
  have "plain (lexical [] path)" by (rule lexical_plain) simp
  with assms EvalSymlinks_abs [of fs "lexical [] path"] obtain d where d: "p = abs_path d" "plain d"
    unfolding resolve_def Let_def start root trimDevicePrefix_def
    by (auto simp: solid_def split: option.splits if_splits)
  from assms neq have "hasRootPrefix p (abs_path [])"
    unfolding resolve_def Let_def start root trimDevicePrefix_def pathEqual_def
    by (auto split: if_splits)
  then have "d \<noteq> []" "join_with [slash] d ! 0 = slash" "join_with [slash] d \<noteq> ''''"
    using d(1) by (auto simp: hasRootPrefix_def abs_path_def)
  with plain_join_start [OF d(2)] show False
    by (cases "join_with [slash] d") (auto simp: is_abs_def has_prefix_def)
qed

theorem filesystem_root_serves_nothing_witness:
  "resolve sample_fs (abs_path []) '''' = Inr (abs_path []) \<and>
   resolve sample_fs (abs_path []) ''ws/log'' = Inl ErrEscapes"
proof -
  have r: "resolve sample_fs (abs_path []) '''' = Inr (abs_path [])" by (simp add: fs_eval)
  have "resolve sample_fs (abs_path []) ''ws/log'' = Inl ErrEscapes" by (simp add: fs_eval)
  with r show ?thesis using filesystem_root_serves_nothing [OF r] by simp
qed

end
