(* ===== verification/CmdLife.thy ===== *)
theory CmdLife
  imports Runner
begin

text \<open>
  One external command: the goroutine of \<open>execMiddleware\<close> (\<open>internal/shellh/runner.go\<close>)
  against the goroutine of \<open>os/exec\<close> that calls \<open>Cancel\<close> when the context ends: once, at any
  time after \<open>Start\<close> and before \<open>Wait\<close> returns; if the process outlives the cancellation by
  \<open>WaitDelay\<close>, the process itself is killed. Other commands of the runner come and go in
  between. The tree handle has two implementations, \<open>exec_unix.go\<close> and \<open>exec_windows.go\<close>:
  its methods are a record of functions, what a cancellation needs of them is the locale
  \<open>tree_handles\<close>, and both implementations are instances.
\<close>

subsection \<open>The tree handle as an interface\<close>

text \<open>\<open>attach\<close> is not atomic: the process id is in the handle before the rest of it.\<close>

record ('h, 'a) handle_ops =
  op_new :: 'h
  op_name :: "pid \<Rightarrow> 'h \<Rightarrow> 'h"
  op_attach :: "pid \<Rightarrow> 'h \<Rightarrow> 'h"
  op_terminate :: "'h \<Rightarrow> 'a list"
  op_close :: "'h \<Rightarrow> 'h"

definition unix_ops :: "(tree_handle, pid) handle_ops" where
  "unix_ops = \<lparr>op_new = newTreeHandle, op_name = attach, op_attach = attach, op_terminate = terminate,
     op_close = (\<lambda>h. h)\<rparr>"

text \<open>What the system calls of a command's handle answer on Windows.\<close>

record win_calls =
  wc_created :: "handle option"
  wc_info :: bool
  wc_opened :: "handle option"
  wc_assigned :: bool
  wc_killed :: bool

definition win_ops :: "win_calls \<Rightarrow> (pid \<times> handle) list \<Rightarrow> (win_tree_handle, win_action) handle_ops" where
  "win_ops w reg = \<lparr>op_new = win_newTreeHandle, op_name = (\<lambda>p h. h\<lparr>wh_pid := p\<rparr>),
     op_attach = (\<lambda>p h. snd (fst (win_attach (wc_created w) (wc_info w) (wc_opened w) (wc_assigned w) p h reg))),
     op_terminate = (\<lambda>h. case win_terminate (wc_killed w) h of None \<Rightarrow> [] | Some as \<Rightarrow> as),
     op_close = (\<lambda>h. fst (win_close h reg))\<rparr>"

subsection \<open>The life of a command\<close>

datatype phase = Begun | Started | Named | Attached | Tracked | Waited "run_error option"
  | Untracked "run_error option" | Closed "run_error option"

record ('h, 'a) cmd_life =
  l_phase :: phase
  l_handle :: 'h
  l_runner :: runner
  l_ctx :: bool
  l_cancel :: "'a list option"
  l_delay :: bool

definition begun :: "('h, 'a) handle_ops \<Rightarrow> runner \<Rightarrow> ('h, 'a) cmd_life" where
  "begun ops r = \<lparr>l_phase = Begun, l_handle = op_new ops, l_runner = r, l_ctx = False, l_cancel = None,
     l_delay = False\<rparr>"

definition waiting :: "phase \<Rightarrow> bool" where
  "waiting ph \<longleftrightarrow> ph \<in> {Started, Named, Attached, Tracked}"

inductive life_step ::
  "('h, 'a) handle_ops \<Rightarrow> pid \<Rightarrow> cmd \<Rightarrow> ('h, 'a) cmd_life \<Rightarrow> ('h, 'a) cmd_life \<Rightarrow> bool" for ops p c where
  ctx_ends: "life_step ops p c s (s\<lparr>l_ctx := True\<rparr>)"
| refused: "l_phase s = Begun \<Longrightarrow> life_step ops p c s (s\<lparr>l_phase := Closed (Some (ExitStatus 127))\<rparr>)"
| starts: "l_phase s = Begun \<Longrightarrow> \<not> l_ctx s \<Longrightarrow> life_step ops p c s (s\<lparr>l_phase := Started\<rparr>)"
| names: "l_phase s = Started \<Longrightarrow>
    life_step ops p c s (s\<lparr>l_phase := Named, l_handle := op_name ops p (l_handle s)\<rparr>)"
| attaches: "l_phase s = Named \<Longrightarrow>
    life_step ops p c s (s\<lparr>l_phase := Attached, l_handle := op_attach ops p (l_handle s)\<rparr>)"
| tracks: "l_phase s = Attached \<Longrightarrow>
    life_step ops p c s (s\<lparr>l_phase := Tracked, l_runner := track p c (l_runner s)\<rparr>)"
| waited: "l_phase s = Tracked \<Longrightarrow>
    life_step ops p c s (s\<lparr>l_phase := Waited (fst (exec_end w (l_ctx s) p (l_runner s)))\<rparr>)"
| untracks: "l_phase s = Waited x \<Longrightarrow>
    life_step ops p c s (s\<lparr>l_phase := Untracked x, l_runner := untrack p (l_runner s)\<rparr>)"
| closes: "l_phase s = Untracked x \<Longrightarrow>
    life_step ops p c s (s\<lparr>l_phase := Closed x, l_handle := op_close ops (l_handle s)\<rparr>)"
| cancels: "waiting (l_phase s) \<Longrightarrow> l_ctx s \<Longrightarrow> l_cancel s = None \<Longrightarrow>
    life_step ops p c s (s\<lparr>l_cancel := Some (op_terminate ops (l_handle s))\<rparr>)"
| delay: "waiting (l_phase s) \<Longrightarrow> l_cancel s \<noteq> None \<Longrightarrow> life_step ops p c s (s\<lparr>l_delay := True\<rparr>)"
| another_tracks: "q \<noteq> p \<Longrightarrow> life_step ops p c s (s\<lparr>l_runner := track q d (l_runner s)\<rparr>)"
| another_untracks: "q \<noteq> p \<Longrightarrow> life_step ops p c s (s\<lparr>l_runner := untrack q (l_runner s)\<rparr>)"

inductive life_run ::
  "('h, 'a) handle_ops \<Rightarrow> pid \<Rightarrow> cmd \<Rightarrow> ('h, 'a) cmd_life \<Rightarrow> ('h, 'a) cmd_life \<Rightarrow> bool" for ops p c where
  stays: "life_run ops p c s s"
| goes: "life_run ops p c s s' \<Longrightarrow> life_step ops p c s' s'' \<Longrightarrow> life_run ops p c s s''"

inductive_cases life_stepE: "life_step ops p c s s'"

lemma life_run_trans: "life_run ops p c s' t \<Longrightarrow> life_run ops p c s s' \<Longrightarrow> life_run ops p c s t"
proof (induction s' t rule: life_run.induct)
  case (goes s' s'' s3)
  from life_run.goes [OF goes.IH [OF goes.prems] goes.hyps(2)] show ?case .
qed

lemma cancel_stays: "life_step ops p c s s' \<Longrightarrow> l_cancel s = Some sigs \<Longrightarrow> l_cancel s' = Some sigs"
  by (erule life_stepE) auto

lemma cancel_stays_run: "life_run ops p c s t \<Longrightarrow> l_cancel s = Some sigs \<Longrightarrow> l_cancel t = Some sigs"
  by (induction rule: life_run.induct) (auto dest: cancel_stays)

lemma runner_maps:
  "map_of (r_childs (track q d r)) p = (if p = q then Some d else map_of (r_childs r) p)"
  "map_of (r_childs (untrack q r)) p = (if p = q then None else map_of (r_childs r) p)"
  by (simp_all add: track_def untrack_def update_conv' delete_conv')

text \<open>
  The handle is what its methods made of it by now, and the registry knows the process
  while it is tracked; a context that has not ended cancels nothing.
\<close>

definition life_inv :: "('h, 'a) handle_ops \<Rightarrow> pid \<Rightarrow> cmd \<Rightarrow> ('h, 'a) cmd_life \<Rightarrow> bool" where
  "life_inv ops p c s \<longleftrightarrow>
     (l_phase s \<in> {Begun, Started} \<longrightarrow> l_handle s = op_new ops) \<and>
     (l_phase s = Named \<longrightarrow> l_handle s = op_name ops p (op_new ops)) \<and>
     (l_phase s \<in> {Attached, Tracked} \<longrightarrow> l_handle s = op_attach ops p (op_name ops p (op_new ops))) \<and>
     (l_cancel s \<noteq> None \<longrightarrow> l_ctx s) \<and> (l_delay s \<longrightarrow> l_cancel s \<noteq> None) \<and>
     map_of (r_childs (l_runner s)) p =
       (case l_phase s of Tracked \<Rightarrow> Some c | Waited x \<Rightarrow> Some c | _ \<Rightarrow> None)"

lemma life_inv_step: "life_inv ops p c s \<Longrightarrow> life_step ops p c s s' \<Longrightarrow> life_inv ops p c s'"
  by (erule life_stepE) (auto simp: life_inv_def waiting_def runner_maps split: phase.splits)

lemma life_inv_run:
  assumes "map_of (r_childs r) p = None" "life_run ops p c (begun ops r) s"
  shows "life_inv ops p c s"
  using assms(2)
proof (induction "begun ops r" s rule: life_run.induct)
  case stays
  from assms(1) show ?case by (simp add: life_inv_def begun_def)
next
  case (goes s' s'')
  with life_inv_step show ?case by blast
qed

subsection \<open>What a cancellation reaches\<close>

text \<open>
  What is asked of a tree handle: a new one reaches nothing, one that knows its process or is
  attached reaches the process's tree (\<open>near p\<close>, \<open>tree p\<close> are what is done to it).
\<close>

locale tree_handles =
  fixes ops :: "('h, 'a) handle_ops"
    and proc_ok :: "pid \<Rightarrow> bool"
    and near :: "pid \<Rightarrow> 'a list"
    and tree :: "pid \<Rightarrow> 'a list"
  assumes new_reaches_nothing: "op_terminate ops (op_new ops) = []"
    and named_reaches: "proc_ok p \<Longrightarrow> op_terminate ops (op_name ops p (op_new ops)) = near p"
    and attached_reaches:
      "proc_ok p \<Longrightarrow> op_terminate ops (op_attach ops p (op_name ops p (op_new ops))) = tree p"
begin

definition reached :: "phase \<Rightarrow> pid \<Rightarrow> 'a list" where
  "reached ph p = (case ph of Started \<Rightarrow> [] | Named \<Rightarrow> near p | _ \<Rightarrow> tree p)"

lemma cancel_reaches:
  assumes "proc_ok p" "map_of (r_childs r) p = None" "life_run ops p c (begun ops r) s"
    and "life_step ops p c s s'" "l_cancel s = None" "l_cancel s' = Some sigs" "life_run ops p c s' t"
  shows "l_ctx s \<and> waiting (l_phase s) \<and> l_cancel t = Some (reached (l_phase s) p) \<and>
    (\<forall>x. l_phase t = Closed x \<longrightarrow> map_of (r_childs (l_runner t)) p = None)"
proof -
  from life_inv_run [OF assms(2,3)] have i: "life_inv ops p c s" .
  have run: "life_run ops p c (begun ops r) t"
    by (rule life_run_trans [OF assms(7) life_run.goes [OF assms(3,4)]])
  from assms(4-6) i have "l_ctx s \<and> waiting (l_phase s) \<and> sigs = reached (l_phase s) p"
    by (elim life_stepE)
      (auto simp: life_inv_def waiting_def reached_def new_reaches_nothing named_reaches [OF assms(1)]
        attached_reaches [OF assms(1)] split: phase.splits)
  moreover from life_inv_run [OF assms(2) run]
  have "map_of (r_childs (l_runner t)) p = None" if "l_phase t = Closed x" for x
    using that by (simp add: life_inv_def)
  ultimately show ?thesis using cancel_stays_run [OF assms(7,6)] by simp
qed

end

interpretation unix: tree_handles unix_ops "\<lambda>p. p \<noteq> 0" "\<lambda>p. [- p, p]" "\<lambda>p. [- p, p]"
  by unfold_locales (simp_all add: unix_ops_def terminate_def attach_def newTreeHandle_def)

text \<open>
  On Windows the tree is killed through its job object if \<open>attach\<close> went through and the
  system obeys, and by \<open>taskkill\<close> with the id as its decimal otherwise.
\<close>

definition taskkill :: "pid \<Rightarrow> win_action list" where
  "taskkill p = [Taskkill [''/T'', ''/F'', ''/PID'', the (itoa p)]]"

definition attach_ok :: "win_calls \<Rightarrow> bool" where
  "attach_ok w \<longleftrightarrow> wc_created w \<noteq> None \<and> wc_info w \<and> wc_opened w \<noteq> None \<and> wc_assigned w"

definition win_tree :: "win_calls \<Rightarrow> pid \<Rightarrow> win_action list" where
  "win_tree w p = (if attach_ok w \<and> wc_killed w then [TerminatedJob (the (wc_created w))] else taskkill p)"

interpretation windows: tree_handles "win_ops w reg" "\<lambda>p. 0 < p \<and> p < 2 ^ 63" taskkill "win_tree w"
  for w reg
proof unfold_locales
  show "op_terminate (win_ops w reg) (op_new (win_ops w reg)) = []"
    by (simp add: win_ops_def win_terminate_def win_newTreeHandle_def)
  fix p :: pid
  assume p: "0 < p \<and> p < 2 ^ 63"
  then obtain s where s: "itoa p = Some s" using itoa_prints_the_number [of p] by auto
  with p show "op_terminate (win_ops w reg) (op_name (win_ops w reg) p (op_new (win_ops w reg))) = taskkill p"
    by (simp add: win_ops_def win_terminate_def win_newTreeHandle_def taskkill_def)
  from s p show "op_terminate (win_ops w reg) (op_attach (win_ops w reg) p
      (op_name (win_ops w reg) p (op_new (win_ops w reg)))) = win_tree w p"
    by (auto simp: win_ops_def win_terminate_def win_newTreeHandle_def taskkill_def win_tree_def
        attach_ok_def win_attach_def Let_def split: option.splits)
qed

text \<open>
  C28. A cancelled command takes its tree with it. On unix, however the end of the context, the
  goroutine of the command and the other commands interleave, a cancellation signals the
  process group and the process of this command and nothing else, exactly once, unless it
  comes between the start and \<open>attach\<close>: then it signals nothing, then or ever. No command
  is cancelled while its context is alive, and a command that is over is out of the registry.
\<close>

theorem cancel_signals_the_tree:
  assumes "p \<noteq> 0" "map_of (r_childs r) p = None" "life_run unix_ops p c (begun unix_ops r) s"
    and "life_step unix_ops p c s s'" "l_cancel s = None" "l_cancel s' = Some sigs" "life_run unix_ops p c s' t"
  shows "l_ctx s \<and> waiting (l_phase s) \<and>
    l_cancel t = Some (if l_phase s = Started then [] else [- p, p]) \<and>
    (\<forall>x. l_phase t = Closed x \<longrightarrow> map_of (r_childs (l_runner t)) p = None)"
  using unix.cancel_reaches [OF assms] by (auto simp: unix.reached_def waiting_def)

text \<open>
  The same on Windows: the job object is terminated if it was set up and the system obeys,
  else \<open>taskkill\<close> is run on the process id, printed as its decimal, also when the
  cancellation comes in the middle of \<open>attach\<close>; before \<open>attach\<close> nothing is done.
\<close>

theorem windows_cancel_kills_the_tree:
  assumes "0 < p \<and> p < 2 ^ 63" "map_of (r_childs r) p = None"
    and "life_run (win_ops w reg) p c (begun (win_ops w reg) r) s"
    and "life_step (win_ops w reg) p c s s'" "l_cancel s = None" "l_cancel s' = Some sigs"
    and "life_run (win_ops w reg) p c s' t"
  shows "l_cancel t = Some
    (if l_phase s = Started then []
     else if l_phase s \<noteq> Named \<and> attach_ok w \<and> wc_killed w then [TerminatedJob (the (wc_created w))]
     else [Taskkill [''/T'', ''/F'', ''/PID'', the (itoa p)]])"
  using windows.cancel_reaches [OF assms]
  by (auto simp: windows.reached_def win_tree_def taskkill_def waiting_def split: phase.splits)

subsection \<open>Runs of one command\<close>

lemma started_run: "life_run ops p c (begun ops r) ((begun ops r)\<lparr>l_phase := Started\<rparr>)"
  by (rule life_run.goes [OF life_run.stays starts]) (simp_all add: begun_def)

lemma attached_run:
  assumes "life_run ops p c s0 s" "l_phase s = Started"
  obtains t where "life_run ops p c s0 t" "l_phase t = Tracked" "l_ctx t = l_ctx s" "l_cancel t = l_cancel s"
    "l_runner t = track p c (l_runner s)"
proof -
  obtain a where a: "life_run ops p c s0 a" "l_phase a = Named" "l_ctx a = l_ctx s" "l_cancel a = l_cancel s"
    "l_runner a = l_runner s"
    by (rule that [OF life_run.goes [OF assms(1) names [OF assms(2)]]]) simp_all
  obtain b where b: "life_run ops p c s0 b" "l_phase b = Attached" "l_ctx b = l_ctx s" "l_cancel b = l_cancel s"
    "l_runner b = l_runner s"
    by (rule that [OF life_run.goes [OF a(1) attaches [OF a(2)]]]) (simp_all add: a)
  show thesis
    by (rule that [OF life_run.goes [OF b(1) tracks [OF b(2)]]]) (simp_all add: b)
qed

lemma tracked_run:
  obtains s where "life_run ops p c (begun ops r) s" "l_phase s = Tracked" "l_ctx s = d" "l_cancel s = None"
    "l_runner s = track p c r"
proof -
  obtain t where t: "life_run ops p c (begun ops r) t" "l_phase t = Tracked" "\<not> l_ctx t" "l_cancel t = None"
    "l_runner t = track p c r"
    by (rule attached_run [OF started_run]) (simp_all add: begun_def)
  show thesis
  proof (cases d)
    case True
    show thesis by (rule that [OF life_run.goes [OF t(1) ctx_ends]]) (simp_all add: t True)
  next
    case False
    with t that show thesis by simp
  qed
qed

text \<open>
  The handle is empty between \<open>Start\<close> and \<open>attach\<close>, so a context that ends there cancels
  nothing: the command runs on, tracked, and its group is never signalled.
\<close>

theorem early_cancel_is_lost:
  "\<exists>s. life_run unix_ops 77 c (begun unix_ops r) s \<and> l_phase s = Tracked \<and> l_ctx s \<and>
     (\<forall>t. life_run unix_ops 77 c s t \<longrightarrow> l_cancel t = Some [])"
proof -
  let ?s1 = "(begun unix_ops r)\<lparr>l_phase := Started\<rparr>"
  let ?s2 = "?s1\<lparr>l_ctx := True\<rparr>"
  have "life_run unix_ops 77 c (begun unix_ops r) ?s2" by (rule life_run.goes [OF started_run ctx_ends])
  from life_run.goes [OF this cancels]
  have "life_run unix_ops 77 c (begun unix_ops r) (?s2\<lparr>l_cancel := Some []\<rparr>)"
    by (simp add: waiting_def begun_def unix.new_reaches_nothing)
  then obtain t where
    "life_run unix_ops 77 c (begun unix_ops r) t" "l_phase t = Tracked" "l_ctx t" "l_cancel t = Some []"
    by (rule attached_run) simp_all
  with cancel_stays_run [where sigs = "[]"] show ?thesis by blast
qed

definition sample_cmd :: cmd where
  "sample_cmd = \<lparr>c_Name = ''sleep'', c_Args = [''60''], c_Dir = ''/ws'', c_Env = []\<rparr>"

definition sample_calls :: win_calls where
  "sample_calls = \<lparr>wc_created = Some 8, wc_info = True, wc_opened = Some 9, wc_assigned = True, wc_killed = True\<rparr>"

lemma cancel_step:
  assumes "l_phase s = Tracked" "l_ctx s" "l_cancel s = None"
  obtains s' where "life_step ops p c s s'" "l_cancel s' = Some (op_terminate ops (l_handle s))"
  by (rule that [OF cancels]) (use assms in \<open>simp_all add: waiting_def\<close>)

theorem cancel_signals_the_tree_witness:
  "\<exists>s s'. life_run unix_ops 77 sample_cmd (begun unix_ops (NewRunner ''/ws'' [])) s \<and> l_phase s = Tracked \<and>
     life_step unix_ops 77 sample_cmd s s' \<and> l_cancel s' = Some [- 77, 77]"
proof -
  let ?r = "NewRunner ''/ws'' []"
  obtain s where s: "life_run unix_ops 77 sample_cmd (begun unix_ops ?r) s" "l_phase s = Tracked" "l_ctx s"
    "l_cancel s = None" by (rule tracked_run [where d = True]) simp
  obtain s' where s': "life_step unix_ops 77 sample_cmd s s'"
    "l_cancel s' = Some (op_terminate unix_ops (l_handle s))" by (rule cancel_step [OF s(2-4)])
  have none: "map_of (r_childs ?r) 77 = None" by (simp add: NewRunner_def)
  from cancel_signals_the_tree [OF _ none s(1) s'(1) s(4) s'(2) life_run.stays] s(2)
  have "l_cancel s' = Some [- 77, 77]" by simp
  with s s'(1) show ?thesis by blast
qed

theorem windows_cancel_kills_the_tree_witness:
  "\<exists>s s'. life_run (win_ops sample_calls []) 77 sample_cmd (begun (win_ops sample_calls []) (NewRunner ''/ws'' [])) s \<and>
     life_step (win_ops sample_calls []) 77 sample_cmd s s' \<and> l_cancel s' = Some [TerminatedJob 8]"
proof -
  let ?r = "NewRunner ''/ws'' []" and ?o = "win_ops sample_calls []"
  obtain s where s: "life_run ?o 77 sample_cmd (begun ?o ?r) s" "l_phase s = Tracked" "l_ctx s"
    "l_cancel s = None" by (rule tracked_run [where d = True]) simp
  obtain s' where s': "life_step ?o 77 sample_cmd s s'"
    "l_cancel s' = Some (op_terminate ?o (l_handle s))" by (rule cancel_step [OF s(2-4)])
  have none: "map_of (r_childs ?r) 77 = None" by (simp add: NewRunner_def)
  from windows_cancel_kills_the_tree [OF _ none s(1) s'(1) s(4) s'(2) life_run.stays] s(2)
  have "l_cancel s' = Some [TerminatedJob 8]" by (simp add: attach_ok_def sample_calls_def)
  with s(1) s'(1) show ?thesis by blast
qed

text \<open>
  Left alone, the steps of a command are \<open>exec_begin\<close> and \<open>exec_end\<close>: the runner and the
  result at the end are theirs.
\<close>

theorem quiet_life_is_the_handler:
  assumes "exec_begin prep own env hc args (Inr p) r = (Inr (q, c), r1)" "exec_end w d p r1 = (x, r2)"
  shows "\<exists>s. life_run ops p c (begun ops r) s \<and> l_phase s = Closed x \<and> l_runner s = r2"
proof -
  from assms(1) have r1: "r1 = track p c r" by (auto simp: exec_begin_def Let_def split: if_splits prod.splits)
  obtain s where s: "life_run ops p c (begun ops r) s" "l_phase s = Tracked" "l_ctx s = d" "l_runner s = r1"
    by (rule tracked_run) (simp add: r1)
  have x: "fst (exec_end w (l_ctx s) p (l_runner s)) = x" "r2 = untrack p r1"
    using assms(2) s by (auto simp: exec_end_def)
  obtain a where a: "life_run ops p c (begun ops r) a" "l_phase a = Waited x" "l_runner a = r1"
    by (rule that [OF life_run.goes [OF s(1) waited [OF s(2), of ops p c w]]]) (simp_all add: x(1) [unfolded s(4)] s(4))
  obtain b where b: "life_run ops p c (begun ops r) b" "l_phase b = Untracked x" "l_runner b = r2"
    by (rule that [OF life_run.goes [OF a(1) untracks [OF a(2)]]]) (simp_all add: x(2) a(3))
  obtain t where "life_run ops p c (begun ops r) t" "l_phase t = Closed x" "l_runner t = r2"
    by (rule that [OF life_run.goes [OF b(1) closes [OF b(2)]]]) (simp_all add: b(3))
  then show ?thesis by blast
qed

end
