(* ===== verification/JobReads.thy ===== *)
theory JobReads
  imports JobEnd
begin

text \<open>
  Reading a job's history while it runs (\<open>readMerged\<close>, \<open>OutputLines\<close> of
  \<open>internal/jobsvc/manager.go\<close>). No lock spans the read: the database is queried, then
  the ring of standard output is copied, then the ring of standard error, then the state
  is looked at, and the job goes on in between. Theory Jobs takes the four at one moment;
  here each has its own.
\<close>

subsection \<open>The read in steps\<close>

text \<open>\<open>live\<close> is the registered job, as it is when each of its two rings is copied.\<close>

definition readMerged_at ::
  "bool \<Rightarrow> string \<Rightarrow> int \<Rightarrow> store \<Rightarrow> (job \<times> job) option \<Rightarrow> unit + line_rec list" where
  "readMerged_at ok i st sto live =
     (case QueryLines ok i st sto of
        Inl e \<Rightarrow> Inl e
      | Inr (persisted, _) \<Rightarrow>
          (let maxSeq = max_seq persisted in
           case live of
             None \<Rightarrow> Inr persisted
           | Some (jo, je) \<Rightarrow>
               (let keep = filter (\<lambda>r. Seq r > maxSeq);
                    out = (if st = StreamStdout \<or> st < 0 then keep (lb_Recs (j_Stdout jo)) else []);
                    err = (if st = StreamStderr \<or> st < 0 then keep (lb_Recs (j_Stderr je)) else [])
                in Inr (persisted @ sort_recs (out @ err)))))"

text \<open>\<open>OutputLines\<close> after its read: the page, and the state of the job at the end.\<close>

definition OutputLines_at ::
  "unit + line_rec list \<Rightarrow> bool \<Rightarrow> string \<Rightarrow> int \<Rightarrow> int \<Rightarrow> manager \<Rightarrow> output_error + output_page" where
  "OutputLines_at merged job_ok i start end0 m =
     (case merged of
        Inl _ \<Rightarrow> Inl QueryFailed
      | Inr rs \<Rightarrow>
          (let n = int32 (int (length rs));
               (s, e) = page_bounds n start end0
           in case slice s e rs of
                None \<Rightarrow> Inl SlicePanic
              | Some page \<Rightarrow>
                  (let fin = (case Get i m of
                         Some j \<Rightarrow> j_State j \<noteq> StateRunning
                       | None \<Rightarrow> (case jobState job_ok i m of
                            Inr (Some row) \<Rightarrow> row_State row \<noteq> StateRunning
                          | _ \<Rightarrow> False))
                   in Inr \<lparr>op_lines = lines_text page, op_total = n, op_start = s, op_end = e,
                           op_done = fin\<rparr>)))"

text \<open>With nothing in between, these are \<open>readMerged\<close> and \<open>OutputLines\<close>.\<close>

lemma readMerged_at_once:
  "readMerged ok i st m = readMerged_at ok i st (m_store m) (map_option (\<lambda>j. (j, j)) (Get i m))"
  by (simp add: readMerged_def readMerged_at_def Let_def split: sum.split option.split)

lemma OutputLines_at_once:
  "OutputLines ok job_ok i st start end0 m = OutputLines_at (readMerged ok i st m) job_ok i start end0 m"
  by (simp add: OutputLines_def OutputLines_at_def)

subsection \<open>What such a read returns\<close>

lemma readMerged_at_live:
  "readMerged_at True i st sto (Some (jo, je)) = Inr (let p = sql_query_lines i st (db sto) in
     p @ sort_recs (filter (\<lambda>r. Seq r > max_seq p) (rings_at st jo je)))"
  by (simp add: readMerged_at_def QueryLines_def rings_at_def lb_Recs_def Let_def)

lemma merge_set:
  assumes "sorted_wrt (<) (map Seq p)" "distinct (map Seq rs)"
  shows "sorted_wrt (<) (map Seq (p @ sort_recs (filter (\<lambda>r. Seq r > max_seq p) rs)))"
    and "set (p @ sort_recs (filter (\<lambda>r. Seq r > max_seq p) rs)) = set p \<union> {r \<in> set rs. max_seq p < Seq r}"
proof -
  let ?k = "filter (\<lambda>r. Seq r > max_seq p) rs"
  have "sorted_wrt (<) (map Seq (sort_recs ?k))"
    by (rule sort_recs_strict) (use assms(2) in \<open>simp add: distinct_map_filter\<close>)
  moreover have "\<forall>a \<in> set p. \<forall>b \<in> set (sort_recs ?k). Seq a < Seq b"
    using max_seq_ge [of _ p] by (force simp: sort_recs_def)
  ultimately show "sorted_wrt (<) (map Seq (p @ sort_recs ?k))"
    using assms(1) by (simp add: sorted_wrt_append)
  show "set (p @ sort_recs ?k) = set p \<union> {r \<in> set rs. max_seq p < Seq r}"
    by (auto simp: sort_recs_def)
qed

lemma max_seq_below: "0 < x \<Longrightarrow> max_seq p < x \<longleftrightarrow> (\<forall>r \<in> set p. Seq r < x)"
  using max_seq_ge [of _ p] max_seq_less [of x p] by force

lemma hist_inv_positive: "hist_inv h j \<Longrightarrow> r \<in> set (on_stream st h) \<Longrightarrow> 0 < Seq r"
proof -
  assume h: "hist_inv h j" "r \<in> set (on_stream st h)"
  then have "Seq r \<in> set (map (\<lambda>x. Seq (snd x)) h)" by (auto simp: on_stream_def)
  with h(1) show "0 < Seq r" by (simp add: hist_inv_def)
qed

lemma rings_at_windows:
  assumes "hist_inv h1 jo" "hist_inv (h1 @ h2) je" "st \<in> {- 1, StreamStdout, StreamStderr}"
    and "seen = h1 @ filter (\<lambda>x. fst x = StreamStderr) h2"
  shows "set (rings_at st jo je) = set (on_stream st seen) \<inter>
    (set (lastn (nat (lb_max (j_Stdout jo))) (on_stream StreamStdout seen)) \<union>
     set (lastn (nat (lb_max (j_Stderr je))) (on_stream StreamStderr seen)))"
proof -
  let ?out = "on_stream StreamStdout seen" and ?err = "on_stream StreamStderr seen"
  note nums = StreamStdout_def StreamStderr_def
  have parts: "?out = on_stream StreamStdout h1" "?err = on_stream StreamStderr (h1 @ h2)"
    using assms(4) by (simp_all add: on_stream_filter_other on_stream_filter_same nums)
  then have rings: "recs (j_Stdout jo) = lastn (nat (lb_max (j_Stdout jo))) ?out"
    "recs (j_Stderr je) = lastn (nat (lb_max (j_Stderr je))) ?err"
    using assms(1,2) by (simp_all add: hist_inv_def lb_view_def)
  have "distinct (map Seq (on_stream StreamStdout (h1 @ h2) @ on_stream StreamStderr (h1 @ h2)))"
    by (rule hist_inv_distinct [OF assms(2)])
  then have "set ?out \<inter> set ?err = {}" by (auto simp: parts)
  then show ?thesis
    using assms(3) set_lastn_subset [of "nat (lb_max (j_Stdout jo))" ?out]
      set_lastn_subset [of "nat (lb_max (j_Stderr je))" ?err]
      on_stream_sub [of StreamStdout seen] on_stream_sub [of StreamStderr seen]
    by (auto simp: rings_at_def rings nums)
qed

text \<open>
  C20. What a read that overlaps the run returns. The database is queried at one moment of a
  job's life and the two rings are copied at two later ones. The answer is always in strictly
  increasing sequence order, without repetition, and holds nothing but lines the job had
  completed by then (of standard output by the first copy, of standard error by the second):
  exactly those that are in the database at the query, and of the others exactly those that
  are among the last lines of their stream which its ring holds at its copy and are newer
  than everything the query found. So a line is missing only if it had not reached the
  database and had either left its ring or been overtaken by a younger line that had.
\<close>

theorem overlapping_read:
  assumes "jreach (start_sys ml i c now st) es0 s0" and "fresh_in i st" and "list_all (ev_ok i) es0"
    and "jreach s0 es1 s1" and "jreach s1 es2 s2"
    and "stream \<in> {- 1, StreamStdout, StreamStderr}"
    and "seen = history es0 @ history es1 @ filter (\<lambda>x. fst x = StreamStderr) (history es2)"
    and "found = set (sql_query_lines i stream (db (sy_store s0)))"
    and "out = lastn (nat (lb_max (j_Stdout (sy_job s1)))) (on_stream StreamStdout seen)"
    and "err = lastn (nat (lb_max (j_Stderr (sy_job s2)))) (on_stream StreamStderr seen)"
  shows "\<exists>rs. readMerged_at True i stream (sy_store s0) (Some (sy_job s1, sy_job s2)) = Inr rs \<and>
    sorted_wrt (<) (map Seq rs) \<and> found \<subseteq> set (on_stream stream seen) \<and>
    set rs = {r \<in> set (on_stream stream seen).
      r \<in> found \<or> (r \<in> set out \<union> set err \<and> (\<forall>r' \<in> found. Seq r' < Seq r))}"
proof -
  have r1: "jreach (start_sys ml i c now st) (es0 @ es1) s1" by (rule jreach_compose [OF assms(4,1)])
  have r2: "jreach (start_sys ml i c now st) ((es0 @ es1) @ es2) s2" by (rule jreach_compose [OF assms(5) r1])
  have h: "hist_inv (history (es0 @ es1)) (sy_job s1)" "hist_inv (history (es0 @ es1) @ history es2) (sy_job s2)"
    using run_inv_reach [OF r1] run_inv_reach [OF r2] by (simp_all add: run_inv_def)
  have seen: "seen = history (es0 @ es1) @ filter (\<lambda>x. fst x = StreamStderr) (history es2)"
    using assms(7) by simp
  have run: "run_inv i es0 s0" "store_inv i es0 s0"
    by (rule run_inv_reach [OF assms(1)], rule store_inv_reach [OF assms(1,2)])
  let ?p = "sql_query_lines i stream (db (sy_store s0))"
  have "set ?p \<subseteq> set (on_stream stream (history es0))" by (rule persisted_in_history [OF run assms(3)])
  also have "\<dots> \<subseteq> set (on_stream stream seen)" by (rule on_stream_mono) (use assms(7) in auto)
  finally have p: "set ?p \<subseteq> set (on_stream stream seen)" .
  have "sorted_wrt (<) (map Seq ?p)" using run(2) by (simp add: store_inv_def sorted_query_lines)
  note m = merge_set [OF this rings_at_in_history(2) [OF h assms(6) seen]]
  have "set (on_stream stream seen) \<subseteq> set (on_stream stream (history (es0 @ es1) @ history es2))"
    by (rule on_stream_mono) (use seen in auto)
  with hist_inv_positive [OF h(2)] have pos: "0 < Seq r" if "r \<in> set (on_stream stream seen)" for r
    using that by blast
  have "set ?p \<union> {r \<in> set (rings_at stream (sy_job s1) (sy_job s2)). max_seq ?p < Seq r} =
      {r \<in> set (on_stream stream seen). r \<in> found \<or> (r \<in> set out \<union> set err \<and> (\<forall>r' \<in> found. Seq r' < Seq r))}"
    unfolding rings_at_windows [OF h assms(6) seen] assms(8-10)
    using p by (auto simp: max_seq_below [OF pos])
  with m p show ?thesis by (simp add: readMerged_at_live Let_def assms(8))
qed

definition sample_manager :: "jsys \<Rightarrow> manager" where
  "sample_manager s = \<lparr>m_store = sy_store s, m_memLines = 10, m_replay = 10, m_jobs = [(''j'', sy_job s)]\<rparr>"

definition out_labels :: "label list" where
  "out_labels = [LWrite 1 0 [CHR ''a'', LF]]"

definition err_labels :: "label list" where
  "err_labels = [LWrite 2 1 [CHR ''b'', LF]]"

lemma sample_overlap:
  "\<exists>s1. jrun out_labels sample_start = Goes [EvRecord 0 (LineRec 1 ''a'')] s1 \<and>
     recs (j_Stdout (sy_job s1)) = [LineRec 1 ''a''] \<and> db_lines (db (sy_store s1)) = [] \<and>
     lb_max (j_Stdout (sy_job s1)) = 10 \<and>
     (\<exists>s2. jrun err_labels s1 = Goes [EvRecord 1 (LineRec 2 ''b'')] s2 \<and>
       recs (j_Stdout (sy_job s2)) = [LineRec 1 ''a''] \<and> recs (j_Stderr (sy_job s2)) = [LineRec 2 ''b''] \<and>
       lb_max (j_Stderr (sy_job s2)) = 10 \<and> db_lines (db (sy_store s2)) = [] \<and> j_State (sy_job s2) = StateRunning)"
  unfolding out_labels_def err_labels_def sample_start_def by (simp add: jrun_simps)

lemma sample_start_empty: "db_lines (db (sy_store sample_start)) = []" "recs (j_Stdout (sy_job sample_start)) = []"
  by (simp_all add: sample_start_def start_sys_def sample_store_row new_job_def NewLineBuffer_def)

theorem overlapping_read_witness:
  "\<exists>s1 s2. jrun out_labels sample_start = Goes [EvRecord 0 (LineRec 1 ''a'')] s1 \<and>
     jrun err_labels s1 = Goes [EvRecord 1 (LineRec 2 ''b'')] s2 \<and>
     readMerged_at True ''j'' (- 1) (sy_store sample_start) (Some (sy_job s1, sy_job s2)) =
       Inr [LineRec 1 ''a'', LineRec 2 ''b'']"
proof -
  obtain s1 s2 where s: "jrun out_labels sample_start = Goes [EvRecord 0 (LineRec 1 ''a'')] s1"
    "recs (j_Stdout (sy_job s1)) = [LineRec 1 ''a'']"
    "jrun err_labels s1 = Goes [EvRecord 1 (LineRec 2 ''b'')] s2" "recs (j_Stderr (sy_job s2)) = [LineRec 2 ''b'']"
    "lb_max (j_Stdout (sy_job s1)) = 10" "lb_max (j_Stderr (sy_job s2)) = 10"
    using sample_overlap by blast
  have q: "sql_query_lines ''j'' (- 1) (db (sy_store sample_start)) = []"
    by (simp add: sql_query_lines_def sample_start_empty)
  have "jreach (start_sys 10 ''j'' ''ls'' 5 sample_store) [] sample_start"
    unfolding sample_start_def by (rule jreach.start)
  from overlapping_read [OF this sample_fresh _ jrun_reach [OF s(1)] jrun_reach [OF s(3)] _ refl refl refl refl, of "- 1"]
  obtain rs where rs: "readMerged_at True ''j'' (- 1) (sy_store sample_start) (Some (sy_job s1, sy_job s2)) = Inr rs"
    "sorted_wrt (<) (map Seq rs)" "set rs = {LineRec 1 ''a'', LineRec 2 ''b''}"
    by (auto simp: on_stream_def q StreamStderr_def StreamStdout_def lastn_def s(5,6))
  then have "rs = [LineRec 1 ''a'', LineRec 2 ''b'']"
    by (intro sorted_records_unique) simp_all
  with s(1,3) rs(1) show ?thesis by blast
qed

text \<open>
  A read may show a line and not the one before it: both lines are completed between the two
  copies, the first on standard output. The next read has it, in front of the line that was
  shown: a client that asks for the lines after those it has seen gets the second line twice
  and the first never.
\<close>

theorem overlapping_read_can_skip_a_line:
  "\<exists>s1 s2 es. jrun out_labels sample_start = Goes [EvRecord 0 (LineRec 1 ''a'')] s1 \<and>
     jrun err_labels s1 = Goes es s2 \<and>
     readMerged_at True ''j'' (- 1) (sy_store sample_start) (Some (sy_job sample_start, sy_job s2)) =
       Inr [LineRec 2 ''b''] \<and>
     OutputLines True True ''j'' (- 1) 1 0 (sample_manager s2) =
       Inr \<lparr>op_lines = [''b''], op_total = 2, op_start = 1, op_end = 2, op_done = False\<rparr>"
proof -
  obtain s1 s2 where s: "jrun out_labels sample_start = Goes [EvRecord 0 (LineRec 1 ''a'')] s1"
    "jrun err_labels s1 = Goes [EvRecord 1 (LineRec 2 ''b'')] s2" "recs (j_Stdout (sy_job s2)) = [LineRec 1 ''a'']"
    "recs (j_Stderr (sy_job s2)) = [LineRec 2 ''b'']" "db_lines (db (sy_store s2)) = []"
    "j_State (sy_job s2) = StateRunning"
    using sample_overlap by blast
  have "readMerged_at True ''j'' (- 1) (sy_store sample_start) (Some (sy_job sample_start, sy_job s2)) =
      Inr [LineRec 2 ''b'']"
    by (simp add: readMerged_at_live sql_query_lines_def sample_start_empty rings_at_def s(4) max_seq_def sort_recs_def)
  moreover have "readMerged True ''j'' (- 1) (sample_manager s2) = Inr [LineRec 1 ''a'', LineRec 2 ''b'']"
    by (simp add: readMerged_at_once readMerged_at_live sample_manager_def Get_def sql_query_lines_def s(3-5)
        rings_at_def max_seq_def sort_recs_def)
  then have "OutputLines True True ''j'' (- 1) 1 0 (sample_manager s2) =
      Inr \<lparr>op_lines = [''b''], op_total = 2, op_start = 1, op_end = 2, op_done = False\<rparr>"
    by (simp add: OutputLines_def page_bounds_def slice_def int32_id lines_text_def Get_def sample_manager_def s(6))
  ultimately show ?thesis using s(1,2) by blast
qed


text \<open>
  A page may be marked as done and lack lines. The state is looked up after the rings were
  copied: a job that prints and ends in between answers an empty page with \<open>done\<close> set,
  where asking again would show the line.
\<close>

theorem done_page_can_be_incomplete:
  "\<exists>es s. jrun (line_labels @ end_labels) sample_start = Goes es s \<and>
     readMerged_at True ''j'' (- 1) (sy_store sample_start) (Some (sy_job sample_start, sy_job sample_start)) = Inr [] \<and>
     OutputLines_at (Inr []) True ''j'' 0 0 (sample_manager s) =
       Inr \<lparr>op_lines = [], op_total = 0, op_start = 0, op_end = 0, op_done = True\<rparr> \<and>
     OutputLines True True ''j'' (- 1) 0 0 (sample_manager s) =
       Inr \<lparr>op_lines = [''a''], op_total = 1, op_start = 0, op_end = 1, op_done = True\<rparr>"
proof -
  have "\<exists>es s. jrun (line_labels @ end_labels) sample_start = Goes es s \<and>
      recs (j_Stdout (sy_job s)) = [LineRec 1 ''a''] \<and> recs (j_Stderr (sy_job s)) = [] \<and>
      db_lines (db (sy_store s)) = [] \<and> j_State (sy_job s) = StateDone"
    unfolding line_labels_def end_labels_def sample_start_def by (simp add: jrun_simps)
  then obtain es s where s: "jrun (line_labels @ end_labels) sample_start = Goes es s"
    "recs (j_Stdout (sy_job s)) = [LineRec 1 ''a'']" "recs (j_Stderr (sy_job s)) = []"
    "db_lines (db (sy_store s)) = []" "j_State (sy_job s) = StateDone" by blast
  have "recs (j_Stderr (sy_job sample_start)) = []"
    by (simp add: sample_start_def start_sys_def new_job_def NewLineBuffer_def)
  then have "readMerged_at True ''j'' (- 1) (sy_store sample_start) (Some (sy_job sample_start, sy_job sample_start)) = Inr []"
    by (simp add: readMerged_at_live sql_query_lines_def sample_start_empty rings_at_def sort_recs_def)
  moreover have "OutputLines_at (Inr []) True ''j'' 0 0 (sample_manager s) =
      Inr \<lparr>op_lines = [], op_total = 0, op_start = 0, op_end = 0, op_done = True\<rparr>"
    by (simp add: OutputLines_at_def page_bounds_def slice_def int32_id lines_text_def Get_def sample_manager_def s(5))
  moreover have "readMerged True ''j'' (- 1) (sample_manager s) = Inr [LineRec 1 ''a'']"
    by (simp add: readMerged_at_once readMerged_at_live sample_manager_def Get_def sql_query_lines_def s(2-4)
        rings_at_def max_seq_def sort_recs_def)
  then have "OutputLines True True ''j'' (- 1) 0 0 (sample_manager s) =
      Inr \<lparr>op_lines = [''a''], op_total = 1, op_start = 0, op_end = 1, op_done = True\<rparr>"
    by (simp add: OutputLines_def page_bounds_def slice_def int32_id lines_text_def Get_def sample_manager_def s(5))
  ultimately show ?thesis using s(1) by blast
qed



definition marked_labels :: "label list" where
  "marked_labels = [LReturn None 0, LMain 9, LMain 9, LMain 9, LMain 9]"

text \<open>
  A job that is just ending can be forgotten at once. The goroutine sets the state before the
  time it finished, and \<open>Prune\<close> does not wait for it: between the two the job looks as if it
  had ended in 1970, so a tick of the retention loop drops it from the registry, and with it
  the lines that are only in its rings.
\<close>

theorem prune_can_drop_an_ending_job:
  "\<exists>es s. jrun (line_labels @ marked_labels) sample_start = Goes es s \<and> sy_phase s = Marked \<and>
     readMerged True ''j'' (- 1) (sample_manager s) = Inr [LineRec 1 ''a''] \<and>
     (\<forall>now > hour_ms. Get ''j'' (Prune hour_ms now (sample_manager s)) = None \<and>
       readMerged True ''j'' (- 1) (Prune hour_ms now (sample_manager s)) = Inr [])"
proof -
  have "\<exists>es s. jrun (line_labels @ marked_labels) sample_start = Goes es s \<and> sy_phase s = Marked \<and>
      recs (j_Stdout (sy_job s)) = [LineRec 1 ''a''] \<and> recs (j_Stderr (sy_job s)) = [] \<and>
      db_lines (db (sy_store s)) = [] \<and> j_State (sy_job s) = StateDone \<and> j_FinishedAt (sy_job s) = 0"
    unfolding line_labels_def marked_labels_def sample_start_def by (simp add: jrun_simps)
  then obtain es s where s: "jrun (line_labels @ marked_labels) sample_start = Goes es s" "sy_phase s = Marked"
    "recs (j_Stdout (sy_job s)) = [LineRec 1 ''a'']" "recs (j_Stderr (sy_job s)) = []"
    "db_lines (db (sy_store s)) = []" "j_State (sy_job s) = StateDone" "j_FinishedAt (sy_job s) = 0" by blast
  have "readMerged True ''j'' (- 1) (sample_manager s) = Inr [LineRec 1 ''a'']"
    by (simp add: readMerged_at_once readMerged_at_live sample_manager_def Get_def sql_query_lines_def s(3-5)
        rings_at_def max_seq_def sort_recs_def)
  moreover have gone: "Get ''j'' (Prune hour_ms now (sample_manager s)) = None" if "hour_ms < now" for now
    using that by (simp add: Get_def Prune_def prunable_def sample_manager_def s(6,7))
  moreover have "readMerged True ''j'' (- 1) (Prune hour_ms now (sample_manager s)) = Inr []"
    if "hour_ms < now" for now
  proof -
    have "m_store (Prune hour_ms now (sample_manager s)) = sy_store s"
      by (simp add: Prune_def Let_def sample_manager_def)
    then show ?thesis by (simp add: readMerged_def QueryLines_def gone [OF that] sql_query_lines_def s(5))
  qed
  ultimately show ?thesis using s(1,2) by blast
qed


text \<open>
  A blank line is kept but not streamed. A subscriber that is there when it is printed gets
  nothing; one that comes later finds it in the replay.
\<close>

theorem blank_line_is_not_streamed:
  "\<exists>es s. jrun [LSubscribe, LWrite 1 0 [LF], LPublish 1] sample_start = Goes es s \<and>
     history es = [(0, LineRec 1 '''')] \<and> published es = [] \<and> blanks es = [(0, LineRec 1 '''')] \<and>
     map chan_buf (j_chans (sy_job s)) = [[]] \<and>
     fst (fst (Subscribe (sy_job s) (sy_job s) (sy_job s))) = ['''']"
  unfolding sample_start_def
  by (simp add: jrun_simps registerSub_def sort_recs_def lb_Recs_def new_chan_def lines_text_def)

text \<open>
  A line may come twice. Its callback runs after it was put into the ring, so a subscription
  in between finds it in the replay and is then sent it as a subsequent line.
\<close>

theorem line_is_replayed_and_streamed:
  "\<exists>s0 s. jrun [LWrite 1 0 [CHR ''a'', LF]] sample_start = Goes [EvRecord 0 (LineRec 1 ''a'')] s0 \<and>
     fst (Subscribe (sy_job s0) (sy_job s0) (sy_job s0)) = ([''a''], Some 0) \<and>
     jrun [LPublish 1] (s0\<lparr>sy_job := snd (Subscribe (sy_job s0) (sy_job s0) (sy_job s0))\<rparr>) =
       Goes [EvPublish 0 (LineRec 1 ''a'')] s \<and> chan_buf (j_chans (sy_job s) ! 0) = [''a'']"
  unfolding sample_start_def
  by (simp add: jrun_simps Subscribe_def registerSub_def sort_recs_def lb_Recs_def new_chan_def
      lines_text_def try_send_def subscriberCap_def)

text \<open>
  A retention tick can take a running job's lines. They are kept only as long as its row is
  there; when the insert of the row failed, which \<open>Execute\<close> goes on from, the tick deletes
  what the writer has committed of the output.
\<close>

definition retention_ok :: retention_env where
  "retention_ok = \<lparr>re_begin = True, re_jobs = True, re_lines = True, re_commit = True\<rparr>"

definition rowless_store :: store where
  "rowless_store = sample_store\<lparr>db := empty_db\<rparr>"

definition rowless_labels :: "label list" where
  "rowless_labels = line_labels @ [LStore (EvWriter (CaseRecv calm_flush True)), LStore (EvWriter (CaseTick calm_flush))]"

theorem retention_can_take_lines_of_a_running_job:
  "\<exists>es s es' s'. jrun rowless_labels (start_sys 10 ''j'' ''ls'' 5 rowless_store) = Goes es s \<and>
     list_all (ev_ok ''j'') es \<and> sy_phase s = Running \<and>
     lines_in_db ''j'' (sy_store s) = [store_line_of ''j'' 0 (LineRec 1 ''a'')] \<and>
     jstep (LRetain retention_ok now) s = Goes es' s' \<and> lines_in_db ''j'' (sy_store s') = []"
  unfolding rowless_labels_def line_labels_def rowless_store_def
  by (simp add: jrun_simps lines_in_db_def retention_ok_def Retention_def sql_retention_def empty_db_def
      flush_good_def)

end
