(* ===== verification/JobTerm.thy ===== *)
theory JobTerm
  imports JobEnd
begin

text \<open>
  The goroutine of \<open>Execute\<close> always comes to its end once the interpreter has returned:
  sends to subscribers and to the writer's queue never wait, so nothing another goroutine
  does or fails to do can hold it up.
\<close>

fun phase_left :: "phase \<Rightarrow> nat" where
  "phase_left Running = 10"
| "phase_left (Returned e x) = 9"
| "phase_left (FlushedOut e x) = 8"
| "phase_left (FlushedErr e x) = 7"
| "phase_left (Judged st) = 6"
| "phase_left Marked = 5"
| "phase_left Stated = 4"
| "phase_left Recorded = 3"
| "phase_left SubsClosed = 2"
| "phase_left PipeClosed = 1"
| "phase_left Exited = 0"

definition callback_work :: "pend list \<Rightarrow> nat" where
  "callback_work ps = sum_list (map (\<lambda>p. if p_pub p then 1 else 2) ps)"

text \<open>What the goroutine has left: phases first, then the callbacks of its own lines.\<close>

definition work_left :: "jsys \<Rightarrow> nat \<times> nat" where
  "work_left s = (phase_left (sy_phase s), callback_work (sy_threads s ! 0))"

definition less_work :: "(jsys \<times> jsys) set" where
  "less_work = inv_image (less_than <*lex*> less_than) work_left"

lemma wf_less_work: "wf less_work"
  unfolding less_work_def by (intro wf_inv_image wf_lex_prod wf_less_than)

fun own_label :: "label \<Rightarrow> bool" where
  "own_label (LPublish t) = (t = 0)"
| "own_label (LPersist t) = (t = 0)"
| "own_label (LMain now) = True"
| "own_label _ = False"

text \<open>A job whose goroutine is past the interpreter, in a state that invariants allow.\<close>

definition finishing :: "jsys \<Rightarrow> bool" where
  "finishing s \<longleftrightarrow> chan_inv s \<and> sy_threads s \<noteq> [] \<and> sy_phase s \<noteq> Running"

lemma main_step_progress:
  assumes "finishing s" "sy_phase s \<noteq> Exited" "sy_threads s ! 0 = []"
  shows "\<exists>es s'. main_step now s = Goes es s' \<and> phase_left (sy_phase s') < phase_left (sy_phase s)"
proof -
  have subs: "finishSubs (sy_job s) \<noteq> None"
    using assms(1) subs_inv_finish by (simp add: finishing_def chan_inv_def)
  with assms show ?thesis
    by (cases "sy_phase s") (auto simp: finishing_def main_step_def Let_def split: prod.split option.split)
qed

lemma own_step:
  assumes "finishing s" "sy_phase s \<noteq> Exited"
  shows "\<exists>l es s'. own_label l \<and> jstep l s = Goes es s' \<and> (s', s) \<in> less_work"
proof (cases "sy_threads s ! 0")
  case Nil
  from main_step_progress [OF assms Nil, of 0] obtain es s' where
    "main_step 0 s = Goes es s'" "phase_left (sy_phase s') < phase_left (sy_phase s)" by blast
  then show ?thesis
    by (intro exI [of _ "LMain 0"]) (simp add: less_work_def work_left_def)
next
  case (Cons p rest)
  obtain st b r where p: "p = Pend st b r" by (cases p)
  have t: "0 < length (sy_threads s)" "subs_inv (sy_job s)"
    using assms(1) by (auto simp: finishing_def chan_inv_def)
  show ?thesis
  proof (cases b)
    case True
    with Cons p t show ?thesis
      by (intro exI [of _ "LPersist 0"]) (auto simp: less_work_def work_left_def callback_work_def)
  next
    case False
    from subs_inv_publish [OF t(2)] obtain j' where "publishLine (Line r) (sy_job s) = Some j'" by blast
    with False Cons p t(1) show ?thesis
      by (intro exI [of _ "LPublish 0"]) (auto simp: less_work_def work_left_def callback_work_def)
  qed
qed

text \<open>Being past the interpreter is for good, whoever takes the step.\<close>

lemma main_step_past: "main_step now s = Goes es s' \<Longrightarrow> sy_phase s' \<noteq> Running"
  by (cases "sy_phase s") (auto simp: main_step_def Let_def split: if_splits prod.splits option.splits)

lemma finishing_step:
  assumes "finishing s" "jstep l s = Goes es s'"
  shows "finishing s'"
proof -
  have "sy_phase s' \<noteq> Running"
  proof (cases "\<exists>now. l = LMain now")
    case True
    with assms(2) main_step_past show ?thesis by auto
  next
    case False
    with jstep_life [OF assms(2)] assms(1) show ?thesis by (auto simp: finishing_def)
  qed
  with assms chan_inv_step [OF _ assms(2)] jstep_threads [OF assms(2)] show ?thesis
    by (simp add: finishing_def)
qed

lemma finishing_ends:
  "finishing s \<Longrightarrow> \<exists>ls es s'. list_all own_label ls \<and> jrun ls s = Goes es s' \<and> sy_phase s' = Exited"
proof (induction s rule: wf_induct_rule [OF wf_less_work])
  case (1 s)
  show ?case
  proof (cases "sy_phase s = Exited")
    case True
    then show ?thesis by (intro exI [of _ "[]"]) simp
  next
    case False
    from own_step [OF 1(2) False] obtain l es s1 where
      l: "own_label l" "jstep l s = Goes es s1" "(s1, s) \<in> less_work" by blast
    from 1(1) [OF l(3) finishing_step [OF 1(2) l(2)]] obtain ls es' s' where
      "list_all own_label ls" "jrun ls s1 = Goes es' s'" "sy_phase s' = Exited" by blast
    with l(1,2) show ?thesis by (intro exI [of _ "l # ls"]) simp
  qed
qed

text \<open>
  C12. A job whose command is over is over. From every state of a job's life after the
  interpreter returned, whatever subscribers, readers, the writer and other jobs have done
  and left undone, steps of the job's own goroutine alone lead to its end, with the
  completion channel closed, a terminal state and standard input closed; none of them waits
  and none panics.
\<close>

theorem job_always_ends:
  assumes "jreach (start_sys ml i c now st) es s" "sy_phase s \<noteq> Running"
  shows "\<exists>ls es' s'. list_all own_label ls \<and> jrun ls s = Goes es' s' \<and> sy_phase s' = Exited \<and>
    j_done (sy_job s') \<and> j_State (sy_job s') \<noteq> StateRunning \<and> j_stdin_closed (sy_job s')"
proof -
  have "finishing s"
    using chan_inv_reach [OF assms(1) chan_inv_start] run_inv_reach [OF assms(1)] assms(2)
    by (simp add: finishing_def run_inv_def)
  from finishing_ends [OF this] obtain ls es' s' where
    run: "list_all own_label ls" "jrun ls s = Goes es' s'" "sy_phase s' = Exited" by blast
  have "jreach (start_sys ml i c now st) (es @ es') s'" by (rule jreach_trans [OF assms(1) run(2)])
  from phase_inv_reach [OF this] run show ?thesis by (auto simp: verdict_def)
qed

theorem job_always_ends_witness:
  "\<exists>es s ls es' s'. jrun (line_labels @ [LReturn None 0]) sample_start = Goes es s \<and>
     list_all own_label ls \<and> jrun ls s = Goes es' s' \<and> j_done (sy_job s')"
proof -
  have "\<exists>es s. jrun (line_labels @ [LReturn None 0]) sample_start = Goes es s \<and> sy_phase s \<noteq> Running"
    unfolding line_labels_def sample_start_def by (simp add: jrun_simps)
  then obtain es s where s: "jrun (line_labels @ [LReturn None 0]) sample_start = Goes es s" "sy_phase s \<noteq> Running"
    by blast
  have "jreach (start_sys 10 ''j'' ''ls'' 5 sample_store) es s"
    using jrun_reach [OF s(1)] by (simp add: sample_start_def)
  from job_always_ends [OF this s(2)] s(1) show ?thesis by blast
qed

end
