(* ===== verification/Spec2Isabelle.thy ===== *)
theory Spec2Isabelle
  imports Routes Ewtest Probes FileEscape CmdLife JobReads JobTerm
begin

text \<open>
  Verification of easyworker, the sandbox worker: a server that runs shell commands as jobs,
  keeps their output, reads and writes files below a workspace root, and lets in one
  enrolled client.

  \<^bold>\<open>The program.\<close> \<open>cmd/easyworker/main.go\<close> reads flags and environment, opens the job
  database, builds the process runner, the job manager, the file service, the RPC service
  and the access gate, and mounts the RPC service behind a bearer interceptor and the
  enrollment service in front of it. A request for a command makes a job: a goroutine runs
  it through the shell interpreter, the interpreter's writers cut the output into numbered
  lines, a callback per line feeds the live subscribers and the queue of the database
  writer, and the goroutine's end records the verdict and releases the subscribers. Queries
  merge the database with the lines still in memory.

  \<^bold>\<open>The theories.\<close> Each opens with the files it models; definitions carry the source's names.

  \<^item> \<open>Prelude\<close>: strings, prefixes, hex, \<open>int32\<close>, last elements, joining; the fact collections
    \<open>go_defs\<close>, \<open>inv_intros\<close> and \<open>step_simps\<close>.
  \<^item> \<open>Gate\<close> (\<open>internal/auth/auth.go\<close>): the record \<open>gate\<close> is the struct \<open>Gate\<close>, \<open>Claim\<close>,
    \<open>Release\<close>, \<open>Authorized\<close>, \<open>Status\<close> its methods, atomic under their mutex; the persistent
    store is the interface \<open>StateStore\<close>, a record of functions with the locale
    \<open>state_store_laws\<close> for what it promises. Lemmas: the gate's invariant, alternation of
    claims and releases, what a release revokes, and the failure budget over any reachable run
    (ten wrong codes per started minute and release, and what is left of an old window: a burst
    of nineteen is possible, and shown).
  \<^item> \<open>FileStore\<close>, \<open>StateJson\<close> (\<open>internal/auth/filestore.go\<close>): every directory state a write
    passes through, and the JSON of the state file with its parser. Lemmas: after a crash the
    old or the new state is read, the JSON round trip, and the interpretation of the store
    laws, from which a restart resumes the enrollment.
  \<^item> \<open>Access\<close> (\<open>interceptor.go\<close>, \<open>internal/enroll.go\<close>, \<open>client/client.go\<close>): handlers as state
    functions, the interceptor on both sides, the enrollment calls.
  \<^item> \<open>LineBuffer\<close> (\<open>internal/shellh/runner.go\<close>, lines 142-255): the line splitter and its ring,
    a window on the history (\<open>lb_view\<close>), a refinement of a text splitter.
  \<^item> \<open>Store\<close> (\<open>internal/jobsvc/store.go\<close>): tables as lists with keys, each SQL statement a
    function, the writer goroutine as \<open>writer_step\<close> with its select cases and the outcomes of
    its database calls, the locale \<open>queued_writer\<close> (what is accepted is owed or written, in
    order) interpreted on the whole store and on one job's lines. \<open>StoreLife\<close>: what queries
    see of a store that lives on, is restarted, or has lost a record.
  \<^item> \<open>Jobs\<close>, \<open>JobQueries\<close> (\<open>internal/jobsvc/manager.go\<close>): jobs, channels, the registry; the
    merge, pagination, listing and pruning.
  \<^item> \<open>JobRun\<close>, \<open>JobInv\<close>, \<open>JobLife\<close>, \<open>JobChans\<close>, \<open>JobEnd\<close> (the goroutine of \<open>Execute\<close>): \<open>jstep\<close>
    is one atomic step of the goroutine, a stream writer, a callback's publication or
    enqueueing, a request, a subscriber, the store or the retention tick; \<open>jreach\<close> is
    reachability with the events on the way. Invariants: of history and rings, of what is
    pending, offered and persisted, of channels and subscribers, of the goroutine's phases and
    the verdict on the interpreter's return. A subscription copies the two rings and registers
    its channel at three moments of the run. \<open>JobReads\<close>: a history read whose parts are taken
    at different moments of the run, and what such reads and subscriptions can miss or repeat.
    \<open>JobTerm\<close>: once the interpreter has returned, the goroutine's own steps end the job.
  \<^item> \<open>Paths\<close>, \<open>Files\<close>, \<open>FileSafety\<close>, \<open>FileSync\<close>, \<open>FileEscape\<close> (\<open>internal/filesvc\<close>): \<open>path/filepath\<close> on unix, a
    file system with symbolic links and the kernel's path walk, the service's operations and
    the unpacking of a tar archive; what resolution finds, what stays below the root, what
    reads back, and where links defeat the check.
  \<^item> \<open>Service\<close>, \<open>Watch\<close> (\<open>internal/service.go\<close>): the handlers with their codes; what a watcher
    is sent, for every way the stream, the context and the job behave and over the life of a
    job, and the poll loop of a waiter.
  \<^item> \<open>Runner\<close> (\<open>runner.go\<close>, \<open>exec_unix.go\<close>, \<open>exec_windows.go\<close>): environment, directory, exit
    codes, the handlers the interpreter calls, tree handles, decimal numbers. \<open>CmdLife\<close>: the
    goroutine of one command against its cancellation, as a step relation over the locale
    \<open>tree_handles\<close>, interpreted on the handles of both platforms; what a cancellation does,
    and the moment at which it is lost.
  \<^item> \<open>Workspace\<close>, \<open>FileRpc\<close>: the contract between the RPC service and the file service as the
    locale \<open>workspace\<close>, interpreted on both: a successful write stays until its path is
    written again.
  \<^item> \<open>Config\<close>, \<open>Worker\<close> (\<open>cmd/easyworker/main.go\<close>): settings, the environment of jobs, \<open>boot\<close>,
    and \<open>serve\<close>, one request to the running worker; the properties of the whole, with the
    environment a process of a job starts with and the verdict on a run.
  \<^item> \<open>Routes\<close> (\<open>gen/worker/v1/workerv1connect/worker.connect.go\<close>, the mux of \<open>main\<close>): the
    procedures, the client stubs, the handlers by path and \<open>http_serve\<close>, one request to the
    listener; that a call reaches its handler and nothing goes around the gate.
  \<^item> \<open>Tools\<close>, \<open>Probes\<close> (\<open>cmd/easyworker-enroll\<close>, \<open>cmd/trustprobe\<close>): the enrollment tool, and
    the probes with their table, their selection and verdicts.
  \<^item> \<open>Ewtest\<close> (\<open>cmd/ewtest\<close>): the end-to-end test as a script over any worker: its exit code is
    that of its fourteen checks, its polling ends, and its file section passes against the
    handlers of \<open>Service\<close>.

  \<^bold>\<open>Conventions.\<close> Errors are sums; a Go panic is a value, and theorems show where it does not
  occur. Text is bytes, one character each. Numbers of the source that can wrap around
  wrap here (\<open>int32\<close> and \<open>wrap64\<close> written out, exit statuses as 8-bit words); sequence
  numbers, counters and times are 64 bits in the source and unbounded here. Whatever the
  outside decides (clock, random bytes, outcomes of system and database calls, order of a map
  iteration, unstable sorting, the interpreter) is an argument or a label of a step, so
  a theorem holds for all of it.

  \<^bold>\<open>Bounds and fuel.\<close> Loops are structural or have a measure, except the JSON parser,
  whose nesting is bounded by fuel: the length of the text is given, and the round trip
  shows it suffices for what the program writes. Path resolution counts the links left as
  the kernel (40) and \<open>EvalSymlinks\<close> (255) do. \<open>JobWait\<close> has a measure, and its bound is a
  property. The poll loops of \<open>Ewtest\<close> have a bound on polls: 102 suffice once time passes.

  \<^bold>\<open>Not modelled.\<close> The listener's set-up and the HTTP protocol, the message types generated in
  \<open>worker.pb.go\<close> and their wire format (the codec is a parameter), SQLite below the level of
  statements, the shell interpreter and its parser, the tar and gzip readers, logging and
  trace output (\<open>debug_windows.go\<close>, \<open>cmdPid\<close>, \<open>MonoMS\<close>), file permissions and failures of
  removal, and paths of the file service on Windows but for the three functions of
  \<open>fold_windows.go\<close>. What is left of the implementation besides these is declarations and
  imports.
\<close>

end
